(* ===== verification/Prelude.thy ===== *)
theory Prelude
  imports Main "HOL-Library.Char_ord" "HOL-Library.List_Lexorder" "HOL-Library.Word"
begin

text \<open>
  Shared vocabulary of the development: Rust's \<open>Result\<close> with its \<open>?\<close> operator and
  the two loops the code writes with it, \<open>BTreeMap\<close> as an association list kept in
  key order, and the operations of \<open>str\<close> the sources call.

  A Rust \<open>String\<close> is the list of its UTF-8 bytes, so \<open>length\<close> is Rust's \<open>len()\<close>
  and the order of \<open>HOL-Library.List_Lexorder\<close> is the order \<open>BTreeMap<String, _>\<close>
  iterates in. Where the code walks over \<open>chars()\<close>, \<open>utf8_chars\<close> gives the list of
  the encoded characters.
\<close>

section \<open>Collections of rewrite rules\<close>

named_theorems result_simps \<open>inversion of successful and failing computations\<close>
named_theorems text_simps \<open>inversion of the string operations\<close>

section \<open>Results\<close>

fun bindE :: "'e + 'a \<Rightarrow> ('a \<Rightarrow> 'e + 'b) \<Rightarrow> 'e + 'b" where
  "bindE (Inl e) f = Inl e"
| "bindE (Inr x) f = f x"

definition ensure :: "bool \<Rightarrow> 'e \<Rightarrow> 'e + unit" where
  "ensure b e = (if b then Inr () else Inl e)"

definition ok_or :: "'a option \<Rightarrow> 'e \<Rightarrow> 'e + 'a" where
  "ok_or x e = (case x of None \<Rightarrow> Inl e | Some v \<Rightarrow> Inr v)"

text \<open>\<open>iter().map(f).collect::<Result<Vec<_>, _>>()\<close>: the first error ends the loop.\<close>

fun mapE :: "('a \<Rightarrow> 'e + 'b) \<Rightarrow> 'a list \<Rightarrow> 'e + 'b list" where
  "mapE f [] = Inr []"
| "mapE f (x # xs) = bindE (f x) (\<lambda>y. bindE (mapE f xs) (\<lambda>ys. Inr (y # ys)))"

text \<open>A \<open>for\<close> loop over a mutable state whose body uses \<open>?\<close>.\<close>

fun foldE :: "('s \<Rightarrow> 'a \<Rightarrow> 'e + 's) \<Rightarrow> 's \<Rightarrow> 'a list \<Rightarrow> 'e + 's" where
  "foldE f s [] = Inr s"
| "foldE f s (x # xs) = bindE (f s x) (\<lambda>s'. foldE f s' xs)"

lemma bindE_Inr [result_simps]:
  "bindE m f = Inr y \<longleftrightarrow> (\<exists>x. m = Inr x \<and> f x = Inr y)"
  by (cases m) auto

lemma bindE_Inl [result_simps]:
  "bindE m f = Inl e \<longleftrightarrow> m = Inl e \<or> (\<exists>x. m = Inr x \<and> f x = Inl e)"
  by (cases m) auto

lemma ensure_Inr [result_simps]: "ensure b e = Inr u \<longleftrightarrow> b"
  by (simp add: ensure_def)

lemma ensure_Inl [result_simps]: "ensure b e = Inl e' \<longleftrightarrow> \<not> b \<and> e' = e"
  by (auto simp: ensure_def)

lemma ok_or_Inr [result_simps]: "ok_or x e = Inr y \<longleftrightarrow> x = Some y"
  by (auto simp: ok_or_def split: option.splits)

lemma ok_or_Inl [result_simps]: "ok_or x e = Inl e' \<longleftrightarrow> x = None \<and> e' = e"
  by (auto simp: ok_or_def split: option.splits)

lemma bindE_cong [fundef_cong]:
  "m = m' \<Longrightarrow> (\<And>x. m' = Inr x \<Longrightarrow> f x = f' x) \<Longrightarrow> bindE m f = bindE m' f'"
  by (cases m') auto

lemma mapE_cong [fundef_cong]:
  "xs = ys \<Longrightarrow> (\<And>x. x \<in> set ys \<Longrightarrow> f x = g x) \<Longrightarrow> mapE f xs = mapE g ys"
  by (induction ys arbitrary: xs) auto

lemma foldE_cong [fundef_cong]:
  "s = s' \<Longrightarrow> xs = ys \<Longrightarrow> (\<And>t x. x \<in> set ys \<Longrightarrow> f t x = g t x)
    \<Longrightarrow> foldE f s xs = foldE g s' ys"
  by (induction ys arbitrary: xs s s') (auto intro: bindE_cong)

lemma mapE_Inr [result_simps]:
  "mapE f xs = Inr ys \<longleftrightarrow> list_all2 (\<lambda>x y. f x = Inr y) xs ys"
  by (induction xs arbitrary: ys) (auto simp: bindE_Inr list_all2_Cons1)

lemma mapE_Inl:
  "mapE f xs = Inl e \<longleftrightarrow>
    (\<exists>before x after ys. xs = before @ x # after \<and> mapE f before = Inr ys \<and> f x = Inl e)"
proof (induction xs)
  case (Cons a xs)
  show ?case
  proof (cases "f a")
    case (Inl e')
    then show ?thesis
      by (auto simp: Cons_eq_append_conv)
         (metis append_Nil mapE.simps(1))
  next
    case (Inr b)
    then show ?thesis
      by (auto simp: Cons Cons_eq_append_conv bindE_Inl bindE_Inr) (metis bindE.simps(2) mapE.simps(2))+
  qed
qed simp

lemma list_all2_source: "list_all2 P xs ys \<Longrightarrow> y \<in> set ys \<Longrightarrow> \<exists>x\<in>set xs. P x y"
  by (induction xs ys rule: list_all2_induct) auto

lemma mapE_length: "mapE f xs = Inr ys \<Longrightarrow> length ys = length xs"
  by (auto simp: mapE_Inr dest: list_all2_lengthD)

lemma bindE_assoc: "bindE (bindE m f) g = bindE m (\<lambda>x. bindE (f x) g)"
  by (cases m) auto

lemma foldE_append:
  "foldE f s (xs @ ys) = bindE (foldE f s xs) (\<lambda>t. foldE f t ys)"
  by (induction xs arbitrary: s) (simp_all add: bindE_assoc)

text \<open>Loop rule: an invariant kept by every successful body holds at the end.\<close>

lemma foldE_invariant:
  assumes "foldE f s xs = Inr t" and "P s"
    and "\<And>s x s'. x \<in> set xs \<Longrightarrow> P s \<Longrightarrow> f s x = Inr s' \<Longrightarrow> P s'"
  shows "P t"
  using assms
proof (induction xs arbitrary: s)
  case (Cons x xs)
  from Cons.prems(1) obtain s' where s': "f s x = Inr s'" "foldE f s' xs = Inr t"
    by (auto simp: bindE_Inr)
  have "P s'" using Cons.prems(2,3) s'(1) by (meson list.set_intros(1))
  with s'(2) Cons.prems(3) show ?case
    by (meson Cons.IH list.set_intros(2))
qed simp

text \<open>A loop fails only if one of its bodies does, in a state the loop reached.\<close>

lemma foldE_Inl_invariant:
  assumes "foldE f s xs = Inl e" and "P s"
    and "\<And>s x s'. x \<in> set xs \<Longrightarrow> P s \<Longrightarrow> f s x = Inr s' \<Longrightarrow> P s'"
  shows "\<exists>x\<in>set xs. \<exists>s. P s \<and> f s x = Inl e"
  using assms
proof (induction xs arbitrary: s)
  case (Cons x xs)
  show ?case
  proof (cases "f s x")
    case (Inl e')
    with Cons.prems show ?thesis by auto
  next
    case (Inr s')
    with Cons.prems have "foldE f s' xs = Inl e" "P s'" by auto
    with Cons.IH Cons.prems(3) show ?thesis
      by (metis list.set_intros(2))
  qed
qed simp

text \<open>A loop also reaches a fact about each element, if later bodies keep it.\<close>

lemma foldE_reaches:
  assumes "foldE f s xs = Inr t" and "P s"
    and "\<And>s x s'. x \<in> set xs \<Longrightarrow> P s \<Longrightarrow> f s x = Inr s' \<Longrightarrow> P s' \<and> Q x s'"
    and "\<And>s x y s'. x \<in> set xs \<Longrightarrow> P s \<Longrightarrow> Q y s \<Longrightarrow> f s x = Inr s' \<Longrightarrow> Q y s'"
  shows "P t \<and> (\<forall>x\<in>set xs. Q x t)"
  using assms
proof (induction xs arbitrary: t rule: rev_induct)
  case Nil
  from Nil.prems(1,2) show ?case by simp
next
  case (snoc x xs)
  from snoc.prems(1) obtain t' where t': "foldE f s xs = Inr t'" "f t' x = Inr t"
    by (auto simp: foldE_append bindE_Inr)
  have "P t' \<and> (\<forall>x\<in>set xs. Q x t')"
  proof (rule snoc.IH [OF t'(1) snoc.prems(2)])
    fix s y s' assume "y \<in> set xs" "P s" "f s y = Inr s'"
    then show "P s' \<and> Q y s'" using snoc.prems(3) [of y s s'] by simp
  next
    fix s y z s' assume "y \<in> set xs" "P s" "Q z s" "f s y = Inr s'"
    then show "Q z s'" using snoc.prems(4) [of y s z s'] by simp
  qed
  then show ?case using t'(2) snoc.prems(3) [of x t' t] snoc.prems(4) [of x t' _ t] by auto
qed

lemma foldE_total:
  assumes "P s" and "\<And>s x. x \<in> set xs \<Longrightarrow> P s \<Longrightarrow> \<exists>s'. f s x = Inr s' \<and> P s'"
  shows "\<exists>t. foldE f s xs = Inr t \<and> P t"
  using assms
proof (induction xs arbitrary: s)
  case (Cons x xs)
  then obtain s' where "f s x = Inr s'" "P s'" by (meson list.set_intros(1))
  with Cons.IH [of s'] Cons.prems(2) show ?case by (auto simp: bindE_Inr)
qed simp

end
