(* ===== verification/Text_Ops.thy ===== *)
theory Text_Ops
  imports Prelude
begin

text \<open>
  The methods of \<open>str\<close> and \<open>String\<close> that the sources call, on the bytes of the
  string. Searches for ASCII patterns, prefixes and suffixes work byte by byte, as they
  do in Rust; \<open>trim\<close> and \<open>chars\<close> work on encoded characters.
\<close>

section \<open>Bytes and characters\<close>

abbreviation byte_of :: "char \<Rightarrow> nat" where
  "byte_of c \<equiv> of_char c"

definition is_ascii_uppercase :: "char \<Rightarrow> bool" where
  "is_ascii_uppercase c = (65 \<le> byte_of c \<and> byte_of c \<le> 90)"

definition is_ascii_lowercase :: "char \<Rightarrow> bool" where
  "is_ascii_lowercase c = (97 \<le> byte_of c \<and> byte_of c \<le> 122)"

definition is_ascii_digit :: "char \<Rightarrow> bool" where
  "is_ascii_digit c = (48 \<le> byte_of c \<and> byte_of c \<le> 57)"

definition is_ascii_alphabetic :: "char \<Rightarrow> bool" where
  "is_ascii_alphabetic c = (is_ascii_uppercase c \<or> is_ascii_lowercase c)"

definition is_ascii_alphanumeric :: "char \<Rightarrow> bool" where
  "is_ascii_alphanumeric c = (is_ascii_alphabetic c \<or> is_ascii_digit c)"

definition ascii_lower :: "char \<Rightarrow> char" where
  "ascii_lower c = (if is_ascii_uppercase c then char_of (byte_of c + 32) else c)"

definition to_ascii_lowercase :: "string \<Rightarrow> string" where
  "to_ascii_lowercase s = map ascii_lower s"

definition eq_ignore_ascii_case :: "string \<Rightarrow> string \<Rightarrow> bool" where
  "eq_ignore_ascii_case a b = (to_ascii_lowercase a = to_ascii_lowercase b)"

definition utf8_continuation :: "char \<Rightarrow> bool" where
  "utf8_continuation c = (128 \<le> byte_of c \<and> byte_of c < 192)"

text \<open>\<open>chars()\<close>: a character is a byte that starts one, with its continuation bytes.\<close>

function utf8_chars :: "string \<Rightarrow> string list" where
  "utf8_chars [] = []"
| "utf8_chars (c # s) =
    (c # takeWhile utf8_continuation s) # utf8_chars (dropWhile utf8_continuation s)"
  by pat_completeness auto
termination
  by (relation "measure length") (auto simp: le_imp_less_Suc length_dropWhile_le)

definition is_char_boundary :: "string \<Rightarrow> nat \<Rightarrow> bool" where
  "is_char_boundary s i =
    (i = 0 \<or> i = length s \<or> i < length s \<and> \<not> utf8_continuation (s ! i))"

text \<open>The code points with the Unicode property White_Space, as UTF-8.\<close>

definition is_whitespace :: "string \<Rightarrow> bool" where
  "is_whitespace ch =
    (case map byte_of ch of
      [a] \<Rightarrow> 9 \<le> a \<and> a \<le> 13 \<or> a = 32
    | [a, b] \<Rightarrow> a = 0xC2 \<and> (b = 0x85 \<or> b = 0xA0)
    | [a, b, c] \<Rightarrow>
        a = 0xE1 \<and> b = 0x9A \<and> c = 0x80 \<or>
        a = 0xE2 \<and> b = 0x80 \<and> (0x80 \<le> c \<and> c \<le> 0x8A \<or> c = 0xA8 \<or> c = 0xA9 \<or> c = 0xAF) \<or>
        a = 0xE2 \<and> b = 0x81 \<and> c = 0x9F \<or>
        a = 0xE3 \<and> b = 0x80 \<and> c = 0x80
    | _ \<Rightarrow> False)"

definition trim_start :: "string \<Rightarrow> string" where
  "trim_start s = concat (dropWhile is_whitespace (utf8_chars s))"

definition trim_end :: "string \<Rightarrow> string" where
  "trim_end s = concat (rev (dropWhile is_whitespace (rev (utf8_chars s))))"

definition trim :: "string \<Rightarrow> string" where
  "trim s = trim_end (trim_start s)"

definition trim_start_matches :: "char \<Rightarrow> string \<Rightarrow> string" where
  "trim_start_matches c s = dropWhile (\<lambda>x. x = c) s"

definition trim_end_matches :: "char \<Rightarrow> string \<Rightarrow> string" where
  "trim_end_matches c s = rev (dropWhile (\<lambda>x. x = c) (rev s))"

section \<open>Prefixes, suffixes, searches\<close>

fun strip_prefix :: "string \<Rightarrow> string \<Rightarrow> string option" where
  "strip_prefix s [] = Some s"
| "strip_prefix [] (p # ps) = None"
| "strip_prefix (c # s) (p # ps) = (if c = p then strip_prefix s ps else None)"

definition strip_suffix :: "string \<Rightarrow> string \<Rightarrow> string option" where
  "strip_suffix s p = map_option rev (strip_prefix (rev s) (rev p))"

definition starts_with :: "string \<Rightarrow> string \<Rightarrow> bool" where
  "starts_with s p = (strip_prefix s p \<noteq> None)"

definition ends_with :: "string \<Rightarrow> string \<Rightarrow> bool" where
  "ends_with s p = (strip_suffix s p \<noteq> None)"

fun find_str :: "string \<Rightarrow> string \<Rightarrow> nat option" where
  "find_str [] p = (if p = [] then Some 0 else None)"
| "find_str (c # s) p =
    (if starts_with (c # s) p then Some 0 else map_option Suc (find_str s p))"

definition contains_str :: "string \<Rightarrow> string \<Rightarrow> bool" where
  "contains_str s p = (find_str s p \<noteq> None)"

definition contains_char :: "string \<Rightarrow> char \<Rightarrow> bool" where
  "contains_char s c = list_ex (\<lambda>x. x = c) s"

text \<open>\<open>split_once(c)\<close> and \<open>split(c)\<close> for an ASCII separator.\<close>

fun split_once :: "char \<Rightarrow> string \<Rightarrow> (string \<times> string) option" where
  "split_once c [] = None"
| "split_once c (x # s) =
    (if x = c then Some ([], s) else map_option (\<lambda>(a, b). (x # a, b)) (split_once c s))"

fun split_char :: "char \<Rightarrow> string \<Rightarrow> string list" where
  "split_char c [] = [[]]"
| "split_char c (x # s) =
    (if x = c then [] # split_char c s
     else (case split_char c s of [] \<Rightarrow> [[x]] | p # ps \<Rightarrow> (x # p) # ps))"

definition replace_char :: "char \<Rightarrow> char \<Rightarrow> string \<Rightarrow> string" where
  "replace_char a b s = map (\<lambda>c. if c = a then b else c) s"

fun join_with :: "string \<Rightarrow> string list \<Rightarrow> string" where
  "join_with sep [] = []"
| "join_with sep [x] = x"
| "join_with sep (x # y # ys) = x @ sep @ join_with sep (y # ys)"

text \<open>\<open>usize::to_string\<close>.\<close>

definition digit_char :: "nat \<Rightarrow> char" where
  "digit_char d = char_of (48 + d)"

fun show_nat :: "nat \<Rightarrow> string" where
  "show_nat n =
    (if n < 10 then [digit_char n] else show_nat (n div 10) @ [digit_char (n mod 10)])"

declare show_nat.simps [simp del]

text \<open>\<open>parse::<usize>()\<close>: digits after an optional sign \<open>+\<close>, no overflow.\<close>

definition digits_value :: "string \<Rightarrow> nat" where
  "digits_value s = foldl (\<lambda>n c. n * 10 + (byte_of c - 48)) 0 s"

definition parse_usize :: "string \<Rightarrow> nat option" where
  "parse_usize s =
    (let digits = (case s of c # rest \<Rightarrow> if c = CHR ''+'' then rest else s | [] \<Rightarrow> s) in
     if digits \<noteq> [] \<and> list_all is_ascii_digit digits \<and> digits_value digits < 2 ^ 64
     then Some (digits_value digits) else None)"

section \<open>Facts\<close>

lemma strip_prefix_Some [text_simps]: "strip_prefix s p = Some r \<longleftrightarrow> s = p @ r"
  by (induction s p rule: strip_prefix.induct) auto

lemma strip_suffix_Some [text_simps]: "strip_suffix s p = Some r \<longleftrightarrow> s = r @ p"
  by (auto simp: strip_suffix_def strip_prefix_Some) (metis rev_append rev_rev_ident)+

lemma starts_with_iff [text_simps]: "starts_with s p \<longleftrightarrow> (\<exists>r. s = p @ r)"
  by (auto simp: starts_with_def strip_prefix_Some)

lemma starts_with_append [simp]: "starts_with (p @ r) p"
  by (auto simp: starts_with_iff)

lemma find_str_Some:
  "find_str s p = Some i \<Longrightarrow> i \<le> length s \<and> starts_with (drop i s) p"
  by (induction s p arbitrary: i rule: find_str.induct)
    (auto split: if_splits simp: text_simps)

lemma find_str_None: "find_str s p = None \<Longrightarrow> \<not> starts_with (drop i s) p"
proof (induction s p arbitrary: i rule: find_str.induct)
  case (2 c s p)
  then show ?case by (cases i) (auto split: if_splits)
qed (auto split: if_splits simp: text_simps)

lemma find_str_least: "find_str s p = Some i \<Longrightarrow> j < i \<Longrightarrow> \<not> starts_with (drop j s) p"
proof (induction s p arbitrary: i j rule: find_str.induct)
  case (2 c s p)
  then show ?case by (cases j) (auto split: if_splits)
qed (auto split: if_splits)

lemma contains_str_iff: "contains_str s p \<longleftrightarrow> (\<exists>a b. s = a @ p @ b)"
proof
  assume "contains_str s p"
  then obtain i where "find_str s p = Some i" by (auto simp: contains_str_def)
  from find_str_Some [OF this] obtain r where "drop i s = p @ r" by (auto simp: text_simps)
  then show "\<exists>a b. s = a @ p @ b" by (metis append_take_drop_id)
next
  assume "\<exists>a b. s = a @ p @ b"
  then obtain a b where s: "s = a @ p @ b" by blast
  then have "starts_with (drop (length a) s) p" by simp
  then show "contains_str s p" unfolding contains_str_def using find_str_None by blast
qed

lemma contains_char_iff [simp]: "contains_char s c \<longleftrightarrow> c \<in> set s"
  by (auto simp: contains_char_def list_ex_iff)

lemma concat_utf8_chars [simp]: "concat (utf8_chars s) = s"
  by (induction s rule: utf8_chars.induct) auto

lemma utf8_chars_nonempty: "[] \<notin> set (utf8_chars s)"
  by (induction s rule: utf8_chars.induct) auto

lemma byte_of_char_of [simp]: "n < 256 \<Longrightarrow> byte_of (char_of n) = n"
  by (simp add: of_char_mod_256)

lemma ascii_lower_idem [simp]: "ascii_lower (ascii_lower c) = ascii_lower c"
  by (auto simp: ascii_lower_def is_ascii_uppercase_def)

lemma to_ascii_lowercase_idem [simp]:
  "to_ascii_lowercase (to_ascii_lowercase s) = to_ascii_lowercase s"
  by (simp add: to_ascii_lowercase_def o_def)

lemma length_to_ascii_lowercase [simp]: "length (to_ascii_lowercase s) = length s"
  by (simp add: to_ascii_lowercase_def)

lemma digit_char_inj: "a < 10 \<Longrightarrow> b < 10 \<Longrightarrow> digit_char a = digit_char b \<longleftrightarrow> a = b"
proof -
  have byte: "byte_of (digit_char d) = 48 + d" if "d < 10" for d
    unfolding digit_char_def using that by (intro byte_of_char_of) linarith
  assume "a < 10" "b < 10"
  then show ?thesis by (metis byte add_left_cancel)
qed

lemma show_nat_inj: "show_nat m = show_nat n \<longleftrightarrow> m = n"
proof (induction m arbitrary: n rule: show_nat.induct)
  case (1 m)
  have nonempty: "show_nat k \<noteq> []" for k by (subst show_nat.simps) simp
  show ?case
  proof (cases "m < 10"; cases "n < 10")
    assume "m < 10" "n < 10"
    then show ?thesis by (simp add: show_nat.simps [of m] show_nat.simps [of n] digit_char_inj)
  next
    assume "m < 10" "\<not> n < 10"
    then show ?thesis
      using nonempty by (auto simp: show_nat.simps [of m] show_nat.simps [of n] Cons_eq_append_conv)
  next
    assume "\<not> m < 10" "n < 10"
    then show ?thesis
      using nonempty by (auto simp: show_nat.simps [of m] show_nat.simps [of n] append_eq_Cons_conv)
  next
    assume "\<not> m < 10" "\<not> n < 10"
    then have "show_nat m = show_nat n \<longleftrightarrow> m div 10 = n div 10 \<and> m mod 10 = n mod 10"
      using 1 by (simp add: show_nat.simps [of m] show_nat.simps [of n] digit_char_inj)
    then show ?thesis by (metis div_mult_mod_eq)
  qed
qed

lemma byte_digit_char: "d < 10 \<Longrightarrow> byte_of (digit_char d) = 48 + d"
  unfolding digit_char_def by (intro byte_of_char_of) linarith

lemma show_nat_digits: "list_all is_ascii_digit (show_nat n) \<and> digits_value (show_nat n) = n"
proof (induction n rule: show_nat.induct)
  case (1 n)
  show ?case
    using 1 by (cases "n < 10") (simp_all add: show_nat.simps [of n] digits_value_def
      is_ascii_digit_def byte_digit_char)
qed

lemma show_nat_nonempty [simp]: "show_nat n \<noteq> []"
  by (subst show_nat.simps) simp

lemma parse_show_nat: "n < 2 ^ 64 \<Longrightarrow> parse_usize (show_nat n) = Some n"
proof -
  have "hd (show_nat n) \<noteq> CHR ''+''"
    using show_nat_digits [of n] by (cases "show_nat n") (auto simp: is_ascii_digit_def)
  moreover assume "n < 2 ^ 64"
  ultimately show ?thesis
    using show_nat_digits [of n] by (cases "show_nat n") (auto simp: parse_usize_def Let_def)
qed

lemma split_once_Some:
  "split_once c s = Some (a, b) \<longleftrightarrow> s = a @ c # b \<and> c \<notin> set a"
proof (induction s arbitrary: a b)
  case (Cons x s)
  then show ?case by (cases a) auto
qed simp

lemma drop_prefix_nth:
  assumes "drop a t = p @ r" "k < length p"
  shows "a + k < length t \<and> t ! (a + k) = p ! k"
proof -
  have "length p \<le> length t - a" using assms(1) by (metis length_append length_drop le_add1)
  then have "a + k < length t" using assms(2) by linarith
  moreover have "t ! (a + k) = drop a t ! k" using calculation by simp
  ultimately show ?thesis using assms by (simp add: nth_append)
qed

section \<open>Slices and UTF-8\<close>

text \<open>
  \<open>&s[i..]\<close> and \<open>&s[i..j]\<close> panic when a bound is out of range or inside a character;
  \<open>panic\<close> is the failure that stands for it.
\<close>

definition slice_from :: "'e \<Rightarrow> string \<Rightarrow> nat \<Rightarrow> 'e + string" where
  "slice_from panic s i = (if is_char_boundary s i then Inr (drop i s) else Inl panic)"

definition slice :: "'e \<Rightarrow> string \<Rightarrow> nat \<Rightarrow> nat \<Rightarrow> 'e + string" where
  "slice panic s i j =
    (if i \<le> j \<and> is_char_boundary s i \<and> is_char_boundary s j
     then Inr (take (j - i) (drop i s)) else Inl panic)"

text \<open>
  Well-formed UTF-8, which every \<open>str\<close> is: each character has the continuation bytes its
  first byte announces, in the shortest encoding, and is no surrogate.
\<close>

definition utf8_char_ok :: "string \<Rightarrow> bool" where
  "utf8_char_ok ch =
    (case map byte_of ch of
      [a] \<Rightarrow> a < 128
    | [a, b] \<Rightarrow> 0xC2 \<le> a \<and> a < 0xE0
    | [a, b, c] \<Rightarrow> 0xE0 \<le> a \<and> a < 0xF0 \<and> (a = 0xE0 \<longrightarrow> 0xA0 \<le> b) \<and> (a = 0xED \<longrightarrow> b < 0xA0)
    | [a, b, c, d] \<Rightarrow> 0xF0 \<le> a \<and> a \<le> 0xF4 \<and> (a = 0xF0 \<longrightarrow> 0x90 \<le> b) \<and> (a = 0xF4 \<longrightarrow> b < 0x90)
    | _ \<Rightarrow> False)"

definition utf8_ok :: "string \<Rightarrow> bool" where
  "utf8_ok s = list_all utf8_char_ok (utf8_chars s)"

lemma utf8_ok_Nil [simp]: "utf8_ok []"
  by (simp add: utf8_ok_def)

lemma utf8_ok_Cons:
  "utf8_ok (c # s) \<longleftrightarrow>
    utf8_char_ok (c # takeWhile utf8_continuation s) \<and> utf8_ok (dropWhile utf8_continuation s)"
  by (simp add: utf8_ok_def)

text \<open>An ASCII byte is a character by itself.\<close>

lemma utf8_ok_ascii:
  assumes "byte_of c < 128" "utf8_ok (c # s)"
  shows "utf8_ok s" "utf8_chars (c # s) = [c] # utf8_chars s" "is_char_boundary s 0"
    "s \<noteq> [] \<Longrightarrow> \<not> utf8_continuation (hd s)"
proof -
  have "takeWhile utf8_continuation s = []"
    using assms by (simp add: utf8_ok_Cons utf8_char_ok_def split: list.splits)
  then have d: "dropWhile utf8_continuation s = s" and n: "s \<noteq> [] \<Longrightarrow> \<not> utf8_continuation (hd s)"
    by (metis append_Nil takeWhile_dropWhile_id) (metis list.collapse takeWhile.simps(2)
      \<open>takeWhile utf8_continuation s = []\<close> list.distinct(1))
  show "utf8_ok s" using assms d by (simp add: utf8_ok_Cons)
  show "utf8_chars (c # s) = [c] # utf8_chars s" using d \<open>takeWhile utf8_continuation s = []\<close> by simp
  show "is_char_boundary s 0" by (simp add: is_char_boundary_def)
  show "s \<noteq> [] \<Longrightarrow> \<not> utf8_continuation (hd s)" by (rule n)
qed

lemma dropWhile_suffix:
  assumes "r = [] \<or> \<not> P (hd r)"
  shows "takeWhile P (p @ r) = takeWhile P p \<and> dropWhile P (p @ r) = dropWhile P p @ r"
  using assms by (induction p) (cases r; auto)+

text \<open>Cutting a string at a character boundary leaves two strings.\<close>

lemma utf8_chars_append:
  assumes "r = [] \<or> \<not> utf8_continuation (hd r)"
  shows "utf8_chars (p @ r) = utf8_chars p @ utf8_chars r"
proof (induction p rule: utf8_chars.induct)
  case (2 c p)
  have "takeWhile utf8_continuation (p @ r) = takeWhile utf8_continuation p \<and>
    dropWhile utf8_continuation (p @ r) = dropWhile utf8_continuation p @ r"
    using dropWhile_suffix [of r utf8_continuation, OF assms] .
  with 2 show ?case by simp
qed simp

lemma boundary_hd:
  "is_char_boundary s i \<Longrightarrow> i \<noteq> 0 \<Longrightarrow> drop i s = [] \<or> \<not> utf8_continuation (hd (drop i s))"
  by (auto simp: is_char_boundary_def hd_drop_conv_nth)

lemma boundary_le: "is_char_boundary s i \<Longrightarrow> i \<le> length s"
  by (auto simp: is_char_boundary_def)

lemma utf8_ok_split:
  assumes "is_char_boundary s i" "utf8_ok s"
  shows "utf8_ok (take i s)" "utf8_ok (drop i s)"
proof -
  have "utf8_chars s = utf8_chars (take i s) @ utf8_chars (drop i s)"
    by (cases "i = 0") (use utf8_chars_append [OF boundary_hd [OF assms(1)], of "take i s"] in auto)
  with assms(2) show "utf8_ok (take i s)" "utf8_ok (drop i s)" by (simp_all add: utf8_ok_def)
qed

lemma utf8_ok_append:
  assumes "utf8_ok a" "utf8_ok b"
  shows "utf8_ok (a @ b)"
proof (cases b)
  case (Cons c s)
  then have "utf8_char_ok (c # takeWhile utf8_continuation s)" using assms(2) by (simp add: utf8_ok_Cons)
  then have "\<not> utf8_continuation c"
    by (auto simp: utf8_char_ok_def utf8_continuation_def split: list.splits)
  then have "b = [] \<or> \<not> utf8_continuation (hd b)" using Cons by simp
  from utf8_chars_append [OF this] assms show ?thesis by (simp add: utf8_ok_def)
qed (use assms in simp)

text \<open>Around an ASCII byte of a string there are character boundaries.\<close>

lemma ascii_boundary_next:
  "utf8_ok s \<Longrightarrow> i < length s \<Longrightarrow> byte_of (s ! i) < 128 \<Longrightarrow> is_char_boundary s (Suc i)"
proof (induction s arbitrary: i rule: utf8_chars.induct)
  case (2 c s)
  show ?case
  proof (cases i)
    case 0
    then show ?thesis
      using utf8_ok_ascii(4) [of c s] "2.prems"
      by (cases s) (auto simp: is_char_boundary_def)
  next
    case (Suc j)
    let ?t = "takeWhile utf8_continuation s" and ?d = "dropWhile utf8_continuation s"
    have split: "s = ?t @ ?d" by simp
    have ge: "length ?t \<le> j"
    proof (rule ccontr)
      assume "\<not> length ?t \<le> j"
      then have "s ! j \<in> set ?t" by (metis nth_mem not_le takeWhile_nth)
      then have "utf8_continuation (s ! j)" by (auto dest: set_takeWhileD)
      with "2.prems"(3) Suc show False by (simp add: utf8_continuation_def)
    qed
    define k where "k = j - length ?t"
    have j: "j = length ?t + k" using ge by (simp add: k_def)
    have nth: "s ! (length ?t + m) = ?d ! m" for m
      by (subst split, subst nth_append) simp
    have len: "length s = length ?t + length ?d" by (metis length_append split)
    have "is_char_boundary ?d (Suc k)"
    proof (rule "2.IH")
      show "utf8_ok ?d" using "2.prems"(1) by (simp add: utf8_ok_Cons)
      show "k < length ?d" using "2.prems"(2) Suc j len by simp
      show "byte_of (?d ! k) < 128" using "2.prems"(3) Suc j nth by simp
    qed
    then show ?thesis
      using Suc j len nth [of "Suc k"] by (auto simp: is_char_boundary_def)
  qed
qed simp

lemma ascii_boundary:
  "i < length s \<Longrightarrow> byte_of (s ! i) < 128 \<Longrightarrow> is_char_boundary s i"
  by (simp add: is_char_boundary_def utf8_continuation_def)

text \<open>\<open>while !value.is_char_boundary(boundary) { boundary -= 1 }\<close>; 0 is a boundary.\<close>

fun floor_boundary :: "string \<Rightarrow> nat \<Rightarrow> nat" where
  "floor_boundary s 0 = 0"
| "floor_boundary s (Suc i) = (if is_char_boundary s (Suc i) then Suc i else floor_boundary s i)"

lemma floor_boundary_le: "floor_boundary s n \<le> n"
  by (induction n) auto

lemma floor_boundary_ok: "is_char_boundary s (floor_boundary s n)"
  by (induction n) (auto simp: is_char_boundary_def)

lemma floor_boundary_largest: "is_char_boundary s k \<Longrightarrow> k \<le> n \<Longrightarrow> k \<le> floor_boundary s n"
  by (induction n) (auto simp: le_Suc_eq)

end
