(* ===== verification/Paths.thy ===== *)
theory Paths
  imports Text_Ops
begin

text \<open>
  The part of \<open>std::path\<close> the sources use, on Unix: the components of a path, its parent,
  its file name and its extension, from the bytes of the path.
\<close>

datatype component = RootDir | CurDir | ParentDir | NormalComponent string

definition segment_component :: "string \<Rightarrow> component" where
  "segment_component s = (if s = ''..'' then ParentDir else NormalComponent s)"

text \<open>
  Empty segments and \<open>.\<close> are dropped, except a \<open>.\<close> at the start of a relative path.
\<close>

definition path_components :: "string \<Rightarrow> component list" where
  "path_components path =
    (let segments = split_char (CHR ''/'') path in
     (if starts_with path ''/'' then [RootDir] else if hd segments = ''.'' then [CurDir] else []) @
     map segment_component (filter (\<lambda>s. s \<noteq> [] \<and> s \<noteq> ''.'') segments))"

definition is_absolute :: "string \<Rightarrow> bool" where
  "is_absolute path = starts_with path ''/''"

text \<open>\<open>parent\<close> up to the comparison of paths, which is by components.\<close>

definition parent_components :: "string \<Rightarrow> component list option" where
  "parent_components path =
    (let components = path_components path in
     if components = [] \<or> last components = RootDir then None else Some (butlast components))"

definition file_name :: "string \<Rightarrow> string option" where
  "file_name path =
    (case rev (path_components path) of NormalComponent name # _ \<Rightarrow> Some name | _ \<Rightarrow> None)"

text \<open>The last dot of a file name separates the extension, unless nothing is before it.\<close>

definition file_extension :: "string \<Rightarrow> string option" where
  "file_extension name =
    (case split_once (CHR ''.'') (rev name) of
      None \<Rightarrow> None
    | Some (after, before) \<Rightarrow> if before = [] then None else Some (rev after))"

definition path_extension :: "string \<Rightarrow> string option" where
  "path_extension path = Option.bind (file_name path) file_extension"

text \<open>\<open>starts_with\<close> and \<open>strip_prefix\<close>, by components; \<open>join\<close>; \<open>parent\<close> as a path.\<close>

definition path_prefix :: "string \<Rightarrow> string \<Rightarrow> bool" where
  "path_prefix path base \<longleftrightarrow>
    take (length (path_components base)) (path_components path) = path_components base"

definition component_text :: "component \<Rightarrow> string" where
  "component_text c =
    (case c of RootDir \<Rightarrow> ''/'' | CurDir \<Rightarrow> ''.'' | ParentDir \<Rightarrow> ''..'' | NormalComponent v \<Rightarrow> v)"

definition components_text :: "component list \<Rightarrow> string" where
  "components_text cs =
    (case cs of RootDir # rest \<Rightarrow> ''/'' @ join_with ''/'' (map component_text rest)
     | _ \<Rightarrow> join_with ''/'' (map component_text cs))"

definition strip_path_prefix :: "string \<Rightarrow> string \<Rightarrow> string option" where
  "strip_path_prefix path base =
    (if path_prefix path base
     then Some (components_text (drop (length (path_components base)) (path_components path))) else None)"

definition path_join :: "string \<Rightarrow> string \<Rightarrow> string" where
  "path_join base path =
    (if is_absolute path then path
     else if base = [] \<or> ends_with base ''/'' then base @ path else base @ ''/'' @ path)"

definition path_parent :: "string \<Rightarrow> string option" where
  "path_parent path = map_option components_text (parent_components path)"

lemma file_extension_Some:
  "file_extension name = Some ext \<longleftrightarrow>
    (\<exists>stem. stem \<noteq> [] \<and> name = stem @ ''.'' @ ext \<and> CHR ''.'' \<notin> set ext)"
  (is "?l \<longleftrightarrow> ?r")
proof
  assume ?l
  then obtain after before where "split_once (CHR ''.'') (rev name) = Some (after, before)"
    "before \<noteq> []" "ext = rev after"
    by (auto simp: file_extension_def split: option.splits if_splits)
  moreover from this have "rev name = after @ CHR ''.'' # before" "CHR ''.'' \<notin> set after"
    by (auto simp: split_once_Some)
  moreover from this have "name = rev before @ ''.'' @ rev after"
    by (metis append_Cons append_Nil append_assoc rev.simps(2) rev_append rev_rev_ident)
  ultimately show ?r by (intro exI [of _ "rev before"]) simp
next
  assume ?r
  then obtain stem where "stem \<noteq> []" "name = stem @ ''.'' @ ext" "CHR ''.'' \<notin> set ext" by blast
  then have "split_once (CHR ''.'') (rev name) = Some (rev ext, rev stem)"
    by (simp add: split_once_Some)
  with \<open>stem \<noteq> []\<close> show ?l by (simp add: file_extension_def)
qed

lemma split_char_nonempty [simp]: "split_char c s \<noteq> []"
  by (induction s) (auto split: list.splits)

lemma split_char_no_sep: "x \<in> set (split_char c s) \<Longrightarrow> c \<notin> set x"
  by (induction s arbitrary: x) (auto split: if_splits list.splits)

lemma join_split_char: "join_with [c] (split_char c s) = s"
proof (induction s)
  case (Cons x s)
  obtain p ps where ps: "split_char c s = p # ps" by (cases "split_char c s") auto
  with Cons show ?case by (cases ps) auto
qed simp

end
