(* ===== verification/Ordered_Map.thy ===== *)
theory Ordered_Map
  imports Prelude
begin

text \<open>
  \<open>std::collections::BTreeMap\<close> and \<open>BTreeSet\<close>: an association list kept strictly
  increasing in its keys, so that a walk over the list is the iteration order of the Rust
  map. \<open>IndexMap\<close> and \<open>serde_yaml_ng::Mapping\<close> keep insertion order and are plain
  association lists. A \<open>BTreeSet\<close> whose order the code never observes is a \<open>set\<close>.
\<close>

section \<open>The interface of a finite map\<close>

text \<open>
  What the clients rely on: a lookup after an insertion or a removal, and that the
  well-formedness of the representation is kept. The loops that build a map from a
  sequence are proved against these laws only.
\<close>

locale finite_map =
  fixes empty :: 'm
    and insert :: "'k \<Rightarrow> 'v \<Rightarrow> 'm \<Rightarrow> 'm"
    and remove :: "'k \<Rightarrow> 'm \<Rightarrow> 'm"
    and get :: "'m \<Rightarrow> 'k \<Rightarrow> 'v option"
    and wf :: "'m \<Rightarrow> bool"
  assumes get_empty: "get empty k = None"
    and get_insert: "wf m \<Longrightarrow> get (insert k v m) k' = (if k' = k then Some v else get m k')"
    and get_remove: "wf m \<Longrightarrow> get (remove k m) k' = (if k' = k then None else get m k')"
    and wf_empty: "wf empty"
    and wf_insert: "wf m \<Longrightarrow> wf (insert k v m)"
    and wf_remove: "wf m \<Longrightarrow> wf (remove k m)"
begin

lemmas map_laws = get_empty get_insert get_remove wf_empty wf_insert wf_remove

text \<open>\<open>extend\<close>: later entries win.\<close>

lemma wf_extend: "wf m \<Longrightarrow> wf (fold (\<lambda>(k, v) m. insert k v m) xs m)"
  by (induction xs arbitrary: m) (auto simp: wf_insert)

lemma get_extend:
  "wf m \<Longrightarrow> get (fold (\<lambda>(k, v) m. insert k v m) xs m) k =
    (case map_of (rev xs) k of None \<Rightarrow> get m k | Some v \<Rightarrow> Some v)"
proof (induction xs arbitrary: m)
  case (Cons x xs)
  obtain a b where x: "x = (a, b)" by (cases x)
  have "wf (insert a b m)" using Cons.prems by (rule wf_insert)
  from Cons.IH [OF this] show ?case
    by (auto simp: x map_add_def get_insert [OF Cons.prems] split: option.splits)
qed simp

text \<open>\<open>entry(k).or_insert_with\<close>: the first entry wins.\<close>

definition or_insert :: "'k \<Rightarrow> 'v \<Rightarrow> 'm \<Rightarrow> 'm" where
  "or_insert k v m = (case get m k of None \<Rightarrow> insert k v m | Some _ \<Rightarrow> m)"

lemma wf_or_inserts: "wf m \<Longrightarrow> wf (fold (\<lambda>(k, v) m. or_insert k v m) xs m)"
  by (induction xs arbitrary: m) (auto simp: wf_insert or_insert_def split: option.splits)

lemma get_or_inserts:
  "wf m \<Longrightarrow> get (fold (\<lambda>(k, v) m. or_insert k v m) xs m) k =
    (case get m k of None \<Rightarrow> map_of xs k | Some v \<Rightarrow> Some v)"
proof (induction xs arbitrary: m)
  case (Cons x xs)
  obtain a b where x: "x = (a, b)" by (cases x)
  have "wf (or_insert a b m)"
    using Cons.prems by (auto simp: or_insert_def wf_insert split: option.splits)
  from Cons.IH [OF this] show ?case
    by (auto simp: x or_insert_def get_insert [OF Cons.prems] split: option.splits)
qed (simp split: option.splits)

end

section \<open>Sorted association lists\<close>

fun bt_insert :: "'k::linorder \<Rightarrow> 'v \<Rightarrow> ('k \<times> 'v) list \<Rightarrow> ('k \<times> 'v) list" where
  "bt_insert k v [] = [(k, v)]"
| "bt_insert k v ((k', v') # m) =
    (if k < k' then (k, v) # (k', v') # m
     else if k = k' then (k, v) # m
     else (k', v') # bt_insert k v m)"

definition bt_remove :: "'k::linorder \<Rightarrow> ('k \<times> 'v) list \<Rightarrow> ('k \<times> 'v) list" where
  "bt_remove k m = filter (\<lambda>e. fst e \<noteq> k) m"

definition bt_wf :: "('k::linorder \<times> 'v) list \<Rightarrow> bool" where
  "bt_wf m = sorted_wrt (<) (map fst m)"

abbreviation bt_get :: "('k \<times> 'v) list \<Rightarrow> 'k \<Rightarrow> 'v option" where
  "bt_get \<equiv> map_of"

abbreviation bt_keys :: "('k \<times> 'v) list \<Rightarrow> 'k list" where
  "bt_keys m \<equiv> map fst m"

abbreviation bt_values :: "('k \<times> 'v) list \<Rightarrow> 'v list" where
  "bt_values m \<equiv> map snd m"

definition bt_contains_key :: "('k \<times> 'v) list \<Rightarrow> 'k \<Rightarrow> bool" where
  "bt_contains_key m k = list_ex (\<lambda>e. fst e = k) m"

definition bt_extend :: "('k::linorder \<times> 'v) list \<Rightarrow> ('k \<times> 'v) list \<Rightarrow> ('k \<times> 'v) list" where
  "bt_extend m xs = fold (\<lambda>(k, v) m. bt_insert k v m) xs m"

definition bt_collect :: "('k::linorder \<times> 'v) list \<Rightarrow> ('k \<times> 'v) list" where
  "bt_collect xs = bt_extend [] xs"

definition bt_or_insert :: "'k::linorder \<Rightarrow> 'v \<Rightarrow> ('k \<times> 'v) list \<Rightarrow> ('k \<times> 'v) list" where
  "bt_or_insert k v m = (case bt_get m k of None \<Rightarrow> bt_insert k v m | Some _ \<Rightarrow> m)"

definition bt_or_inserts :: "('k::linorder \<times> 'v) list \<Rightarrow> ('k \<times> 'v) list \<Rightarrow> ('k \<times> 'v) list" where
  "bt_or_inserts m xs = fold (\<lambda>(k, v) m. bt_or_insert k v m) xs m"

lemma bt_get_insert: "bt_get (bt_insert k v m) k' = (if k' = k then Some v else bt_get m k')"
  if "bt_wf m"
  using that by (induction m) (auto simp: bt_wf_def dest: weak_map_of_SomeI split: if_splits)

lemma keys_insert [simp]: "fst ` set (bt_insert k v m) = insert k (fst ` set m)"
proof (induction m)
  case (Cons e m)
  then show ?case by (cases e) (simp add: insert_commute)
qed simp

lemma bt_wf_insert: "bt_wf m \<Longrightarrow> bt_wf (bt_insert k v m)"
proof (induction m)
  case (Cons e m)
  have keys: "\<forall>x\<in>set (bt_insert k v m). P (fst x)" if "P k" "\<forall>x\<in>set m. P (fst x)" for P
    using that keys_insert [of k v m] by (metis imageE imageI insert_iff)
  show ?case using Cons by (cases e) (auto simp: bt_wf_def intro: keys less_trans)
qed (simp add: bt_wf_def)

lemma bt_get_remove: "bt_get (bt_remove k m) k' = (if k' = k then None else bt_get m k')"
  by (induction m) (auto simp: bt_remove_def)

lemma bt_wf_remove: "bt_wf m \<Longrightarrow> bt_wf (bt_remove k m)"
  unfolding bt_wf_def bt_remove_def by (induction m) auto

interpretation bt: finite_map "[]" bt_insert bt_remove map_of bt_wf
  by unfold_locales
    (auto simp: bt_get_insert bt_get_remove bt_wf_insert bt_wf_remove bt_wf_def [of "[]"])

lemma bt_contains_key_iff [simp]: "bt_contains_key m k \<longleftrightarrow> k \<in> fst ` set m"
  by (auto simp: bt_contains_key_def list_ex_iff)

lemma bt_wf_distinct: "bt_wf m \<Longrightarrow> distinct (bt_keys m)"
  unfolding bt_wf_def using strict_sorted_iff by blast

lemma bt_wf_Nil [simp]: "bt_wf []"
  by (simp add: bt_wf_def)

lemma bt_wf_extend: "bt_wf m \<Longrightarrow> bt_wf (bt_extend m xs)"
  unfolding bt_extend_def by (rule bt.wf_extend)

lemma bt_get_extend:
  "bt_wf m \<Longrightarrow> bt_get (bt_extend m xs) k =
    (case map_of (rev xs) k of None \<Rightarrow> bt_get m k | Some v \<Rightarrow> Some v)"
  unfolding bt_extend_def by (rule bt.get_extend)

lemma bt_keys_extend: "fst ` set (bt_extend m xs) = fst ` set m \<union> fst ` set xs"
  unfolding bt_extend_def by (induction xs arbitrary: m) (simp_all add: case_prod_unfold)

lemma bt_wf_collect [simp]: "bt_wf (bt_collect xs)"
  by (simp add: bt_collect_def bt_wf_extend)

lemma bt_get_collect: "bt_get (bt_collect xs) k = map_of (rev xs) k"
  by (simp add: bt_collect_def bt_get_extend split: option.splits)

lemma bt_keys_collect [simp]: "fst ` set (bt_collect xs) = fst ` set xs"
  by (simp add: bt_collect_def bt_keys_extend)

lemma map_of_rev_distinct: "distinct (map fst xs) \<Longrightarrow> map_of (rev xs) k = map_of xs k"
proof (induction xs)
  case (Cons x xs)
  then show ?case
    by (cases x) (auto simp: map_add_def split: option.splits dest: map_of_SomeD intro: rev_image_eqI)
qed simp

lemma bt_get_collect_distinct:
  "distinct (map fst xs) \<Longrightarrow> bt_get (bt_collect xs) k = map_of xs k"
  by (simp add: bt_get_collect map_of_rev_distinct)

lemma bt_or_insert_locale: "bt_or_insert = bt.or_insert"
  by (intro ext) (simp add: bt_or_insert_def bt.or_insert_def)

lemma bt_wf_or_inserts: "bt_wf m \<Longrightarrow> bt_wf (bt_or_inserts m xs)"
  unfolding bt_or_inserts_def bt_or_insert_locale by (rule bt.wf_or_inserts)

lemma bt_get_or_inserts:
  "bt_wf m \<Longrightarrow> bt_get (bt_or_inserts m xs) k =
    (case bt_get m k of None \<Rightarrow> map_of xs k | Some v \<Rightarrow> Some v)"
  unfolding bt_or_inserts_def bt_or_insert_locale by (rule bt.get_or_inserts)

lemma bt_keys_or_inserts:
  "fst ` set (bt_or_inserts m xs) = fst ` set m \<union> fst ` set xs"
proof (unfold bt_or_inserts_def, induction xs arbitrary: m)
  case (Cons x xs)
  obtain a b where x: "x = (a, b)" by (cases x)
  have "fst ` set (bt_or_insert a b m) = insert a (fst ` set m)"
    by (auto simp: bt_or_insert_def split: option.splits intro: rev_image_eqI dest: map_of_SomeD)
  with Cons show ?case by (simp add: x)
qed simp

text \<open>Two maps with the same lookups and strictly sorted keys are the same list.\<close>

lemma bt_ext:
  assumes "bt_wf m" "bt_wf n" "\<And>k. bt_get m k = bt_get n k"
  shows "m = n"
proof -
  have maps: "bt_get m = bt_get n" using assms(3) by (rule ext)
  then have "set (map fst m) = set (map fst n)" by (metis dom_map_of_conv_image_fst list.set_map)
  then have keys: "map fst m = map fst n"
    using assms(1,2) unfolding bt_wf_def by (metis strict_sorted_equal)
  have rebuild: "map (\<lambda>k. (k, the (bt_get l k))) (map fst l) = l" if "distinct (map fst l)"
    for l :: "('a \<times> 'b) list"
    using that by (auto simp: o_def intro!: map_idI)
  have "m = map (\<lambda>k. (k, the (bt_get m k))) (map fst m)"
    using bt_wf_distinct [OF assms(1)] by (simp only: rebuild)
  also have "\<dots> = map (\<lambda>k. (k, the (bt_get n k))) (map fst n)" by (simp only: maps keys)
  also have "\<dots> = n"
    using bt_wf_distinct [OF assms(2)] by (rule rebuild)
  finally show ?thesis .
qed

section \<open>Ordered sets\<close>

fun bs_insert :: "'k::linorder \<Rightarrow> 'k list \<Rightarrow> 'k list" where
  "bs_insert k [] = [k]"
| "bs_insert k (k' # s) =
    (if k < k' then k # k' # s else if k = k' then k' # s else k' # bs_insert k s)"

definition bs_collect :: "'k::linorder list \<Rightarrow> 'k list" where
  "bs_collect xs = fold bs_insert xs []"

definition bs_wf :: "'k::linorder list \<Rightarrow> bool" where
  "bs_wf s = sorted_wrt (<) s"

lemma set_bs_insert [simp]: "set (bs_insert k s) = insert k (set s)"
  by (induction s) auto

lemma bs_wf_insert: "bs_wf s \<Longrightarrow> bs_wf (bs_insert k s)"
  by (induction s) (auto simp: bs_wf_def)

lemma bs_wf_distinct: "bs_wf s \<Longrightarrow> distinct s"
  unfolding bs_wf_def using strict_sorted_iff by blast

lemma bs_collect_fold:
  "set (fold bs_insert xs s) = set xs \<union> set s" "bs_wf s \<Longrightarrow> bs_wf (fold bs_insert xs s)"
  by (induction xs arbitrary: s) (auto simp: bs_wf_insert)

lemma set_bs_collect [simp]: "set (bs_collect xs) = set xs"
  by (simp add: bs_collect_def bs_collect_fold)

lemma bs_wf_collect: "bs_wf (bs_collect xs)"
  unfolding bs_collect_def by (rule bs_collect_fold) (simp add: bs_wf_def)

lemma length_bs_insert: "length (bs_insert k s) \<le> Suc (length s)"
  by (induction s) auto

end
