(* ===== verification/Agent_Base.thy ===== *)
theory Agent_Base
  imports Paths Ordered_Map "HOL-Library.Code_Target_Nat"
begin

text \<open>
  What the agent's components share: the errors of \<open>anyhow\<close>, methods on \<open>&mut self\<close> that can
  fail and keep the changes made before they fail, and the operations of \<open>str\<close> the agent uses.
\<close>

section \<open>Fallible methods on a state\<close>

datatype agent_failure = Bail string | AgentPanic

type_synonym ('s, 'a) act = "'s \<Rightarrow> (agent_failure + 'a) \<times> 's"

definition retA :: "'a \<Rightarrow> ('s, 'a) act" where
  "retA x s = (Inr x, s)"

definition bailA :: "string \<Rightarrow> ('s, 'a) act" where
  "bailA message s = (Inl (Bail message), s)"

definition liftA :: "agent_failure + 'a \<Rightarrow> ('s, 'a) act" where
  "liftA r s = (r, s)"

definition bindA :: "('s, 'a) act \<Rightarrow> ('a \<Rightarrow> ('s, 'b) act) \<Rightarrow> ('s, 'b) act" where
  "bindA m f s = (case m s of (Inl e, s') \<Rightarrow> (Inl e, s') | (Inr x, s') \<Rightarrow> f x s')"

definition readA :: "('s \<Rightarrow> 'a) \<Rightarrow> ('s, 'a) act" where
  "readA f s = (Inr (f s), s)"

definition updateA :: "('s \<Rightarrow> 's) \<Rightarrow> ('s, unit) act" where
  "updateA f s = (Inr (), f s)"

text \<open>A method of a field: \<open>get\<close> reads the field, \<open>put\<close> stores it back.\<close>

definition fieldA :: "('s \<Rightarrow> 't) \<Rightarrow> ('t \<Rightarrow> 's \<Rightarrow> 's) \<Rightarrow> ('t, 'a) act \<Rightarrow> ('s, 'a) act" where
  "fieldA get put m s = (case m (get s) of (r, t) \<Rightarrow> (r, put t s))"

fun foldA :: "('b \<Rightarrow> 'a \<Rightarrow> ('s, 'b) act) \<Rightarrow> 'b \<Rightarrow> 'a list \<Rightarrow> ('s, 'b) act" where
  "foldA f b [] = retA b"
| "foldA f b (x # xs) = bindA (f b x) (\<lambda>b. foldA f b xs)"

lemma bindA_simps [simp]:
  "bindA (retA x) f = f x" "bindA (bailA e) f = bailA e"
  by (auto simp: fun_eq_iff bindA_def retA_def bailA_def)

text \<open>
  \<open>keeps I m\<close>: the method keeps the invariant, also when it fails, and does not panic.
  \<open>gives I m Q\<close> adds that what it returns satisfies \<open>Q\<close>.
\<close>

definition gives :: "('s \<Rightarrow> bool) \<Rightarrow> ('s, 'a) act \<Rightarrow> ('a \<Rightarrow> bool) \<Rightarrow> bool" where
  "gives I m Q \<longleftrightarrow> (\<forall>s. I s \<longrightarrow> I (snd (m s)) \<and> fst (m s) \<noteq> Inl AgentPanic \<and> (\<forall>x. fst (m s) = Inr x \<longrightarrow> Q x))"

abbreviation keeps :: "('s \<Rightarrow> bool) \<Rightarrow> ('s, 'a) act \<Rightarrow> bool" where
  "keeps I m \<equiv> gives I m (\<lambda>_. True)"

lemma givesD:
  assumes "gives I m Q" "I s"
  shows "I (snd (m s))" "fst (m s) \<noteq> Inl AgentPanic" "\<And>x. fst (m s) = Inr x \<Longrightarrow> Q x"
  using assms by (auto simp: gives_def)

lemma gives_run: "gives I m Q \<Longrightarrow> I s \<Longrightarrow> m s = (r, s') \<Longrightarrow> I s' \<and> r \<noteq> Inl AgentPanic \<and> (\<forall>x. r = Inr x \<longrightarrow> Q x)"
  using givesD [of I m Q s] by auto

lemma gives_weaken: "gives I m Q \<Longrightarrow> (\<And>x. Q x \<Longrightarrow> R x) \<Longrightarrow> gives I m R"
  by (auto simp: gives_def)

lemma keeps_gives: "gives I m Q \<Longrightarrow> keeps I m"
  by (rule gives_weaken) auto

lemma gives_ret: "Q x \<Longrightarrow> gives I (retA x) Q"
  by (simp add: gives_def retA_def)

lemma gives_bail: "gives I (bailA e) Q"
  by (simp add: gives_def bailA_def)

lemma gives_lift: "r \<noteq> Inl AgentPanic \<Longrightarrow> (\<And>x. r = Inr x \<Longrightarrow> Q x) \<Longrightarrow> gives I (liftA r) Q"
  by (simp add: gives_def liftA_def)

lemma gives_read: "(\<And>s. I s \<Longrightarrow> Q (f s)) \<Longrightarrow> gives I (readA f) Q"
  by (simp add: gives_def readA_def)

lemma gives_update: "(\<And>s. I s \<Longrightarrow> I (f s)) \<Longrightarrow> Q () \<Longrightarrow> gives I (updateA f) Q"
  by (simp add: gives_def updateA_def)

lemma gives_bind:
  assumes "gives I m Q" "\<And>x. Q x \<Longrightarrow> gives I (f x) R"
  shows "gives I (bindA m f) R"
  unfolding gives_def
proof (intro allI impI)
  fix s assume I: "I s"
  obtain r s' where m: "m s = (r, s')" by (cases "m s")
  with gives_run [OF assms(1) I] have r: "I s'" "r \<noteq> Inl AgentPanic" "\<And>x. r = Inr x \<Longrightarrow> Q x" by auto
  show "I (snd (bindA m f s)) \<and> fst (bindA m f s) \<noteq> Inl AgentPanic \<and> (\<forall>x. fst (bindA m f s) = Inr x \<longrightarrow> R x)"
  proof (cases r)
    case (Inl e)
    then show ?thesis using r m by (simp add: bindA_def)
  next
    case (Inr x)
    then show ?thesis using givesD [OF assms(2) [OF r(3) [OF Inr]] r(1)] m by (simp add: bindA_def)
  qed
qed

lemma gives_fold: "Q b \<Longrightarrow> (\<And>b x. Q b \<Longrightarrow> x \<in> set xs \<Longrightarrow> gives I (f b x) Q) \<Longrightarrow> gives I (foldA f b xs) Q"
proof (induction xs arbitrary: b)
  case Nil
  then show ?case by (simp add: gives_ret)
next
  case (Cons x xs)
  have "gives I (f b x) Q" using Cons.prems by auto
  then show ?case using Cons by (auto intro: gives_bind)
qed

lemma gives_field:
  assumes "gives J m Q" "\<And>s. I s \<Longrightarrow> J (get s)" "\<And>s t. I s \<Longrightarrow> J t \<Longrightarrow> I (put t s)"
  shows "gives I (fieldA get put m) Q"
  unfolding gives_def
proof (intro allI impI)
  fix s assume I: "I s"
  obtain r t where m: "m (get s) = (r, t)" by (cases "m (get s)")
  from gives_run [OF assms(1) assms(2) [OF I] m] assms(3) [OF I]
  show "I (snd (fieldA get put m s)) \<and> fst (fieldA get put m s) \<noteq> Inl AgentPanic \<and>
      (\<forall>x. fst (fieldA get put m s) = Inr x \<longrightarrow> Q x)"
    by (simp add: fieldA_def m)
qed

lemmas gives_rules = gives_ret gives_bail gives_lift gives_read gives_update

text \<open>A method that leaves a part of the state alone.\<close>

definition frames :: "('s \<Rightarrow> 'v) \<Rightarrow> ('s, 'a) act \<Rightarrow> bool" where
  "frames part m \<longleftrightarrow> (\<forall>s. part (snd (m s)) = part s)"

lemma frames_rules:
  "frames part (retA x)" "frames part (bailA e)" "frames part (liftA r)" "frames part (readA g)"
  by (simp_all add: frames_def retA_def bailA_def liftA_def readA_def)

lemma frames_update: "(\<And>s. part (f s) = part s) \<Longrightarrow> frames part (updateA f)"
  by (simp add: frames_def updateA_def)

lemma frames_field: "(\<And>s t. part (put t s) = part s) \<Longrightarrow> frames part (fieldA get put m)"
  by (simp add: frames_def fieldA_def split: prod.split)

lemma frames_bind: "frames part m \<Longrightarrow> (\<And>x. frames part (f x)) \<Longrightarrow> frames part (bindA m f)"
  unfolding frames_def bindA_def by (auto split: prod.splits sum.splits) (metis snd_conv)+

lemma frames_fold: "(\<And>b x. frames part (f b x)) \<Longrightarrow> frames part (foldA f b xs)"
  by (induction xs arbitrary: b) (auto intro: frames_rules frames_bind)

text \<open>
  An object whose methods can be called in any order: the results of the calls that return
  something, and the last state. A caller goes on after an error.
\<close>

fun run_acts :: "('op \<Rightarrow> ('s, 'a option) act) \<Rightarrow> 'op list \<Rightarrow> 's \<Rightarrow> 'a list \<times> 's" where
  "run_acts step [] s = ([], s)"
| "run_acts step (op # ops) s =
    (case step op s of (r, s') \<Rightarrow>
     case run_acts step ops s' of (results, s'') \<Rightarrow>
     ((case r of Inr (Some a) \<Rightarrow> a # results | _ \<Rightarrow> results), s''))"

text \<open>The contract of such an object: an invariant, and what holds of each result.\<close>

locale guarded_object =
  fixes step :: "'op \<Rightarrow> ('s, 'a option) act"
    and ok :: "'s \<Rightarrow> bool"
    and result_ok :: "'a \<Rightarrow> bool"
  assumes step_gives: "gives ok (step op) (\<lambda>r. \<forall>a. r = Some a \<longrightarrow> result_ok a)"
begin

lemma run_ok: "ok s \<Longrightarrow> run_acts step ops s = (results, s') \<Longrightarrow> ok s' \<and> (\<forall>a\<in>set results. result_ok a)"
proof (induction ops arbitrary: s results s')
  case (Cons op ops)
  obtain r t where step: "step op s = (r, t)" by (cases "step op s")
  obtain rs u where run: "run_acts step ops t = (rs, u)" by (cases "run_acts step ops t")
  from gives_run [OF step_gives Cons.prems(1) step] have r: "ok t" "\<And>a. r = Inr (Some a) \<Longrightarrow> result_ok a" by auto
  from Cons.IH [OF r(1) run] have rest: "ok u" "\<forall>a\<in>set rs. result_ok a" by simp_all
  have u: "u = s'" "results = (case r of Inr (Some a) \<Rightarrow> a # rs | _ \<Rightarrow> rs)"
    using Cons.prems(2) by (simp_all add: step run)
  show ?case
  proof (cases r)
    case (Inr x)
    then show ?thesis using u rest r(2) by (cases x) auto
  qed (use u rest in simp)
qed simp

lemma step_no_panic: "ok s \<Longrightarrow> fst (step op s) \<noteq> Inl AgentPanic"
  by (rule givesD(2) [OF step_gives])

end

section \<open>Strings\<close>

abbreviation newline :: char where
  "newline \<equiv> CHR 0x0A"

abbreviation carriage_return :: char where
  "carriage_return \<equiv> CHR 0x0D"

lemma find_str_split:
  assumes "find_str s p = Some i"
  shows "length s = i + length p + length (drop (i + length p) s)" "s = take i s @ p @ drop (i + length p) s"
proof -
  from find_str_Some [OF assms] obtain r where r: "i \<le> length s" "drop i s = p @ r" by (auto simp: text_simps)
  then have "drop (i + length p) s = r" by (metis add.commute append_eq_conv_conj drop_drop)
  with r show s: "s = take i s @ p @ drop (i + length p) s" by (metis append_take_drop_id)
  show "length s = i + length p + length (drop (i + length p) s)"
    using arg_cong [OF s, of length] r(1) by simp
qed

lemma find_str_shorter: "find_str s p = Some i \<Longrightarrow> p \<noteq> [] \<Longrightarrow> length s - (i + length p) < length s"
  using find_str_split(1) [of s p i] length_greater_0_conv [of p] by linarith

text \<open>\<open>str::split\<close> by a non-empty string: occurrences are taken from the left.\<close>

function split_str :: "string \<Rightarrow> string \<Rightarrow> string list" where
  "split_str p s =
    (if p = [] then [s]
     else case find_str s p of
       None \<Rightarrow> [s]
     | Some i \<Rightarrow> take i s # split_str p (drop (i + length p) s))"
  by pat_completeness auto
termination
  by (relation "measure (length \<circ> snd)") (auto dest: find_str_shorter)

declare split_str.simps [simp del]

text \<open>\<open>str::replace\<close>; the empty pattern matches around every character.\<close>

definition replace_str :: "string \<Rightarrow> string \<Rightarrow> string \<Rightarrow> string" where
  "replace_str p r s =
    join_with r (if p = [] then [] # utf8_chars s @ [[]] else split_str p s)"

definition split_once_str :: "string \<Rightarrow> string \<Rightarrow> (string \<times> string) option" where
  "split_once_str p s = map_option (\<lambda>i. (take i s, drop (i + length p) s)) (find_str s p)"

fun split_inclusive :: "string \<Rightarrow> string list" where
  "split_inclusive [] = []"
| "split_inclusive (c # s) =
    (if c = newline then [c] # split_inclusive s
     else (case split_inclusive s of [] \<Rightarrow> [[c]] | p # ps \<Rightarrow> (c # p) # ps))"

definition trim_line_end :: "string \<Rightarrow> string" where
  "trim_line_end s = rev (dropWhile (\<lambda>c. c = carriage_return \<or> c = newline) (rev s))"

fun split_by :: "('a \<Rightarrow> bool) \<Rightarrow> 'a list \<Rightarrow> 'a list list" where
  "split_by P [] = [[]]"
| "split_by P (x # xs) =
    (if P x then [] # split_by P xs
     else (case split_by P xs of [] \<Rightarrow> [[x]] | p # ps \<Rightarrow> (x # p) # ps))"

definition split_whitespace :: "string \<Rightarrow> string list" where
  "split_whitespace s = filter (\<lambda>w. w \<noteq> []) (map concat (split_by is_whitespace (utf8_chars s)))"

definition parse_u32 :: "string \<Rightarrow> 32 word option" where
  "parse_u32 s = (case parse_usize s of None \<Rightarrow> None | Some n \<Rightarrow> if n < 2 ^ 32 then Some (of_nat n) else None)"

definition contains_any :: "string \<Rightarrow> char list \<Rightarrow> bool" where
  "contains_any s cs = list_ex (\<lambda>c. c \<in> set cs) s"

text \<open>\<open>String::truncate\<close> at the last character boundary within a number of bytes.\<close>

definition truncate_utf8 :: "nat \<Rightarrow> string \<Rightarrow> string" where
  "truncate_utf8 maximum s = (if length s \<le> maximum then s else take (floor_boundary s maximum) s)"

definition char_len_utf16 :: "string \<Rightarrow> nat" where
  "char_len_utf16 ch = (if length ch = 4 then 2 else 1)"

definition utf16_units :: "string \<Rightarrow> nat" where
  "utf16_units s = sum_list (map char_len_utf16 (utf8_chars s))"

text \<open>The loop over \<open>char_indices\<close> that stops before the first character past the limit.\<close>

fun utf16_prefix :: "nat \<Rightarrow> nat \<Rightarrow> string list \<Rightarrow> string list" where
  "utf16_prefix maximum units [] = []"
| "utf16_prefix maximum units (ch # chs) =
    (if units + char_len_utf16 ch > maximum then []
     else ch # utf16_prefix maximum (units + char_len_utf16 ch) chs)"

definition truncate_utf16 :: "nat \<Rightarrow> string \<Rightarrow> string" where
  "truncate_utf16 maximum s =
    (if utf16_units s \<le> maximum then s else concat (utf16_prefix maximum 0 (utf8_chars s)))"

section \<open>Laws of the string operations\<close>

lemma join_split_str: "join_with p (split_str p s) = s"
proof (induction p s rule: split_str.induct)
  case (1 p s)
  show ?case
  proof (cases "p = [] \<or> find_str s p = None")
    case True
    then show ?thesis by (subst split_str.simps) auto
  next
    case False
    then obtain i where i: "find_str s p = Some i" "p \<noteq> []" by auto
    have "split_str p s = take i s # split_str p (drop (i + length p) s)"
      using i by (subst split_str.simps) simp
    moreover have "split_str p (drop (i + length p) s) \<noteq> []"
      by (subst split_str.simps) (simp split: option.splits)
    ultimately have "join_with p (split_str p s) = take i s @ p @ join_with p (split_str p (drop (i + length p) s))"
      by (cases "split_str p (drop (i + length p) s)") auto
    also have "\<dots> = s" using 1 i find_str_split(2) [OF i(1)] by simp
    finally show ?thesis .
  qed
qed

lemma split_str_free: "p \<noteq> [] \<Longrightarrow> x \<in> set (split_str p s) \<Longrightarrow> \<not> contains_str x p"
proof (induction p s rule: split_str.induct)
  case (1 p s)
  show ?case
  proof (cases "find_str s p")
    case None
    then show ?thesis using 1 by (subst (asm) split_str.simps) (simp add: contains_str_def)
  next
    case (Some i)
    have "\<not> contains_str (take i s) p"
    proof
      assume "contains_str (take i s) p"
      then obtain a b where ab: "take i s = a @ p @ b" by (auto simp: contains_str_iff)
      have "i \<le> length s" using find_str_Some [OF Some] by simp
      with arg_cong [OF ab, of length] have "length a < i" using 1 by simp
      moreover have "starts_with (drop (length a) s) p"
        using ab by (metis append.assoc append_eq_conv_conj append_take_drop_id starts_with_iff)
      ultimately show False using find_str_least [OF Some] by blast
    qed
    with 1 Some show ?thesis by (subst (asm) (2) split_str.simps) auto
  qed
qed

text \<open>A string without a character of the separator occurs inside one of the joined parts.\<close>

lemma disjoint_occurrence:
  assumes "x @ r @ y = a @ q @ b" "set q \<inter> set r = {}" "r \<noteq> []" "q \<noteq> []"
  shows "contains_str x q \<or> contains_str y q"
proof -
  consider "length a + length q \<le> length x" | "length x + length r \<le> length a"
    | "length x < length a + length q" "length a < length x + length r" by linarith
  then show ?thesis
  proof cases
    case 1
    then have "take (length a + length q) x = a @ q" using arg_cong [OF assms(1), of "take (length a + length q)"] by simp
    then have "x = a @ q @ drop (length a + length q) x" by (metis append.assoc append_take_drop_id)
    then show ?thesis by (metis contains_str_iff)
  next
    case 2
    then have "y = drop (length x + length r) a @ q @ b"
      using arg_cong [OF assms(1), of "drop (length x + length r)"] by simp
    then show ?thesis by (metis contains_str_iff)
  next
    case 3
    define i where "i = max (length a) (length x)"
    have "length q > 0" "length r > 0" using assms(3,4) by auto
    with 3 have i: "length a \<le> i" "length x \<le> i" "i - length a < length q" "i - length x < length r"
      by (auto simp: i_def max_def)
    then have q: "(a @ q @ b) ! i = q ! (i - length a)" "i - length a < length q"
      and r: "(x @ r @ y) ! i = r ! (i - length x)" "i - length x < length r"
      by (auto simp: nth_append)
    from q r assms(1) have "q ! (i - length a) \<in> set q \<inter> set r" by (metis IntI nth_mem)
    with assms(2) show ?thesis by simp
  qed
qed

lemma join_occurrence:
  assumes "contains_str (join_with r xs) q" "set q \<inter> set r = {}" "r \<noteq> []" "q \<noteq> []"
  shows "\<exists>x\<in>set xs. contains_str x q"
  using assms(1-3)
proof (induction r xs rule: join_with.induct)
  case (3 r x y ys)
  then obtain a b where "x @ r @ join_with r (y # ys) = a @ q @ b" by (auto simp: contains_str_iff)
  from disjoint_occurrence [OF this 3(3,4) assms(4)] 3(1) [OF _ 3(3,4)] show ?case by auto
qed (use assms(4) in \<open>auto simp: contains_str_iff\<close>)

lemma contains_str_trans: "contains_str s x \<Longrightarrow> contains_str x q \<Longrightarrow> contains_str s q"
  unfolding contains_str_iff by (metis append.assoc)

lemma join_parts: "x \<in> set xs \<Longrightarrow> contains_str (join_with r xs) x"
proof (induction r xs rule: join_with.induct)
  case (3 r x' y ys)
  show ?case
  proof (cases "x = x'")
    case True
    then show ?thesis by (auto simp: contains_str_iff intro: exI [of _ "[]"])
  next
    case False
    with 3 have "contains_str (join_with r (y # ys)) x" by simp
    then show ?thesis by (auto simp: contains_str_iff) (metis append.assoc)
  qed
qed (auto simp: contains_str_iff intro: exI [of _ "[]"])

lemma utf8_chars_parts: "x \<in> set (utf8_chars s) \<Longrightarrow> contains_str s x"
  by (metis concat.simps(2) concat_append concat_utf8_chars contains_str_iff split_list)

lemma replace_str_occurrence:
  assumes "contains_str (replace_str p r s) q" "set q \<inter> set r = {}" "r \<noteq> []" "q \<noteq> []"
  shows "contains_str s q" "q \<noteq> p"
proof -
  let ?parts = "if p = [] then [] # utf8_chars s @ [[]] else split_str p s"
  from assms obtain x where x: "x \<in> set ?parts" "contains_str x q"
    unfolding replace_str_def by (blast dest: join_occurrence)
  have "contains_str s x"
  proof (cases "p = []")
    case True
    then show ?thesis using x(1) utf8_chars_parts [of x s] by (auto simp: contains_str_iff intro: exI [of _ "[]"])
  next
    case False
    then show ?thesis using x(1) join_parts [of x "split_str p s" p] by (simp add: join_split_str)
  qed
  with x(2) show "contains_str s q" by (blast intro: contains_str_trans)
  show "q \<noteq> p" using x assms(4) split_str_free [of p x s] by (auto split: if_splits)
qed

lemma concat_split_inclusive [simp]: "concat (split_inclusive s) = s"
  by (induction s rule: split_inclusive.induct) (auto split: list.splits)

lemma truncate_utf8_props:
  "length (truncate_utf8 n s) \<le> n" "utf8_ok s \<Longrightarrow> utf8_ok (truncate_utf8 n s)"
  "contains_str (truncate_utf8 n s) q \<Longrightarrow> contains_str s q"
  "n \<noteq> 0 \<Longrightarrow> s \<noteq> [] \<Longrightarrow> truncate_utf8 n s = [] \<Longrightarrow> floor_boundary s n = 0"
proof -
  show "length (truncate_utf8 n s) \<le> n"
    using floor_boundary_le [of s n] by (simp add: truncate_utf8_def)
  show "utf8_ok s \<Longrightarrow> utf8_ok (truncate_utf8 n s)"
    using utf8_ok_split(1) [OF floor_boundary_ok] by (simp add: truncate_utf8_def)
  show "contains_str (truncate_utf8 n s) q \<Longrightarrow> contains_str s q"
    by (auto simp: truncate_utf8_def contains_str_iff split: if_splits) (metis append.assoc append_take_drop_id)
  show "n \<noteq> 0 \<Longrightarrow> s \<noteq> [] \<Longrightarrow> truncate_utf8 n s = [] \<Longrightarrow> floor_boundary s n = 0"
    by (simp add: truncate_utf8_def split: if_splits)
qed

lemma utf16_prefix_units:
  "units \<le> maximum \<Longrightarrow> units + sum_list (map char_len_utf16 (utf16_prefix maximum units chs)) \<le> maximum"
  by (induction chs arbitrary: units) (auto simp: add.assoc [symmetric])

lemma utf16_prefix_take: "\<exists>k. utf16_prefix maximum units chs = take k chs"
proof (induction chs arbitrary: units)
  case (Cons ch chs)
  from Cons [of "units + char_len_utf16 ch"] obtain k where
    "utf16_prefix maximum (units + char_len_utf16 ch) chs = take k chs" ..
  then show ?case by (cases "units + char_len_utf16 ch > maximum") (auto intro: exI [of _ 0] exI [of _ "Suc k"])
qed simp

lemma parse_u32_bound: "parse_u32 s = Some w \<Longrightarrow> \<exists>n. parse_usize s = Some n \<and> unat w = n \<and> n < 2 ^ 32"
  by (auto simp: parse_u32_def unat_of_nat take_bit_nat_eq_self split: option.splits if_splits)

text \<open>\<open>replace\<close> by recursion on the text.\<close>

lemma split_str_nonempty [simp]: "split_str p s \<noteq> []"
  by (subst split_str.simps) (simp split: option.split)

lemma join_with_Cons: "xs \<noteq> [] \<Longrightarrow> join_with r (x # xs) = x @ r @ join_with r xs"
  by (cases xs) auto

lemma replace_str_Nil: "p \<noteq> [] \<Longrightarrow> replace_str p r [] = []"
  by (simp add: replace_str_def split_str.simps)

lemma replace_str_match: "p \<noteq> [] \<Longrightarrow> replace_str p r (p @ s) = r @ replace_str p r s"
proof -
  assume p: "p \<noteq> []"
  then obtain c t where ps: "p @ s = c # t" by (cases "p @ s") auto
  have "starts_with (c # t) p" using starts_with_append [of p s] by (simp add: ps)
  then have "find_str (p @ s) p = Some 0" by (simp add: ps)
  then have "split_str p (p @ s) = [] # split_str p s" using p by (subst split_str.simps) simp
  then show ?thesis using p by (simp add: replace_str_def join_with_Cons)
qed

lemma replace_str_skip: "p \<noteq> [] \<Longrightarrow> \<not> starts_with (c # s) p \<Longrightarrow> replace_str p r (c # s) = c # replace_str p r s"
proof (cases "find_str s p")
  case None
  assume "p \<noteq> []" "\<not> starts_with (c # s) p"
  with None show ?thesis by (simp add: replace_str_def split_str.simps)
next
  case (Some i)
  assume p: "p \<noteq> []" "\<not> starts_with (c # s) p"
  have "split_str p (c # s) = (c # take i s) # split_str p (drop (i + length p) s)"
    using p Some by (subst split_str.simps) simp
  moreover have "split_str p s = take i s # split_str p (drop (i + length p) s)"
    using p Some by (subst split_str.simps) simp
  ultimately show ?thesis using p(1) by (simp add: replace_str_def join_with_Cons)
qed

end
