(* ===== verification/Values.thy ===== *)
theory Values
  imports Ordered_Map Text_Ops
begin

text \<open>
  The values a workflow file is made of. \<open>yaml_value\<close> has the constructors of
  \<open>serde_yaml_ng::Value\<close> that the sources match on, and \<open>json\<close> those of
  \<open>serde_json::Value\<close>. A number is carried as the text it is displayed with. What the
  two crates compute is not defined here: the accessor methods and the conversion to JSON
  are the fields of \<open>yaml_api\<close>, a parameter of every definition that calls them. A
  \<open>Mapping\<close> is its list of entries in insertion order, keys distinct.

  The three hand-written deserializers of the workflow crate (\<open>Scalar\<close>, \<open>Needs\<close>,
  \<open>StepReferences\<close>) are functions from a value.
\<close>

section \<open>YAML and JSON values\<close>

datatype yaml_value =
    YNull
  | YBool bool
  | YNumber string
  | YString string
  | YSequence "yaml_value list"
  | YMapping "(yaml_value \<times> yaml_value) list"
  | YTagged string yaml_value

datatype json =
    JNull
  | JBool bool
  | JNumber string
  | JString string
  | JArray "json list"
  | JObject "(string \<times> json) list"

type_synonym mapping = "(yaml_value \<times> yaml_value) list"

record yaml_api =
  as_str :: "yaml_value \<Rightarrow> string option"
  as_bool :: "yaml_value \<Rightarrow> bool option"
  as_u64 :: "yaml_value \<Rightarrow> 64 word option"
  as_i64 :: "yaml_value \<Rightarrow> int option"
  as_f64 :: "yaml_value \<Rightarrow> 64 word option"
  as_mapping :: "yaml_value \<Rightarrow> mapping option"
  is_null :: "yaml_value \<Rightarrow> bool"
  json_of_yaml :: "yaml_value \<Rightarrow> string + json"

text \<open>
  The documented behaviour of the accessors on plain values: an accessor returns the
  payload of its own constructor and nothing on the constructors of the other kinds. A
  tagged value is left open, since some releases look through the tag.
\<close>

definition yaml_api_ok :: "yaml_api \<Rightarrow> bool" where
  "yaml_api_ok Y \<longleftrightarrow>
    (\<forall>s. as_str Y (YString s) = Some s) \<and>
    (\<forall>b. as_str Y (YBool b) = None) \<and> as_str Y YNull = None \<and>
    (\<forall>n. as_str Y (YNumber n) = None) \<and>
    (\<forall>xs. as_str Y (YSequence xs) = None) \<and> (\<forall>m. as_str Y (YMapping m) = None) \<and>
    (\<forall>b. as_bool Y (YBool b) = Some b) \<and> (\<forall>s. as_bool Y (YString s) = None) \<and>
    (\<forall>m. as_mapping Y (YMapping m) = Some m) \<and> (\<forall>s. as_mapping Y (YString s) = None) \<and>
    is_null Y YNull \<and> (\<forall>b. \<not> is_null Y (YBool b)) \<and> (\<forall>s. \<not> is_null Y (YString s))"

text \<open>
  One implementation of the accessors, for the evaluation of examples: no looking through
  tags, no numbers, and JSON for scalars only.
\<close>

definition plain_yaml :: yaml_api where
  "plain_yaml =
    \<lparr>as_str = (\<lambda>v. case v of YString s \<Rightarrow> Some s | _ \<Rightarrow> None),
     as_bool = (\<lambda>v. case v of YBool b \<Rightarrow> Some b | _ \<Rightarrow> None),
     as_u64 = (\<lambda>v. None), as_i64 = (\<lambda>v. None), as_f64 = (\<lambda>v. None),
     as_mapping = (\<lambda>v. case v of YMapping m \<Rightarrow> Some m | _ \<Rightarrow> None),
     is_null = (\<lambda>v. v = YNull),
     json_of_yaml = (\<lambda>v. case v of YString s \<Rightarrow> Inr (JString s) | YBool b \<Rightarrow> Inr (JBool b)
       | YNumber n \<Rightarrow> Inr (JNumber n) | YNull \<Rightarrow> Inr JNull | _ \<Rightarrow> Inl ''unsupported'')\<rparr>"

lemma plain_yaml_ok: "yaml_api_ok plain_yaml"
  by (simp add: yaml_api_ok_def plain_yaml_def)

text \<open>\<open>Mapping::get(Value::String(key))\<close> and \<open>contains_key\<close>.\<close>

definition mapping_get :: "mapping \<Rightarrow> string \<Rightarrow> yaml_value option" where
  "mapping_get m key = map_of m (YString key)"

definition mapping_contains_key :: "mapping \<Rightarrow> string \<Rightarrow> bool" where
  "mapping_contains_key m key = (mapping_get m key \<noteq> None)"

section \<open>Expressions inside values\<close>

definition expression_open :: string where
  "expression_open = ''${{''"

lemma size_sequence_entry [termination_simp]:
  "v \<in> set xs \<Longrightarrow> size v < Suc (size_list size xs)"
  by (simp add: less_Suc_eq_le size_list_estimation')

lemma size_mapping_entry [termination_simp]:
  assumes "(a, b) \<in> set m"
  shows "size a < Suc (size_list (size_prod size size) m)"
    and "size b < Suc (size_list (size_prod size size) m)"
  using size_list_estimation' [OF assms, of _ "size_prod size size"]
  by (auto simp: less_Suc_eq_le)

fun contains_expression :: "yaml_value \<Rightarrow> bool" where
  "contains_expression (YString s) = contains_str s expression_open"
| "contains_expression (YSequence xs) = list_ex contains_expression xs"
| "contains_expression (YMapping m) =
    list_ex (\<lambda>(k, v). contains_expression k \<or> contains_expression v) m"
| "contains_expression (YTagged t v) = contains_expression v"
| "contains_expression v = False"

fun value_contains_expression :: "yaml_value \<Rightarrow> bool" where
  "value_contains_expression (YString s) = contains_str s expression_open"
| "value_contains_expression (YSequence xs) = list_ex value_contains_expression xs"
| "value_contains_expression (YMapping m) =
    list_ex (\<lambda>(k, v). value_contains_expression k \<or> value_contains_expression v) m"
| "value_contains_expression (YTagged t v) = value_contains_expression v"
| "value_contains_expression v = False"

text \<open>The crate has the same scan twice; the two agree.\<close>

lemma value_contains_expression_eq: "value_contains_expression v = contains_expression v"
  by (induction v rule: contains_expression.induct) (fastforce simp: list_ex_iff)+

section \<open>Hand-written deserializers\<close>

text \<open>A deserialization error carries the message the code passes to \<open>custom\<close>.\<close>

datatype de_error =
    ExpectedScalar
  | NeedsEntriesStrings
  | NeedsStringOrList
  | WaitEntriesNonEmpty
  | WaitNonEmpty

type_synonym scalar = string

fun deserialize_scalar :: "yaml_value \<Rightarrow> de_error + scalar" where
  "deserialize_scalar (YString s) = Inr s"
| "deserialize_scalar (YBool b) = Inr (if b then ''true'' else ''false'')"
| "deserialize_scalar (YNumber n) = Inr n"
| "deserialize_scalar YNull = Inr []"
| "deserialize_scalar v = Inl ExpectedScalar"

fun deserialize_needs :: "yaml_value \<Rightarrow> de_error + string list" where
  "deserialize_needs YNull = Inr []"
| "deserialize_needs (YString s) = Inr [s]"
| "deserialize_needs (YSequence xs) =
    mapE (\<lambda>v. case v of YString s \<Rightarrow> Inr s | _ \<Rightarrow> Inl NeedsEntriesStrings) xs"
| "deserialize_needs v = Inl NeedsStringOrList"

fun deserialize_step_references :: "yaml_value \<Rightarrow> de_error + string list" where
  "deserialize_step_references (YString s) = (if s \<noteq> [] then Inr [s] else Inl WaitNonEmpty)"
| "deserialize_step_references (YSequence xs) =
    (if xs \<noteq> [] then
       mapE (\<lambda>v. case v of
               YString s \<Rightarrow> if s \<noteq> [] then Inr s else Inl WaitEntriesNonEmpty
             | _ \<Rightarrow> Inl WaitEntriesNonEmpty) xs
     else Inl WaitNonEmpty)"
| "deserialize_step_references v = Inl WaitNonEmpty"

end
