(* ===== verification/Expression.thy ===== *)
theory Expression
  imports Values
begin

text \<open>
  The expression crate, crates/gitzero-expression/src/lib.rs: the errors, the scan of a
  template for its \<open>${{ ... }}\<close> parts and the analysis of what an expression refers to.
  The grammar is the third-party parser's: \<open>expr\<close> has the constructors the sources
  match on and \<open>Expr::parse\<close> is the parameter \<open>parse\<close>.
\<close>

section \<open>Syntax and errors\<close>

datatype literal = LString string | LNumber "64 word" | LBoolean bool | LNull

datatype expression_function =
    FnContains | FnStartsWith | FnEndsWith | FnFormat | FnJoin | FnToJSON | FnFromJSON
  | FnCase | FnHashFiles | FnSuccess | FnAlways | FnCancelled | FnFailure

datatype bin_op = OpAnd | OpOr | OpEq | OpNeq | OpGt | OpGe | OpLt | OpLe

datatype un_op = OpNot

datatype expr =
    Literal literal
  | Star
  | Identifier string
  | Index expr
  | Call expression_function "expr list"
  | Context "expr list"
  | BinExpr expr bin_op expr
  | UnExpr un_op expr

datatype expression_error =
    ParseError string
  | UnknownContext string
  | InvalidAccess string string
  | UnsupportedFunction string
  | InvalidFunction string
  | InvalidHashFilesOption string
  | InvalidHashFilesPattern string string
  | HashFilesWorkspace string string
  | HashFilesIo string string
  | HashFilesNonUtf8Path string
  | HashFilesTimeout
  | UnclosedTemplate
  | JsonConversion

text \<open>\<open>ExprPanic\<close> is a slice off a character boundary or an \<open>unreachable!\<close>.\<close>

datatype expr_failure = ExprErr expression_error | ExprPanic

type_synonym parser = "string \<Rightarrow> string + expr"

definition parse_expr :: "parser \<Rightarrow> string \<Rightarrow> expr_failure + expr" where
  "parse_expr parse source =
    (case parse source of Inl e \<Rightarrow> Inl (ExprErr (ParseError e)) | Inr e \<Rightarrow> Inr e)"

section \<open>Scanning templates\<close>

definition unwrap_expression :: "string \<Rightarrow> string" where
  "unwrap_expression source =
    (let trimmed = trim source in
     case Option.bind (strip_prefix trimmed ''${{'') (\<lambda>v. strip_suffix v ''}}'') of
       None \<Rightarrow> trimmed
     | Some v \<Rightarrow> trim v)"

definition quote :: char where
  "quote = CHR 0x27"

text \<open>
  The loop of \<open>find_expression_end\<close> over the characters from \<open>absolute\<close> on; the rest of
  the template, \<open>template[absolute..]\<close>, is their concatenation.
\<close>

function find_end :: "bool \<Rightarrow> nat \<Rightarrow> string list \<Rightarrow> nat option" where
  "find_end quoted absolute [] = None"
| "find_end quoted absolute (ch # rest) =
    (if ch = [quote] then
       (if quoted \<and> rest \<noteq> [] \<and> hd rest = [quote] then
          find_end quoted (absolute + length ch + length (hd rest)) (tl rest)
        else find_end (\<not> quoted) (absolute + length ch) rest)
     else if \<not> quoted \<and> starts_with (concat (ch # rest)) ''}}'' then Some absolute
     else find_end quoted (absolute + length ch) rest)"
  by pat_completeness auto
termination
  by (relation "measure (\<lambda>(_, _, cs). length cs)") (auto simp: le_imp_less_Suc)

definition find_expression_end :: "string \<Rightarrow> nat \<Rightarrow> expr_failure + nat option" where
  "find_expression_end template start =
    bindE (slice_from ExprPanic template start) (\<lambda>rest.
    Inr (find_end False start (utf8_chars rest)))"

lemma find_end_ge: "find_end quoted absolute cs = Some e \<Longrightarrow> absolute \<le> e"
  by (induction quoted absolute cs rule: find_end.induct) (auto split: if_splits)

lemma find_expression_end_ge:
  "find_expression_end template start = Inr (Some e) \<Longrightarrow> start \<le> e"
  by (auto simp: find_expression_end_def bindE_Inr dest: find_end_ge)

section \<open>Analysis\<close>

record expression_analysis =
  context_roots :: "string set"
  uses_status_function :: bool
  uses_hash_files :: bool

definition empty_analysis :: expression_analysis where
  "empty_analysis = \<lparr>context_roots = {}, uses_status_function = False, uses_hash_files = False\<rparr>"

definition merge :: "expression_analysis \<Rightarrow> expression_analysis \<Rightarrow> expression_analysis" where
  "merge self other =
    \<lparr>context_roots = context_roots self \<union> context_roots other,
     uses_status_function = (uses_status_function self \<or> uses_status_function other),
     uses_hash_files = (uses_hash_files self \<or> uses_hash_files other)\<rparr>"

definition add_root :: "string \<Rightarrow> expression_analysis \<Rightarrow> expression_analysis" where
  "add_root identifier analysis =
    analysis\<lparr>context_roots := insert (to_ascii_lowercase identifier) (context_roots analysis)\<rparr>"

definition is_status_function :: "expression_function \<Rightarrow> bool" where
  "is_status_function func = (func \<in> {FnSuccess, FnAlways, FnCancelled, FnFailure})"

lemma size_in_list [termination_simp]:
  "x \<in> set xs \<Longrightarrow> size x < Suc (size_list size xs)"
  by (simp add: less_Suc_eq_le size_list_estimation')

lemma size_in_tl:
  "x \<in> set (tl xs) \<Longrightarrow> size x < Suc (size_list size xs)"
  using size_in_list [of x xs] by (cases xs) auto

function analyze_spanned_expression :: "expr \<Rightarrow> expression_analysis \<Rightarrow> expression_analysis" where
  "analyze_spanned_expression (Literal l) analysis = analysis"
| "analyze_spanned_expression Star analysis = analysis"
| "analyze_spanned_expression (Identifier identifier) analysis = add_root identifier analysis"
| "analyze_spanned_expression (Index index) analysis = analyze_spanned_expression index analysis"
| "analyze_spanned_expression (Call func args) analysis =
    fold (\<lambda>argument analysis. analyze_spanned_expression argument analysis) args
      (analysis\<lparr>
        uses_status_function := (uses_status_function analysis \<or> is_status_function func),
        uses_hash_files := (uses_hash_files analysis \<or> func = FnHashFiles)\<rparr>)"
| "analyze_spanned_expression (Context parts) analysis =
    fold (\<lambda>part analysis.
        case part of
          Identifier _ \<Rightarrow> analysis
        | Star \<Rightarrow> analysis
        | Literal _ \<Rightarrow> analysis
        | Index index \<Rightarrow> analyze_spanned_expression index analysis
        | _ \<Rightarrow> analyze_spanned_expression part analysis)
      (tl parts)
      (case parts of
        [] \<Rightarrow> analysis
      | head # _ \<Rightarrow>
          (case head of
            Identifier identifier \<Rightarrow> add_root identifier analysis
          | _ \<Rightarrow> analyze_spanned_expression head analysis))"
| "analyze_spanned_expression (BinExpr lhs op rhs) analysis =
    analyze_spanned_expression rhs (analyze_spanned_expression lhs analysis)"
| "analyze_spanned_expression (UnExpr op e) analysis = analyze_spanned_expression e analysis"
  by pat_completeness auto
termination
  by (relation "measure (\<lambda>(e, _). size e)") (auto dest: size_in_tl size_in_list)

definition analyze_expression :: "parser \<Rightarrow> string \<Rightarrow> expr_failure + expression_analysis" where
  "analyze_expression parse source =
    bindE (parse_expr parse (unwrap_expression source)) (\<lambda>expression.
    Inr (analyze_spanned_expression expression empty_analysis))"

text \<open>The \<open>while let\<close> loop of \<open>analyze_template\<close> from \<open>cursor\<close> on.\<close>

lemma find_open_bound:
  assumes "slice_from panic template cursor = Inr rest" "find_str rest ''${{'' = Some i"
  shows "cursor + i + 3 \<le> length template"
proof -
  from assms(2) obtain r where "drop i rest = ''${{'' @ r"
    by (auto dest!: find_str_Some simp: text_simps)
  then have "3 \<le> length rest - i" by (metis length_append length_drop le_add1 length_Cons
      list.size(3) numeral_3_eq_3)
  then show ?thesis
    using assms(1) by (auto simp: slice_from_def dest: boundary_le split: if_splits)
qed

function analyze_loop ::
  "parser \<Rightarrow> string \<Rightarrow> nat \<Rightarrow> expression_analysis \<Rightarrow> expr_failure + expression_analysis"
where
  "analyze_loop parse template cursor analysis =
    bindE (slice_from ExprPanic template cursor) (\<lambda>rest.
    (case find_str rest ''${{'' of
      None \<Rightarrow> Inr analysis
    | Some relative_start \<Rightarrow>
        bindE (find_expression_end template (cursor + relative_start + 3)) (\<lambda>found.
        bindE (ok_or found (ExprErr UnclosedTemplate)) (\<lambda>expression_end.
        bindE (slice ExprPanic template (cursor + relative_start + 3) expression_end) (\<lambda>source.
        bindE (analyze_expression parse source) (\<lambda>other.
        analyze_loop parse template (expression_end + 2) (merge analysis other)))))))"
  by pat_completeness auto
termination
proof (relation "measure (\<lambda>(_, template, cursor, _). length template - cursor)", goal_cases)
  case (2 parse template cursor analysis rest relative_start found expression_end source other)
  then show ?case
    using find_open_bound [OF 2(1,2)] find_expression_end_ge [of template "cursor + relative_start + 3" expression_end]
    by (auto simp: ok_or_Inr)
qed simp

declare analyze_loop.simps [simp del]

definition analyze_template :: "parser \<Rightarrow> string \<Rightarrow> expr_failure + expression_analysis" where
  "analyze_template parse template = analyze_loop parse template 0 empty_analysis"

section \<open>Where an expression ends\<close>

text \<open>
  The specification of the scan: the first \<open>}}\<close> with an even number of quotes between the
  start of the expression and it. A doubled quote inside a literal counts twice, so the
  scan's look-ahead does not appear here.
\<close>

definition closes_at :: "bool \<Rightarrow> string \<Rightarrow> nat \<Rightarrow> bool" where
  "closes_at quoted s i \<longleftrightarrow> starts_with (drop i s) ''}}'' \<and>
    (even (count_list (take i s) quote) \<longleftrightarrow> \<not> quoted)"

fun first_close :: "bool \<Rightarrow> string \<Rightarrow> nat option" where
  "first_close quoted [] = None"
| "first_close quoted (c # s) =
    (if \<not> quoted \<and> starts_with (c # s) ''}}'' then Some 0
     else map_option Suc (first_close (if c = quote then \<not> quoted else quoted) s))"

lemma quote_ne_brace [simp]: "quote \<noteq> CHR ''}''" "CHR ''}'' \<noteq> quote"
  by (simp_all add: quote_def)

lemma not_starts_quote [simp]: "\<not> starts_with (quote # s) ''}}''"
  by (simp add: starts_with_iff)

lemma closes_at_0: "closes_at quoted s 0 \<longleftrightarrow> \<not> quoted \<and> starts_with s ''}}''"
  by (auto simp: closes_at_def)

lemma closes_at_Suc:
  "closes_at quoted (c # s) (Suc i) \<longleftrightarrow> closes_at (if c = quote then \<not> quoted else quoted) s i"
  by (auto simp: closes_at_def)

lemma first_close_Some:
  "first_close quoted s = Some e \<longleftrightarrow> closes_at quoted s e \<and> (\<forall>i<e. \<not> closes_at quoted s i)"
proof (induction quoted s arbitrary: e rule: first_close.induct)
  case (1 quoted)
  then show ?case by (simp add: closes_at_def starts_with_iff)
next
  case (2 quoted c s)
  show ?case
  proof (cases "closes_at quoted (c # s) 0")
    case True
    then have "first_close quoted (c # s) = Some 0" by (simp add: closes_at_0)
    then show ?thesis using True by (cases e) auto
  next
    case False
    then have step: "first_close quoted (c # s) =
        map_option Suc (first_close (if c = quote then \<not> quoted else quoted) s)"
      and IH: "first_close (if c = quote then \<not> quoted else quoted) s = Some i \<longleftrightarrow>
        closes_at quoted (c # s) (Suc i) \<and> (\<forall>j<i. \<not> closes_at quoted (c # s) (Suc j))" for i
      using "2.IH" by (auto simp: closes_at_0 closes_at_Suc)
    show ?thesis
      using False by (cases e) (auto simp: step IH All_less_Suc2 simp del: first_close.simps)
  qed
qed

lemma first_close_None: "first_close quoted s = None \<longleftrightarrow> (\<forall>i. \<not> closes_at quoted s i)"
proof
  assume "first_close quoted s = None"
  then show "\<forall>i. \<not> closes_at quoted s i"
    using first_close_Some LeastI_ex [of "closes_at quoted s"] not_less_Least by (metis option.distinct(1))
next
  assume "\<forall>i. \<not> closes_at quoted s i"
  then show "first_close quoted s = None" using first_close_Some by (metis not_None_eq)
qed

lemma first_close_skip:
  assumes "\<forall>c\<in>set p. c \<noteq> quote \<and> c \<noteq> CHR ''}''"
  shows "first_close quoted (p @ s) = map_option ((+) (length p)) (first_close quoted s)"
  using assms
proof (induction p)
  case Nil
  then show ?case by (cases "first_close quoted s") auto
next
  case (Cons c p)
  have "\<not> starts_with (c # p @ s) ''}}''" using Cons.prems by (simp add: starts_with_iff)
  with Cons show ?case by (cases "first_close quoted s") auto
qed

lemma find_end_eq:
  "utf8_ok s \<Longrightarrow>
    find_end quoted absolute (utf8_chars s) = map_option ((+) absolute) (first_close quoted s)"
proof (induction "length s" arbitrary: s quoted absolute rule: less_induct)
  case less
  show ?case
  proof (cases s)
    case (Cons c t)
    show ?thesis
    proof (cases "c = quote")
      case True
      note t = utf8_ok_ascii [of c t, OF _ less.prems [unfolded Cons]]
      have ascii: "byte_of quote < 128" by (simp add: quote_def)
      have t_ok: "utf8_ok t" and chars: "utf8_chars s = [quote] # utf8_chars t"
        using t True ascii Cons by auto
      show ?thesis
      proof (cases "quoted \<and> (\<exists>u. t = quote # u)")
        case True
        then obtain u where u: "t = quote # u" by blast
        have "utf8_ok u" "utf8_chars t = [quote] # utf8_chars u"
          using utf8_ok_ascii [of quote u] t_ok ascii by (simp_all add: u)
        with less.hyps [of u quoted "absolute + 2"] True \<open>c = quote\<close> Cons u show ?thesis
          unfolding chars
          by (cases "first_close True u") (simp_all del: utf8_chars.simps)
      next
        case False
        have "utf8_chars t = [] \<or> hd (utf8_chars t) \<noteq> [quote]" if quoted
          using False that by (cases t) auto
        with less.hyps [of t "\<not> quoted" "Suc absolute"] t_ok \<open>c = quote\<close> Cons show ?thesis
          unfolding chars
          by (cases "first_close (\<not> quoted) t") (auto simp del: utf8_chars.simps)
      qed
    next
      case False
      let ?p = "takeWhile utf8_continuation t" and ?r = "dropWhile utf8_continuation t"
      have r_ok: "utf8_ok ?r" using less.prems Cons by (simp add: utf8_ok_Cons)
      have skip: "\<forall>x\<in>set ?p. x \<noteq> quote \<and> x \<noteq> CHR ''}''"
        by (auto dest!: set_takeWhileD simp: utf8_continuation_def quote_def)
      have t_close: "first_close quoted t = map_option ((+) (length ?p)) (first_close quoted ?r)"
        using first_close_skip [OF skip, of quoted ?r] by simp
      have len: "length ?r < length s" using Cons by (simp add: length_dropWhile_le less_Suc_eq_le)
      show ?thesis
        using less.hyps [OF len r_ok, of quoted "absolute + Suc (length ?p)"] False Cons t_close
        by (cases quoted; cases "first_close quoted ?r") auto
    qed
  qed simp
qed

lemma find_expression_end_eq:
  assumes "utf8_ok template" "is_char_boundary template start"
  shows "find_expression_end template start =
    Inr (map_option ((+) start) (first_close False (drop start template)))"
  using assms utf8_ok_split(2) [OF assms(2,1)]
  by (simp add: find_expression_end_def slice_from_def find_end_eq)

text \<open>
  C19. On every UTF-8 string, the scan for the end of an expression returns exactly the first
  position of \<open>}}\<close> at which the quotes since the start are balanced, and nothing if
  there is none: a \<open>}}\<close> inside a string literal, with doubled quotes or not, never
  ends an expression.
\<close>

theorem find_expression_end_correct:
  assumes "utf8_ok template" "is_char_boundary template start"
  shows "\<exists>found. find_expression_end template start = Inr found \<and>
    (\<forall>e. found = Some e \<longleftrightarrow> start \<le> e \<and> closes_at False (drop start template) (e - start) \<and>
      (\<forall>i<e - start. \<not> closes_at False (drop start template) i))"
proof -
  let ?c = "first_close False (drop start template)"
  have "map_option ((+) start) ?c = Some e \<longleftrightarrow> start \<le> e \<and> ?c = Some (e - start)" for e
    by (cases ?c) auto
  then show ?thesis by (simp add: find_expression_end_eq [OF assms] first_close_Some)
qed

theorem find_expression_end_correct_witness:
  "find_expression_end (''x == '' @ [quote] @ ''}}'' @ [quote] @ ''}}'') 0 = Inr (Some 9)"
proof -
  let ?t = "''x == '' @ [quote] @ ''}}'' @ [quote] @ ''}}''"
  have ok: "utf8_ok ?t" "is_char_boundary ?t 0" by code_simp+
  have least: "closes_at False (drop 0 ?t) (9 - 0)" "\<forall>i<9 - 0. \<not> closes_at False (drop 0 ?t) i"
    by code_simp+
  from find_expression_end_correct [OF ok] least show ?thesis by (metis le0)
qed

section \<open>Templates never panic\<close>

lemma find_open_ascii:
  assumes "is_char_boundary template cursor" "find_str (drop cursor template) ''${{'' = Some i"
  shows "cursor + i + 2 < length template" "template ! (cursor + i + 2) = CHR ''{''"
    "template ! (cursor + i) = CHR ''$''"
proof -
  from assms(2) obtain r where "drop i (drop cursor template) = ''${{'' @ r"
    by (auto dest!: find_str_Some simp: text_simps)
  then have r: "drop (cursor + i) template = ''${{'' @ r" by (simp add: add.commute)
  show "cursor + i + 2 < length template" "template ! (cursor + i + 2) = CHR ''{''"
    "template ! (cursor + i) = CHR ''$''"
    using drop_prefix_nth [OF r, of 2] drop_prefix_nth [OF r, of 0] by simp_all
qed

lemma expression_start_boundary:
  assumes "utf8_ok template" "is_char_boundary template cursor"
    "find_str (drop cursor template) ''${{'' = Some i"
  shows "is_char_boundary template (cursor + i + 3)" "is_char_boundary template (cursor + i)"
proof -
  note braces = find_open_ascii [OF assms(2,3)]
  show "is_char_boundary template (cursor + i + 3)"
    using ascii_boundary_next [OF assms(1) braces(1)] braces(2) by (simp add: numeral_3_eq_3 numeral_2_eq_2)
  show "is_char_boundary template (cursor + i)"
    using ascii_boundary [of "cursor + i" template] braces by simp
qed

lemma expression_end_boundary:
  assumes "utf8_ok template" "is_char_boundary template start"
    "find_expression_end template start = Inr (Some e)"
  shows "is_char_boundary template e" "is_char_boundary template (e + 2)" "start \<le> e"
    "starts_with (drop e template) ''}}''"
proof -
  from assms obtain i where i: "first_close False (drop start template) = Some i" "e = start + i"
    by (auto simp: find_expression_end_eq)
  then have starts: "starts_with (drop e template) ''}}''"
    by (auto simp: first_close_Some closes_at_def add.commute)
  then obtain r where r: "drop e template = ''}}'' @ r" by (auto simp: text_simps)
  note nth = drop_prefix_nth [OF r, of 0] drop_prefix_nth [OF r, of "Suc 0"]
  show "is_char_boundary template e"
    using ascii_boundary [of e template] nth by simp
  show "is_char_boundary template (e + 2)"
    using ascii_boundary_next [OF assms(1), of "Suc e"] nth by simp
  show "start \<le> e" using i by simp
  show "starts_with (drop e template) ''}}''" by (rule starts)
qed

lemma analyze_loop_no_panic:
  "utf8_ok template \<Longrightarrow> is_char_boundary template cursor \<Longrightarrow>
    analyze_loop parse template cursor analysis \<noteq> Inl ExprPanic"
proof (induction parse template cursor analysis rule: analyze_loop.induct)
  case (1 parse template cursor analysis)
  show ?case
  proof (cases "find_str (drop cursor template) ''${{''")
    case None
    with "1.prems" show ?thesis by (simp add: analyze_loop.simps slice_from_def)
  next
    case (Some i)
    let ?start = "cursor + i + 3"
    have start: "is_char_boundary template ?start"
      using expression_start_boundary [OF "1.prems" Some] by simp
    obtain found where found: "find_expression_end template ?start = Inr found"
      by (simp add: find_expression_end_eq [OF "1.prems"(1) start])
    show ?thesis
    proof (cases found)
      case None
      with found Some "1.prems" show ?thesis
        by (simp add: analyze_loop.simps [of _ _ cursor] slice_from_def ok_or_def)
    next
      case e: (Some e)
      note bounds = expression_end_boundary [OF "1.prems"(1) start found [unfolded e]]
      have slice: "slice ExprPanic template ?start e =
          Inr (take (e - ?start) (drop ?start template))"
        using bounds start by (simp add: slice_def)
      have rest: "slice_from ExprPanic template cursor = Inr (drop cursor template)"
        using "1.prems" by (simp add: slice_from_def)
      have parse_ok: "analyze_expression parse source \<noteq> Inl ExprPanic" for source
        by (simp add: analyze_expression_def parse_expr_def split: sum.splits)
      show ?thesis
        using parse_ok "1.IH" [OF rest Some found, of e _ _] slice "1.prems"(1) bounds(2)
        by (auto simp: analyze_loop.simps [of _ _ cursor] rest Some found e ok_or_def bindE_Inl)
    qed
  qed
qed

end
