(* ===== verification/Workflow_Model.thy ===== *)
theory Workflow_Model
  imports Expression
begin

text \<open>
  The data of the workflow compiler, crates/gitzero-workflow/src/lib.rs: what a workflow
  file deserializes to (\<open>workflow\<close>, \<open>job\<close>, \<open>step\<close>), what it compiles to
  (\<open>execution_plan\<close>, \<open>planned_job\<close>, \<open>planned_step\<close>), and its errors. A struct is a
  record. \<open>Step\<close> contains steps and \<open>PlannedJob\<close> contains plans, so those two are
  datatypes; the fields of \<open>PlannedJob\<close> other than \<open>virtual_job\<close> are the record
  \<open>job_core\<close>, on which the linker's field assignments are record updates.
\<close>

section \<open>Workflow files\<close>

record run_defaults =
  rd_shell :: "string option"
  rd_working_directory :: "string option"
  rd_extra :: "(string \<times> yaml_value) list"

record defaults =
  df_run :: run_defaults
  df_extra :: "(string \<times> yaml_value) list"

record environment_configuration =
  ec_name :: scalar
  ec_url :: "scalar option"
  ec_deployment :: bool
  ec_extra :: "(string \<times> yaml_value) list"

datatype job_environment =
    EnvironmentName scalar
  | EnvironmentConfiguration environment_configuration

record concurrency_configuration =
  cc_group :: scalar
  cc_cancel_in_progress :: "scalar option"
  cc_queue :: "string option"
  cc_extra :: "(string \<times> yaml_value) list"

datatype concurrency =
    ConcurrencyGroup scalar
  | ConcurrencyConfiguration concurrency_configuration

datatype step = Step
  (step_id: "string option")
  (step_name: "string option")
  (step_run: "string option")
  (step_uses: "string option")
  (step_shell: "string option")
  (step_working_directory: "string option")
  (step_env: "(string \<times> scalar) list")
  (step_with: "(string \<times> scalar) list")
  (step_condition: "scalar option")
  (step_continue_on_error: "scalar option")
  (step_timeout_minutes: "scalar option")
  (step_background: "scalar option")
  (step_wait: "string list option")
  (step_cancel: "scalar option")
  (step_parallel: "step list option")
  (step_extra: "(string \<times> yaml_value) list")

record job =
  job_name :: "string option"
  job_runs_on :: "yaml_value option"
  job_needs :: "string list"
  job_env :: "(string \<times> scalar) list"
  job_outputs :: "(string \<times> scalar) list"
  job_defaults :: defaults
  job_permissions :: "yaml_value option"
  job_continue_on_error :: "scalar option"
  job_timeout_minutes :: "scalar option"
  job_concurrency :: "concurrency option"
  job_environment :: "job_environment option"
  job_steps :: "step list"
  job_strategy :: "yaml_value option"
  job_with :: "(string \<times> yaml_value) list"
  job_secrets :: "yaml_value option"
  job_condition :: "scalar option"
  job_container :: "yaml_value option"
  job_services :: "yaml_value option"
  job_uses :: "string option"
  job_extra :: "(string \<times> yaml_value) list"

record workflow =
  wf_name :: string
  wf_trigger :: yaml_value
  wf_env :: "(string \<times> scalar) list"
  wf_defaults :: defaults
  wf_permissions :: "yaml_value option"
  wf_run_name :: "scalar option"
  wf_concurrency :: "concurrency option"
  wf_jobs :: "(string \<times> job) list"
  wf_extra :: "(string \<times> yaml_value) list"

section \<open>Plans\<close>

record planned_permissions =
  perm_read :: "string set"
  perm_write :: "string set"

record planned_environment =
  pe_name :: string
  pe_url :: "string option"
  pe_deployment :: bool

datatype planned_concurrency_queue = QueueSingle | QueueMax

record planned_concurrency =
  pc_group :: string
  pc_cancel_in_progress :: string
  pc_queue :: planned_concurrency_queue

datatype reusable_input_type = InputString | InputBoolean | InputNumber

record planned_reusable_input =
  ri_value :: yaml_value
  ri_type :: reusable_input_type

record planned_reusable_input_scope =
  ris_inputs :: "(string \<times> planned_reusable_input) list"
  ris_matrix :: "(string \<times> json) list"

record planned_reusable_secret_scope =
  rss_inherit :: bool
  rss_mappings :: "(string \<times> string) list"
  rss_required :: "string list"

record planned_concurrency_scope =
  pcs_id :: string
  pcs_configuration :: planned_concurrency
  pcs_reusable_input_scopes :: "planned_reusable_input_scope list"

record planned_workflow_identity =
  pwi_workflow_ref :: string
  pwi_workflow_sha :: string
  pwi_workflow_repository :: string
  pwi_workflow_file_path :: string

datatype step_kind =
    CheckoutStep "(string \<times> string) list"
  | RunStep string string
  | UsesStep string "(string \<times> string) list"
  | WaitStep "string list"
  | WaitAllStep
  | CancelStep string

record planned_step =
  ps_id :: string
  ps_github_action :: string
  ps_name :: string
  ps_environment :: "(string \<times> string) list"
  ps_working_directory :: "string option"
  ps_condition :: "string option"
  ps_continue_on_error :: "string option"
  ps_timeout_minutes :: "string option"
  ps_background :: "string option"
  ps_kind :: step_kind

record job_core =
  pj_id :: string
  pj_base_id :: string
  pj_name :: string
  pj_defining_workflow_path :: string
  pj_workflow_identity :: "planned_workflow_identity option"
  pj_needs :: "string list"
  pj_need_aliases :: "(string \<times> string) list"
  pj_condition :: "string option"
  pj_runs_on :: yaml_value
  pj_reusable_input_scopes :: "planned_reusable_input_scope list"
  pj_reusable_secret_scopes :: "planned_reusable_secret_scope list"
  pj_matrix :: "(string \<times> json) list"
  pj_dynamic_matrix :: "yaml_value option"
  pj_matrix_fail_fast :: bool
  pj_matrix_max_parallel :: "nat option"
  pj_strategy_job_index :: "nat option"
  pj_strategy_job_total :: "nat option"
  pj_continue_on_error :: "string option"
  pj_timeout_minutes :: "string option"
  pj_permissions :: planned_permissions
  pj_concurrency :: "planned_concurrency option"
  pj_concurrency_scope_ids :: "string list"
  pj_concurrency_acquire :: "planned_concurrency_scope list"
  pj_concurrency_release :: "string list"
  pj_deployment_environment :: "planned_environment option"
  pj_environment :: "(string \<times> string) list"
  pj_outputs :: "(string \<times> string) list"
  pj_steps :: "planned_step list"

datatype planned_job = PlannedJob
    (job_core: job_core)
    (virtual_job: "planned_virtual_job option")
  and planned_virtual_job =
    ReusableGate
  | ReusableResult "(string \<times> string) list" "(string \<times> string) list"
  | ReusableMatrixResult "string list" nat bool
  | ReusableDynamicCall planned_dynamic_reusable_call
  and planned_dynamic_reusable_call = PlannedDynamicReusableCall
    (dc_called_plan: execution_plan)
    (dc_inputs: "(string \<times> planned_reusable_input) list")
    (dc_secrets: planned_reusable_secret_scope)
    (dc_outputs: "(string \<times> string) list")
  and execution_plan = ExecutionPlan
    (plan_workflow_name: string)
    (plan_workflow_path: string)
    (plan_concurrency: "planned_concurrency option")
    (plan_jobs: "planned_job list")

abbreviation planned_id :: "planned_job \<Rightarrow> string" where
  "planned_id j \<equiv> pj_id (job_core j)"

abbreviation planned_base_id :: "planned_job \<Rightarrow> string" where
  "planned_base_id j \<equiv> pj_base_id (job_core j)"

abbreviation planned_needs :: "planned_job \<Rightarrow> string list" where
  "planned_needs j \<equiv> pj_needs (job_core j)"

section \<open>Errors\<close>

text \<open>
  One constructor per message the compiler formats, with the values it interpolates,
  grouped by the part of the compiler that reports it. \<open>location\<close> is the \<open>location: &str\<close> argument of the validators, which
  the code only prints.
\<close>

datatype location = AtWorkflow | AtJob string

datatype job_reason =
    TopLevelKeyUnsupported string
  | CallNotLinked
  | RunsOnMissing
  | FeatureUnsupported string
  | WithOrSecretsOnRunnableJob
  | JobKeyUnsupported string

datatype settings_reason =
    DefaultsKeyUnsupported location string
  | DefaultsRunKeyUnsupported location string
  | DefaultsRunExpression location
  | PermissionsWriteAll location
  | PermissionNameNotString location
  | PermissionUnrecognized location string
  | PermissionAccessInvalid location string
  | PermissionIdTokenRead location
  | PermissionIdTokenWrite location
  | PermissionReadOnly location string
  | PermissionsShape location
  | ConcurrencyKeyUnsupported location string
  | ConcurrencyQueueInvalid location string
  | ConcurrencyGroupBounds location
  | ConcurrencyTemplateInvalid location string expression_error
  | ConcurrencyContextUnavailable location string
  | ConcurrencyCancelNotBoolean location
  | ConcurrencyMaxWithCancel location
  | EnvironmentKeyUnsupported string
  | EnvironmentNameEmpty

datatype matrix_reason =
    StrategyNotMapping
  | StrategyKeyNotString
  | StrategyFailFast
  | StrategyMaxParallel
  | StrategyKeyUnsupported string
  | MatrixNotMapping
  | MatrixKeyNotString
  | MatrixDimensionNotList string
  | MatrixDimensionEmpty string
  | MatrixValueNotJson string
  | MatrixTooLarge
  | MatrixObjectsNotList string
  | MatrixObjectNotMapping string
  | MatrixObjectKeyNotString string

datatype step_reason =
    StepKeyUnsupported string
  | WaitAllValue
  | ParallelNested
  | ParallelEmpty
  | ParallelWithOtherFields
  | ParallelEntryNotOrdinary
  | ControlStepNotStandalone
  | UnknownBackgroundStep string string
  | StepIdDuplicated string
  | StepRunOnlyFields string
  | StepWithOnRun string
  | StepNotRunOrUses string

datatype dependency_reason =
    NeedsUnknownJob string
  | NeedsItself
  | DependencyCycle

datatype contract_reason =
    WorkflowCallInvalid string
  | WorkflowCallMissing string
  | WorkflowCallKeyUnsupported string "string option"
  | WorkflowCallSectionNotMapping string
  | WorkflowCallNameNotString string
  | WorkflowCallSecretNameInvalid string
  | WorkflowCallEntryNotMapping string string
  | WorkflowCallEntryKeyUnsupported string string
  | WorkflowCallRequiredNotBoolean string string
  | WorkflowCallInputTypeMissing string
  | WorkflowCallDefaultWrongType string
  | WorkflowCallOutputValueMissing string

datatype binding_reason =
    InputNotDeclared string
  | InputMissing string
  | InputWrongType string
  | SecretNameNotString
  | SecretNotDeclared string
  | SecretReferenceInvalid string
  | SecretMissing string

datatype link_reason =
    CallRunnerOnlyFields
  | CallSecretsShape
  | CallKeyUnsupported string
  | RemoteReferenceUnresolved string
  | ReusablePathInvalid string
  | TooManyReusableWorkflows
  | NestingTooDeep
  | CallCycle "string list"
  | ReusableNotFound string
  | ReusableWithoutJobs
  | DynamicCallTemplates

datatype trigger_reason =
    FilterUnsupported "string option"
  | BranchesAndIgnored
  | PathsAndIgnored
  | PathFilterNeedsChangedFiles
  | TriggerNotMapping
  | FilterNoPositivePattern string
  | FilterEmptyPattern string
  | FilterNegativePattern string
  | FilterEntryNotString string
  | FilterShape string
  | FilterEmpty string
  | GlobEndsWithEscape string string
  | GlobStartsWithQuantifier string string string
  | GlobMisplacedQuantifier string string string
  | GlobUnclosedRange string string
  | GlobInvalidRange string string
  | GlobRegexInvalid string string string

datatype reason =
    OnJob job_reason
  | OnSettings settings_reason
  | OnMatrix matrix_reason
  | OnStep step_reason
  | OnNeeds dependency_reason
  | OnContract contract_reason
  | OnBinding binding_reason
  | OnLink link_reason
  | OnTrigger trigger_reason

datatype workflow_error =
    Incompatible string string reason
  | UnsupportedWorkflow string reason

text \<open>
  Besides returning an error, a Rust computation can panic (a map index with an absent key,
  an \<open>expect\<close> on \<open>None\<close>, a slice out of range). \<open>OutOfFuel\<close> is the model's own: the
  value of a bounded recursion that reached its bound.
\<close>

datatype failure = Err workflow_error | Panic | OutOfFuel

definition incompatible :: "string \<Rightarrow> string \<Rightarrow> reason \<Rightarrow> failure" where
  "incompatible workflow job r = Err (Incompatible workflow job r)"

definition unsupported_workflow :: "string \<Rightarrow> reason \<Rightarrow> failure" where
  "unsupported_workflow workflow r = Err (UnsupportedWorkflow workflow r)"

lemma failure_distinct [simp]:
  "incompatible w j r \<noteq> Panic" "incompatible w j r \<noteq> OutOfFuel"
  "unsupported_workflow w r \<noteq> Panic" "unsupported_workflow w r \<noteq> OutOfFuel"
  by (simp_all add: incompatible_def unsupported_workflow_def)

lemma incompatible_inject [simp]:
  "incompatible w j r = incompatible w' j' r' \<longleftrightarrow> w = w' \<and> j = j' \<and> r = r'"
  by (simp add: incompatible_def)

section \<open>Small helpers of the crate\<close>

definition scalar_map :: "(string \<times> scalar) list \<Rightarrow> (string \<times> string) list" where
  "scalar_map values = map (\<lambda>(key, value). (key, value)) values"

definition default_workflow_name :: string where
  "default_workflow_name = ''GitZero workflow''"

definition is_default_action :: "string \<Rightarrow> bool" where
  "is_default_action action = (action \<in> {''opened'', ''synchronize'', ''reopened''})"

definition is_checkout_action :: "string \<Rightarrow> bool" where
  "is_checkout_action action =
    (case split_once (CHR ''@'') action of
      None \<Rightarrow> False
    | Some (name, version) \<Rightarrow> name = ''actions/checkout'' \<and> version \<noteq> [])"

text \<open>A computation is safe when it neither panics nor exhausts the model's bound.\<close>

definition no_fault :: "failure + 'a \<Rightarrow> bool" where
  "no_fault r = (r \<noteq> Inl Panic \<and> r \<noteq> Inl OutOfFuel)"

lemma no_fault_Inr [simp]: "no_fault (Inr x)"
  by (simp add: no_fault_def)

lemma no_fault_incompatible [simp]: "no_fault (Inl (incompatible w j r))"
  by (simp add: no_fault_def)

lemma no_fault_unsupported [simp]: "no_fault (Inl (unsupported_workflow w r))"
  by (simp add: no_fault_def)

lemma no_fault_bindE:
  "no_fault m \<Longrightarrow> (\<And>x. m = Inr x \<Longrightarrow> no_fault (f x)) \<Longrightarrow> no_fault (bindE m f)"
  by (cases m) (auto simp: no_fault_def)

lemma no_fault_ensure [simp]: "no_fault (ensure b (incompatible w j r))"
  "no_fault (ensure b (unsupported_workflow w r))"
  by (simp_all add: ensure_def)

lemma no_fault_ok_or [simp]: "no_fault (ok_or x (incompatible w j r))"
  "no_fault (ok_or x (unsupported_workflow w r))"
  by (simp_all add: ok_or_def split: option.splits)

lemma no_fault_mapE: "(\<And>x. x \<in> set xs \<Longrightarrow> no_fault (f x)) \<Longrightarrow> no_fault (mapE f xs)"
  by (induction xs) (auto intro!: no_fault_bindE)

lemma no_fault_foldE:
  assumes "P s" and "\<And>s x. x \<in> set xs \<Longrightarrow> P s \<Longrightarrow> no_fault (f s x)"
    and "\<And>s x s'. x \<in> set xs \<Longrightarrow> P s \<Longrightarrow> f s x = Inr s' \<Longrightarrow> P s'"
  shows "no_fault (foldE f s xs)"
  using assms
proof (induction xs arbitrary: s)
  case (Cons x xs)
  have "no_fault (foldE f s' xs)" if "f s x = Inr s'" for s'
    using that Cons.prems by (intro Cons.IH) (meson list.set_intros)+
  with Cons.prems show ?case by (auto intro!: no_fault_bindE)
qed simp

end
