(* ===== verification/Dependencies.thy ===== *)
theory Dependencies
  imports Workflow_Model
begin

text \<open>
  The check of the \<open>needs\<close> graph, \<open>validate_dependencies\<close> of the workflow crate: the
  graph built from the planned jobs, the scan for unknown and self dependencies, and the
  three-colour depth-first search. The recursion of \<open>visit\<close> is bounded by fuel; the
  bound the check passes is the number of jobs plus one, and
  \<open>validate_dependencies_no_fault\<close> shows that it is never reached.
\<close>

section \<open>The check\<close>

type_synonym graph = "(string \<times> string list) list"
type_synonym visit_states = "(string \<times> 8 word) list"

definition dependency_graph :: "planned_job list \<Rightarrow> graph" where
  "dependency_graph jobs = bt_or_inserts [] (map (\<lambda>j. (planned_base_id j, planned_needs j)) jobs)"

definition check_needs :: "string \<Rightarrow> graph \<Rightarrow> string \<times> string list \<Rightarrow> failure + unit" where
  "check_needs workflow graph entry =
    (case entry of (job, needs) \<Rightarrow>
      foldE (\<lambda>_ dependency.
        bindE (ensure (bt_contains_key graph dependency)
                (incompatible workflow job (OnNeeds (NeedsUnknownJob dependency)))) (\<lambda>_.
        ensure (dependency \<noteq> job) (incompatible workflow job (OnNeeds NeedsItself))))
      () needs)"

fun visit :: "nat \<Rightarrow> string \<Rightarrow> graph \<Rightarrow> string \<Rightarrow> visit_states \<Rightarrow> failure + visit_states" where
  "visit 0 workflow graph job states = Inl OutOfFuel"
| "visit (Suc fuel) workflow graph job states =
    (if bt_get states job = Some 1 then
       Inl (incompatible workflow job (OnNeeds DependencyCycle))
     else if bt_get states job = Some 2 then Inr states
     else
       bindE (ok_or (bt_get graph job) Panic) (\<lambda>dependencies.
       bindE (foldE (\<lambda>states dependency. visit fuel workflow graph dependency states)
               (bt_insert job 1 states) dependencies) (\<lambda>states.
       Inr (bt_insert job 2 states))))"

definition validate_dependencies :: "string \<Rightarrow> planned_job list \<Rightarrow> failure + unit" where
  "validate_dependencies workflow jobs =
    (let graph = dependency_graph jobs in
     bindE (foldE (\<lambda>_ entry. check_needs workflow graph entry) () graph) (\<lambda>_.
     bindE (foldE (\<lambda>states job. visit (length graph + 1) workflow graph job states)
             [] (bt_keys graph)) (\<lambda>_.
     Inr ())))"

declare visit.simps(2) [simp del]

section \<open>Example plans\<close>

text \<open>A job with an id and its dependencies, the rest as an empty job compiles.\<close>

definition sample_job :: "string \<Rightarrow> string list \<Rightarrow> planned_job" where
  "sample_job name needs = PlannedJob
    \<lparr>pj_id = name, pj_base_id = name, pj_name = name, pj_defining_workflow_path = ''ci.yml'',
     pj_workflow_identity = None, pj_needs = needs, pj_need_aliases = [], pj_condition = None,
     pj_runs_on = YNull, pj_reusable_input_scopes = [], pj_reusable_secret_scopes = [],
     pj_matrix = [], pj_dynamic_matrix = None, pj_matrix_fail_fast = True,
     pj_matrix_max_parallel = None, pj_strategy_job_index = None, pj_strategy_job_total = None,
     pj_continue_on_error = None, pj_timeout_minutes = None,
     pj_permissions = \<lparr>perm_read = {}, perm_write = {}\<rparr>, pj_concurrency = None,
     pj_concurrency_scope_ids = [], pj_concurrency_acquire = [], pj_concurrency_release = [],
     pj_deployment_environment = None, pj_environment = [], pj_outputs = [], pj_steps = []\<rparr> None"

lemma sample_job_simps [simp]:
  "planned_id (sample_job name needs) = name"
  "planned_base_id (sample_job name needs) = name"
  "planned_needs (sample_job name needs) = needs"
  by (simp_all add: sample_job_def)

section \<open>What the check decides\<close>

text \<open>
  \<open>first_needs\<close> is the dependency list a job id stands for: several planned jobs share
  the base id of a matrix, and the code keeps the list of the first.
\<close>

definition first_needs :: "planned_job list \<Rightarrow> string \<Rightarrow> string list option" where
  "first_needs jobs = map_of (map (\<lambda>j. (planned_base_id j, planned_needs j)) jobs)"

definition needs_edge :: "planned_job list \<Rightarrow> string \<Rightarrow> string \<Rightarrow> bool" where
  "needs_edge jobs a b = (\<exists>needs. first_needs jobs a = Some needs \<and> b \<in> set needs)"

definition needs_known :: "planned_job list \<Rightarrow> bool" where
  "needs_known jobs = (\<forall>a b. needs_edge jobs a b \<longrightarrow> b \<in> set (map planned_base_id jobs))"

definition needs_acyclic :: "planned_job list \<Rightarrow> bool" where
  "needs_acyclic jobs = (\<forall>a. \<not> (needs_edge jobs)\<^sup>+\<^sup>+ a a)"

section \<open>The depth-first search on an arbitrary graph\<close>

definition edge :: "graph \<Rightarrow> string \<Rightarrow> string \<Rightarrow> bool" where
  "edge g a b = (\<exists>needs. bt_get g a = Some needs \<and> b \<in> set needs)"

definition grey :: "visit_states \<Rightarrow> string set" where
  "grey states = {k. bt_get states k = Some 1}"

definition black :: "visit_states \<Rightarrow> string set" where
  "black states = {k. bt_get states k = Some 2}"

definition graph_closed :: "graph \<Rightarrow> bool" where
  "graph_closed g = (\<forall>a b. edge g a b \<longrightarrow> b \<in> dom (bt_get g))"

text \<open>Finished nodes are closed under edges and lie on no cycle.\<close>

definition visit_inv :: "graph \<Rightarrow> visit_states \<Rightarrow> bool" where
  "visit_inv g states \<longleftrightarrow> bt_wf states \<and>
    (\<forall>a\<in>black states. \<forall>b. edge g a b \<longrightarrow> b \<in> black states) \<and>
    (\<forall>a\<in>black states. \<not> (edge g)\<^sup>+\<^sup>+ a a)"

lemma visit_inv_Nil [simp]: "visit_inv g []"
  by (simp add: visit_inv_def black_def)

lemma colours_insert:
  assumes "bt_wf states"
  shows "grey (bt_insert k 1 states) = insert k (grey states)"
    and "black (bt_insert k 1 states) = black states - {k}"
    and "grey (bt_insert k 2 states) = grey states - {k}"
    and "black (bt_insert k 2 states) = insert k (black states)"
  using assms by (auto simp: grey_def black_def bt_get_insert)

lemma grey_not_black: "k \<in> grey states \<Longrightarrow> k \<notin> black states"
  by (simp add: grey_def black_def)

lemma visit_white:
  assumes "j \<notin> grey states" "j \<notin> black states" "bt_get g j = Some deps"
  shows "visit (Suc n) w g j states =
    bindE (foldE (\<lambda>s d. visit n w g d s) (bt_insert j 1 states) deps) (\<lambda>s. Inr (bt_insert j 2 s))"
  using assms by (simp add: visit.simps grey_def black_def ok_or_def)

lemma black_reaches:
  assumes "visit_inv g states" "(edge g)\<^sup>*\<^sup>* a b" "a \<in> black states"
  shows "b \<in> black states"
  using assms(2,3) by (induction) (use assms(1) in \<open>auto simp: visit_inv_def\<close>)

lemma visit_inv_start:
  "visit_inv g states \<Longrightarrow> k \<notin> black states \<Longrightarrow> visit_inv g (bt_insert k 1 states)"
  by (auto simp: visit_inv_def colours_insert bt_wf_insert)

lemma visit_inv_finish:
  assumes inv: "visit_inv g states" and "k \<notin> black states"
    and deps: "bt_get g k = Some deps" "set deps \<subseteq> black states"
  shows "visit_inv g (bt_insert k 2 states)"
proof -
  have edges: "b \<in> black states" if "edge g k b" for b
    using that deps by (auto simp: edge_def)
  have "\<not> (edge g)\<^sup>+\<^sup>+ k k"
  proof
    assume "(edge g)\<^sup>+\<^sup>+ k k"
    then obtain b where "edge g k b" "(edge g)\<^sup>*\<^sup>* b k" by (metis tranclpD)
    with edges black_reaches [OF inv] \<open>k \<notin> black states\<close> show False by blast
  qed
  with inv edges show ?thesis
    by (auto simp: visit_inv_def colours_insert bt_wf_insert)
qed

lemma visit_sound:
  "visit n w g j states = Inr states' \<Longrightarrow> visit_inv g states \<Longrightarrow>
    visit_inv g states' \<and> black states \<subseteq> black states' \<and> j \<in> black states' \<and>
    grey states' = grey states"
proof (induction n arbitrary: j states states')
  case (Suc n)
  show ?case
  proof (cases "j \<in> black states")
    case True
    with Suc.prems show ?thesis by (auto simp: visit.simps black_def)
  next
    case white: False
    with Suc.prems(1) obtain deps where not_grey: "j \<notin> grey states"
      and deps: "bt_get g j = Some deps"
      by (auto simp: visit.simps result_simps grey_def black_def split: if_splits)
    obtain t where states': "states' = bt_insert j 2 t"
      and loop: "foldE (\<lambda>s d. visit n w g d s) (bt_insert j 1 states) deps = Inr t"
      using Suc.prems(1) by (auto simp: visit_white [OF not_grey white deps] bindE_Inr)
    have wf: "bt_wf states" using Suc.prems(2) by (simp add: visit_inv_def)
    let ?P = "\<lambda>s. visit_inv g s \<and> black states \<subseteq> black s \<and> grey s = insert j (grey states)"
    have P: "?P t \<and> (\<forall>d\<in>set deps. d \<in> black t)"
    proof (rule foldE_reaches [OF loop])
      show "?P (bt_insert j 1 states)"
        using visit_inv_start [OF Suc.prems(2) white] white by (auto simp: colours_insert wf)
    qed (use Suc.IH in \<open>blast+\<close>)
    then have "j \<notin> black t" by (blast dest: grey_not_black)
    moreover from P this deps have "visit_inv g states'"
      unfolding states' by (intro visit_inv_finish) auto
    moreover have "bt_wf t" using P by (simp add: visit_inv_def)
    ultimately show ?thesis using P not_grey by (auto simp: states' colours_insert)
  qed
qed simp

text \<open>
  The path from the root of the search to the current node is grey, so an edge back into
  it closes a cycle: a search without cycles never fails, and the job named by a failure
  lies on one.
\<close>

definition grey_path :: "graph \<Rightarrow> visit_states \<Rightarrow> string \<Rightarrow> bool" where
  "grey_path g states j \<longleftrightarrow> grey states \<subseteq> dom (bt_get g) \<and> (\<forall>a\<in>grey states. (edge g)\<^sup>+\<^sup>+ a j)"

lemma grey_path_step:
  assumes "grey_path g states j" "j \<in> dom (bt_get g)" "edge g j d"
    "grey t = insert j (grey states)"
  shows "grey_path g t d"
  using assms by (auto simp: grey_path_def intro: tranclp.trancl_into_trancl)

lemma fuel_step:
  assumes "card (dom (bt_get g) - grey states) < Suc n" "j \<in> dom (bt_get g)" "j \<notin> grey states"
    "grey t = insert j (grey states)"
  shows "card (dom (bt_get g) - grey t) < n"
proof -
  have eq: "dom (bt_get g) - grey t = (dom (bt_get g) - grey states) - {j}"
    using assms(4) by auto
  have "card ((dom (bt_get g) - grey states) - {j}) < card (dom (bt_get g) - grey states)"
    using assms(2,3) by (intro card_Diff1_less) (auto simp: finite_dom_map_of)
  with assms(1) eq show ?thesis by simp
qed

lemma visit_fails:
  assumes "graph_closed g"
  shows "visit n w g j states = Inl e \<Longrightarrow> visit_inv g states \<Longrightarrow> grey_path g states j \<Longrightarrow>
    j \<in> dom (bt_get g) \<Longrightarrow> card (dom (bt_get g) - grey states) < n \<Longrightarrow>
    \<exists>k. e = incompatible w k (OnNeeds DependencyCycle) \<and> (edge g)\<^sup>+\<^sup>+ k k"
proof (induction n arbitrary: j states)
  case (Suc n)
  show ?case
  proof (cases "j \<in> grey states")
    case True
    with Suc.prems(1,3) show ?thesis by (auto simp: visit.simps grey_def grey_path_def)
  next
    case False
    from Suc.prems(4) obtain deps where deps: "bt_get g j = Some deps" by auto
    have white: "j \<notin> black states"
      using Suc.prems(1) False by (auto simp: visit.simps black_def grey_def)
    have loop: "foldE (\<lambda>s d. visit n w g d s) (bt_insert j 1 states) deps = Inl e"
      using Suc.prems(1) by (simp add: visit_white [OF False white deps] bindE_Inl)
    let ?P = "\<lambda>s. visit_inv g s \<and> grey s = insert j (grey states)"
    have wf: "bt_wf states" using Suc.prems(2) by (simp add: visit_inv_def)
    have start: "?P (bt_insert j 1 states)"
      using visit_inv_start [OF Suc.prems(2) white] by (simp add: colours_insert [OF wf])
    obtain d s where d: "d \<in> set deps" and s: "?P s" and err: "visit n w g d s = Inl e"
    proof -
      have "\<exists>d\<in>set deps. \<exists>s. ?P s \<and> visit n w g d s = Inl e"
        by (rule foldE_Inl_invariant [where P = ?P, OF loop start]) (use visit_sound in blast)
      then show ?thesis using that by blast
    qed
    have e: "edge g j d" using deps d by (auto simp: edge_def)
    show ?thesis
    proof (rule Suc.IH [OF err])
      show "d \<in> dom (bt_get g)" using assms e by (auto simp: graph_closed_def)
      show "grey_path g s d" using grey_path_step [OF Suc.prems(3,4) e] s by blast
      show "card (dom (bt_get g) - grey s) < n"
        using fuel_step [OF Suc.prems(5,4) False] s by blast
      show "visit_inv g s" using s by blast
    qed
  qed
qed simp

lemma visit_succeeds:
  assumes "graph_closed g" "\<And>a. \<not> (edge g)\<^sup>+\<^sup>+ a a"
    and "visit_inv g states" "grey states = {}" "j \<in> dom (bt_get g)" "card (dom (bt_get g)) < n"
  shows "\<exists>states'. visit n w g j states = Inr states'"
proof (cases "visit n w g j states")
  case (Inl e)
  have "\<exists>k. e = incompatible w k (OnNeeds DependencyCycle) \<and> (edge g)\<^sup>+\<^sup>+ k k"
    by (rule visit_fails [OF assms(1) Inl]) (use assms(3-6) in \<open>auto simp: grey_path_def\<close>)
  with assms(2) show ?thesis by blast
qed simp

section \<open>Correctness of the check\<close>

lemma graph_of_jobs:
  "bt_get (dependency_graph jobs) = first_needs jobs"
  "fst ` set (dependency_graph jobs) = planned_base_id ` set jobs"
  "edge (dependency_graph jobs) = needs_edge jobs"
proof -
  show get: "bt_get (dependency_graph jobs) = first_needs jobs"
    by (rule ext) (simp add: dependency_graph_def first_needs_def bt_get_or_inserts)
  show "fst ` set (dependency_graph jobs) = planned_base_id ` set jobs"
    by (simp add: dependency_graph_def bt_keys_or_inserts image_image)
  show "edge (dependency_graph jobs) = needs_edge jobs"
    by (intro ext) (simp add: edge_def needs_edge_def get)
qed

lemma bt_wf_dependency_graph: "bt_wf (dependency_graph jobs)"
  by (simp add: dependency_graph_def bt_wf_or_inserts)

lemma card_graph: "card (dom (bt_get g)) < length g + 1"
  by (simp add: dom_map_of_conv_image_fst less_Suc_eq_le) (metis card_length length_map list.set_map)

lemma foldE_unit_ok:
  "foldE (\<lambda>_ x. f x) () xs = Inr () \<longleftrightarrow> (\<forall>x\<in>set xs. f x = Inr ())"
  by (induction xs) (auto simp: bindE_Inr)

lemma check_needs_ok:
  "check_needs w g (job, needs) = Inr () \<longleftrightarrow>
    (\<forall>d\<in>set needs. d \<in> fst ` set g \<and> d \<noteq> job)"
  by (simp add: check_needs_def foldE_unit_ok result_simps)

lemma checks_ok:
  assumes "bt_wf g"
  shows "foldE (\<lambda>_ entry. check_needs w g entry) () g = Inr () \<longleftrightarrow>
    graph_closed g \<and> (\<forall>a. \<not> edge g a a)"
proof -
  have "(\<forall>x\<in>set g. check_needs w g x = Inr ()) \<longleftrightarrow>
      (\<forall>a needs. bt_get g a = Some needs \<longrightarrow> check_needs w g (a, needs) = Inr ())"
    using bt_wf_distinct [OF assms] by auto
  also have "\<dots> \<longleftrightarrow> graph_closed g \<and> (\<forall>a. \<not> edge g a a)"
    by (auto simp: check_needs_ok graph_closed_def edge_def dom_map_of_conv_image_fst)
  finally show ?thesis by (simp add: foldE_unit_ok)
qed

lemma visits_all_black:
  assumes "foldE (\<lambda>states job. visit n w g job states) [] keys = Inr t"
  shows "visit_inv g t \<and> set keys \<subseteq> black t"
  using foldE_reaches [OF assms, of "visit_inv g" "\<lambda>k t. k \<in> black t"] visit_sound by fastforce

lemma visits_succeed:
  assumes "graph_closed g" "\<And>a. \<not> (edge g)\<^sup>+\<^sup>+ a a" "set keys \<subseteq> dom (bt_get g)"
  shows "\<exists>t. foldE (\<lambda>states job. visit (length g + 1) w g job states) [] keys = Inr t"
proof -
  have "\<exists>s'. visit (length g + 1) w g x s = Inr s' \<and> visit_inv g s' \<and> grey s' = {}"
    if "x \<in> set keys" "visit_inv g s \<and> grey s = {}" for x s
    using visit_succeeds [OF assms(1,2), of s x "length g + 1" w] that assms(3) card_graph
      visit_sound by (metis subsetD)
  then show ?thesis
    using foldE_total [of "\<lambda>s. visit_inv g s \<and> grey s = {}" "[]" keys
        "\<lambda>s x. visit (length g + 1) w g x s"]
    by (fastforce simp: grey_def [of "[]"])
qed

lemma graph_closed_needs: "graph_closed (dependency_graph jobs) \<longleftrightarrow> needs_known jobs"
  by (simp add: graph_closed_def needs_known_def graph_of_jobs dom_map_of_conv_image_fst
      flip: graph_of_jobs(1))

lemma validate_dependencies_sound:
  assumes "validate_dependencies workflow jobs = Inr ()"
  shows "needs_known jobs \<and> needs_acyclic jobs"
proof -
  let ?g = "dependency_graph jobs"
  from assms obtain t where checks: "graph_closed ?g"
    and run: "foldE (\<lambda>s j. visit (length ?g + 1) workflow ?g j s) [] (bt_keys ?g) = Inr t"
    by (auto simp: validate_dependencies_def Let_def bindE_Inr checks_ok bt_wf_dependency_graph)
  have inv: "visit_inv ?g t" and all: "dom (bt_get ?g) \<subseteq> black t"
    using visits_all_black [OF run] by (auto simp: dom_map_of_conv_image_fst)
  have "a \<in> dom (bt_get ?g)" if "(edge ?g)\<^sup>+\<^sup>+ a a" for a
    using tranclpD [OF that] by (auto simp: edge_def)
  with inv all have "\<not> (edge ?g)\<^sup>+\<^sup>+ a a" for a unfolding visit_inv_def by blast
  with checks show ?thesis by (simp add: needs_acyclic_def graph_of_jobs graph_closed_needs)
qed

lemma validate_dependencies_complete:
  assumes "needs_known jobs" "needs_acyclic jobs"
  shows "validate_dependencies workflow jobs = Inr ()"
proof -
  let ?g = "dependency_graph jobs"
  have closed: "graph_closed ?g" using assms(1) by (simp add: graph_closed_needs)
  have acyclic: "\<And>a. \<not> (edge ?g)\<^sup>+\<^sup>+ a a"
    using assms(2) by (simp add: needs_acyclic_def graph_of_jobs)
  have "foldE (\<lambda>_ entry. check_needs workflow ?g entry) () ?g = Inr ()"
    using closed acyclic by (auto simp: checks_ok bt_wf_dependency_graph)
  moreover obtain t
    where "foldE (\<lambda>s j. visit (length ?g + 1) workflow ?g j s) [] (bt_keys ?g) = Inr t"
    using visits_succeed [OF closed acyclic, of "bt_keys ?g" workflow]
    by (auto simp: dom_map_of_conv_image_fst)
  ultimately show ?thesis by (simp add: validate_dependencies_def)
qed

text \<open>
  C4. The dependency check accepts a plan exactly when every \<open>needs\<close> entry names a job of
  the plan and the \<open>needs\<close> relation has no cycle. In particular the depth-first search
  misses no cycle and reports none that is not there.
\<close>

theorem validate_dependencies_correct:
  "validate_dependencies workflow jobs = Inr () \<longleftrightarrow> needs_known jobs \<and> needs_acyclic jobs"
  using validate_dependencies_sound validate_dependencies_complete by blast

lemma visits_fail:
  assumes "graph_closed g" "set keys \<subseteq> dom (bt_get g)"
    and "foldE (\<lambda>states job. visit (length g + 1) w g job states) [] keys = Inl e"
  shows "\<exists>k. e = incompatible w k (OnNeeds DependencyCycle) \<and> (edge g)\<^sup>+\<^sup>+ k k"
proof -
  let ?P = "\<lambda>s. visit_inv g s \<and> grey s = {}"
  obtain k s where "k \<in> set keys" "?P s" "visit (length g + 1) w g k s = Inl e"
    using foldE_Inl_invariant [OF assms(3), of ?P] visit_sound by (fastforce simp: grey_def [of "[]"])
  then show ?thesis
    using assms(2) card_graph by (intro visit_fails [OF assms(1)]) (auto simp: grey_path_def)
qed

lemma validate_dependencies_errors:
  "no_fault (validate_dependencies workflow jobs) \<and>
   (validate_dependencies workflow jobs = Inl (incompatible workflow job (OnNeeds DependencyCycle))
     \<longrightarrow> (needs_edge jobs)\<^sup>+\<^sup>+ job job)"
proof -
  let ?g = "dependency_graph jobs"
  let ?checks = "foldE (\<lambda>_ entry. check_needs workflow ?g entry) () ?g"
  have no_cycle: "e \<noteq> incompatible workflow job (OnNeeds DependencyCycle) \<and> e \<noteq> Panic \<and> e \<noteq> OutOfFuel"
    if "?checks = Inl e" for e
    using foldE_Inl_invariant [OF that, of "\<lambda>_. True"]
    by (auto simp: check_needs_def result_simps incompatible_def split: prod.splits
        dest!: foldE_Inl_invariant [where P = "\<lambda>_. True"])
  show ?thesis
  proof (cases ?checks)
    case (Inl e)
    then have "validate_dependencies workflow jobs = Inl e"
      by (simp add: validate_dependencies_def)
    with no_cycle [OF Inl] show ?thesis by (auto simp: no_fault_def)
  next
    case (Inr u)
    let ?run = "foldE (\<lambda>s j. visit (length ?g + 1) workflow ?g j s) [] (bt_keys ?g)"
    from Inr have closed: "graph_closed ?g" by (simp add: checks_ok bt_wf_dependency_graph)
    have result: "validate_dependencies workflow jobs = bindE ?run (\<lambda>_. Inr ())"
      using Inr by (simp add: validate_dependencies_def Let_def)
    show ?thesis
      using visits_fail [OF closed, of "bt_keys ?g" workflow]
      by (cases ?run) (auto simp: result no_fault_def graph_of_jobs(3) dom_map_of_conv_image_fst)
  qed
qed

lemma no_fault_validate_dependencies [simp]: "no_fault (validate_dependencies workflow jobs)"
  using validate_dependencies_errors by blast

text \<open>
  C17. The check never panics on the index \<open>graph[job]\<close> and the recursion of the search
  never reaches its bound; and when the check reports a dependency cycle, the job it names
  lies on one.
\<close>

theorem validate_dependencies_diagnosis:
  "no_fault (validate_dependencies workflow jobs) \<and>
   (validate_dependencies workflow jobs = Inl (incompatible workflow job (OnNeeds DependencyCycle))
     \<longrightarrow> (needs_edge jobs)\<^sup>+\<^sup>+ job job)"
  by (rule validate_dependencies_errors)

lemma sample_graphs:
  "dependency_graph [sample_job ''a'' [''b''], sample_job ''b'' [''a'']] =
    [(''a'', [''b'']), (''b'', [''a''])]"
  "dependency_graph [sample_job ''build'' [], sample_job ''test'' [''build'']] =
    [(''build'', []), (''test'', [''build''])]"
  unfolding dependency_graph_def list.map sample_job_simps by code_simp+

theorem validate_dependencies_diagnosis_witness:
  "validate_dependencies ''ci.yml'' [sample_job ''a'' [''b''], sample_job ''b'' [''a'']] =
     Inl (incompatible ''ci.yml'' ''a'' (OnNeeds DependencyCycle)) \<and>
   (needs_edge [sample_job ''a'' [''b''], sample_job ''b'' [''a'']])\<^sup>+\<^sup>+ ''a'' ''a''"
proof -
  have "validate_dependencies ''ci.yml'' [sample_job ''a'' [''b''], sample_job ''b'' [''a'']] =
     Inl (incompatible ''ci.yml'' ''a'' (OnNeeds DependencyCycle))"
    unfolding validate_dependencies_def sample_graphs by code_simp
  then show ?thesis using validate_dependencies_diagnosis by blast
qed

lemma acyclic_minimal:
  assumes "finite S" "S \<noteq> {}" "\<And>a. \<not> r\<^sup>+\<^sup>+ a a"
  shows "\<exists>a\<in>S. \<forall>b. r a b \<longrightarrow> b \<notin> S"
proof -
  let ?R = "{(a, b). r a b} \<inter> S \<times> S"
  have "acyclic {(a, b). r a b}"
    using assms(3) by (simp add: acyclic_def tranclp_unfold)
  then have "acyclic ?R" by (rule acyclic_subset) simp
  then have "wf (?R\<inverse>)" using assms(1) by (intro finite_acyclic_wf_converse) auto
  then show ?thesis using assms(2) wfE_min [of "?R\<inverse>" _ S] by (metis Int_iff SigmaI all_not_in_conv case_prodI converse_iff mem_Collect_eq)
qed

text \<open>
  A plan the check accepts can always be scheduled: whatever set of jobs has finished,
  if some job of the plan has not, then one of the unfinished jobs has all its \<open>needs\<close>
  among the finished ones. So a scheduler that starts ready jobs never stalls.
\<close>

theorem validated_plan_progress:
  assumes "validate_dependencies workflow jobs = Inr ()"
    and "\<exists>j\<in>set jobs. planned_base_id j \<notin> finished"
  shows "\<exists>j\<in>set jobs. planned_base_id j \<notin> finished \<and>
    set (the (first_needs jobs (planned_base_id j))) \<subseteq> finished"
proof -
  let ?S = "planned_base_id ` set jobs - finished"
  have known: "needs_known jobs" and acyclic: "\<And>a. \<not> (needs_edge jobs)\<^sup>+\<^sup>+ a a"
    using validate_dependencies_sound [OF assms(1)] by (auto simp: needs_acyclic_def)
  obtain a where a: "a \<in> ?S" "\<And>b. needs_edge jobs a b \<Longrightarrow> b \<notin> ?S"
    using acyclic_minimal [of ?S "needs_edge jobs"] assms(2) acyclic by blast
  then obtain j where j: "j \<in> set jobs" "a = planned_base_id j" by blast
  have "first_needs jobs a \<noteq> None"
    unfolding first_needs_def map_of_eq_None_iff using j by force
  then obtain needs where "first_needs jobs a = Some needs" by blast
  with a known j show ?thesis
    by (intro bexI [of _ j]) (force simp: needs_edge_def needs_known_def)+
qed

theorem validated_plan_progress_witness:
  "validate_dependencies ''ci.yml'' [sample_job ''build'' [], sample_job ''test'' [''build'']] =
     Inr () \<and>
   (\<exists>j\<in>set [sample_job ''build'' [], sample_job ''test'' [''build'']].
     planned_base_id j \<notin> {''build''} \<and>
     set (the (first_needs [sample_job ''build'' [], sample_job ''test'' [''build'']]
       (planned_base_id j))) \<subseteq> {''build''})"
proof -
  have "validate_dependencies ''ci.yml'' [sample_job ''build'' [], sample_job ''test'' [''build'']] =
     Inr ()"
    unfolding validate_dependencies_def sample_graphs by code_simp
  then show ?thesis
    by (intro conjI validated_plan_progress [where workflow = "''ci.yml''"]) simp_all
qed

end
