(* ===== verification/Permissions.thy ===== *)
theory Permissions
  imports Workflow_Model
begin

text \<open>
  Token permissions: \<open>PlannedPermissions\<close> with its default and \<open>intersect\<close>, and
  \<open>planned_permissions\<close>, which reads the \<open>permissions\<close> key of a workflow or a job.
  The lemmas describe a permission set by the access level it gives each name; the
  intersection at a reusable call is the pointwise minimum, and a parsed set never grants a
  name the control plane does not issue.
\<close>

section \<open>Permission sets\<close>

definition default_permissions :: planned_permissions where
  "default_permissions = \<lparr>perm_read = {''contents'', ''pull-requests''}, perm_write = {}\<rparr>"

definition intersect :: "planned_permissions \<Rightarrow> planned_permissions \<Rightarrow> planned_permissions" where
  "intersect self maximum =
    (let available = {permission \<in> perm_read self \<union> perm_write self.
           permission \<in> perm_read maximum \<or> permission \<in> perm_write maximum};
         write = perm_write self \<inter> perm_write maximum
     in \<lparr>perm_read = available - write, perm_write = write\<rparr>)"

definition READ_WRITE_TOKEN_PERMISSIONS :: "string list" where
  "READ_WRITE_TOKEN_PERMISSIONS =
    [''actions'', ''artifact-metadata'', ''attestations'', ''checks'', ''code-quality'',
     ''contents'', ''deployments'', ''discussions'', ''issues'', ''packages'', ''pages'',
     ''pull-requests'', ''security-events'', ''statuses'']"

definition READ_ONLY_TOKEN_PERMISSIONS :: "string list" where
  "READ_ONLY_TOKEN_PERMISSIONS = [''vulnerability-alerts'']"

definition TOKEN_PERMISSION_KEYS :: "string list" where
  "TOKEN_PERMISSION_KEYS =
    [''actions'', ''artifact-metadata'', ''attestations'', ''checks'', ''code-quality'',
     ''contents'', ''deployments'', ''discussions'', ''id-token'', ''issues'', ''packages'',
     ''pages'', ''pull-requests'', ''security-events'', ''statuses'', ''vulnerability-alerts'']"

section \<open>The permissions key\<close>

definition permission_access ::
  "string \<Rightarrow> location \<Rightarrow> string \<Rightarrow> string \<Rightarrow> planned_permissions \<Rightarrow> failure + planned_permissions"
where
  "permission_access workflow location name access p =
    (if access = ''none'' then Inr p
     else if access = ''read'' \<and> name \<noteq> ''id-token'' then
       Inr (p\<lparr>perm_read := insert name (perm_read p)\<rparr>)
     else if access = ''read'' then
       Inl (unsupported_workflow workflow (OnSettings (PermissionIdTokenRead location)))
     else if access = ''write'' then
       (if name = ''id-token'' then
          Inl (unsupported_workflow workflow (OnSettings (PermissionIdTokenWrite location)))
        else if name \<in> set READ_ONLY_TOKEN_PERMISSIONS then
          Inl (unsupported_workflow workflow (OnSettings (PermissionReadOnly location name)))
        else Inr (p\<lparr>perm_write := insert name (perm_write p)\<rparr>))
     else Inl (unsupported_workflow workflow (OnSettings (PermissionAccessInvalid location name))))"

definition permission_entry ::
  "yaml_api \<Rightarrow> string \<Rightarrow> location \<Rightarrow> planned_permissions \<Rightarrow> yaml_value \<times> yaml_value
    \<Rightarrow> failure + planned_permissions"
where
  "permission_entry Y workflow location p entry =
    bindE (ok_or (as_str Y (fst entry))
            (unsupported_workflow workflow (OnSettings (PermissionNameNotString location)))) (\<lambda>name.
    bindE (ensure (name \<in> set TOKEN_PERMISSION_KEYS)
            (unsupported_workflow workflow (OnSettings (PermissionUnrecognized location name)))) (\<lambda>_.
    bindE (ok_or (as_str Y (snd entry))
            (unsupported_workflow workflow (OnSettings (PermissionAccessInvalid location name)))) (\<lambda>access.
    permission_access workflow location name access p)))"

definition planned_permissions ::
  "yaml_api \<Rightarrow> string \<Rightarrow> location \<Rightarrow> yaml_value option \<Rightarrow> planned_permissions
    \<Rightarrow> failure + planned_permissions"
where
  "planned_permissions Y workflow location value inherited =
    (case value of
      None \<Rightarrow> Inr inherited
    | Some (YString s) \<Rightarrow>
        if s = ''read-all'' then
          Inr \<lparr>perm_read = set (READ_WRITE_TOKEN_PERMISSIONS @ READ_ONLY_TOKEN_PERMISSIONS),
               perm_write = {}\<rparr>
        else if s = ''write-all'' then
          Inl (unsupported_workflow workflow (OnSettings (PermissionsWriteAll location)))
        else Inl (unsupported_workflow workflow (OnSettings (PermissionsShape location)))
    | Some (YMapping values) \<Rightarrow>
        foldE (permission_entry Y workflow location) \<lparr>perm_read = {}, perm_write = {}\<rparr> values
    | Some _ \<Rightarrow> Inl (unsupported_workflow workflow (OnSettings (PermissionsShape location))))"

section \<open>Access levels\<close>

definition access_level :: "planned_permissions \<Rightarrow> string \<Rightarrow> nat" where
  "access_level p name =
    (if name \<in> perm_write p then 2 else if name \<in> perm_read p then 1 else 0)"

text \<open>
  The interface the linker relies on: limiting a set by a caller's takes the smaller level
  at every name.
\<close>

locale access_limit =
  fixes limit :: "'p \<Rightarrow> 'p \<Rightarrow> 'p"
    and level :: "'p \<Rightarrow> 'n \<Rightarrow> nat"
  assumes level_limit: "level (limit p q) n = min (level p n) (level q n)"
begin

lemma limit_le: "level (limit p q) n \<le> level p n" "level (limit p q) n \<le> level q n"
  by (simp_all add: level_limit)

lemma limit_greatest: "level r n \<le> level p n \<Longrightarrow> level r n \<le> level q n \<Longrightarrow> level r n \<le> level (limit p q) n"
  by (simp add: level_limit)

lemma limit_chain_le:
  "level (foldr (\<lambda>q p. limit p q) callers p) n \<le> level p n"
  "q \<in> set callers \<Longrightarrow> level (foldr (\<lambda>q p. limit p q) callers p) n \<le> level q n"
  by (induction callers) (auto simp: level_limit min_le_iff_disj)

end

lemma access_level_intersect:
  "access_level (intersect p q) n = min (access_level p n) (access_level q n)"
  by (auto simp: access_level_def intersect_def Let_def)

interpretation perms: access_limit intersect access_level
  by unfold_locales (rule access_level_intersect)

text \<open>
  C8. The permissions of a job called through a chain of reusable workflow calls, limited
  at each call as the linker does, give no name a higher level than the job's own
  permissions or than any caller on the chain; and limiting once is exactly the pointwise
  minimum of the two levels, with no name both readable and writable.
\<close>

theorem intersect_never_escalates:
  "access_level (intersect p q) n = min (access_level p n) (access_level q n) \<and>
   perm_read (intersect p q) \<inter> perm_write (intersect p q) = {} \<and>
   access_level (foldr (\<lambda>caller job. intersect job caller) callers p) n \<le> access_level p n \<and>
   (caller \<in> set callers \<longrightarrow>
     access_level (foldr (\<lambda>caller job. intersect job caller) callers p) n \<le> access_level caller n)"
  using perms.limit_chain_le [where n = n] perms.level_limit
  by (auto simp: intersect_def Let_def)

theorem intersect_never_escalates_witness:
  "access_level (foldr (\<lambda>caller job. intersect job caller)
     [default_permissions] \<lparr>perm_read = {}, perm_write = {''contents''}\<rparr>) ''contents'' \<le> 1"
  using intersect_never_escalates [of "\<lparr>perm_read = {}, perm_write = {''contents''}\<rparr>"
      default_permissions "''contents''" "[default_permissions]" default_permissions]
  by (simp add: access_level_def default_permissions_def)

section \<open>What a permissions key can grant\<close>

definition grantable :: "planned_permissions \<Rightarrow> bool" where
  "grantable p \<longleftrightarrow> perm_write p \<subseteq> set READ_WRITE_TOKEN_PERMISSIONS \<and>
    perm_read p \<subseteq> set (READ_WRITE_TOKEN_PERMISSIONS @ READ_ONLY_TOKEN_PERMISSIONS)"

lemma token_permission_keys:
  "set TOKEN_PERMISSION_KEYS =
    set READ_WRITE_TOKEN_PERMISSIONS \<union> set READ_ONLY_TOKEN_PERMISSIONS \<union> {''id-token''}"
  by code_simp

lemma grantable_default [simp]: "grantable default_permissions"
  by (simp add: grantable_def default_permissions_def READ_WRITE_TOKEN_PERMISSIONS_def)

lemma grantable_intersect: "grantable p \<Longrightarrow> grantable (intersect p q)"
  by (auto simp: grantable_def intersect_def Let_def)

lemma permission_access_grantable:
  assumes "permission_access w l name access p = Inr p'" "name \<in> set TOKEN_PERMISSION_KEYS"
    "grantable p"
  shows "grantable p'"
  using assms
  by (auto simp: permission_access_def grantable_def token_permission_keys split: if_splits)

lemma permission_entry_grantable:
  "permission_entry Y w l p e = Inr p' \<Longrightarrow> grantable p \<Longrightarrow> grantable p'"
  by (auto simp: permission_entry_def result_simps intro: permission_access_grantable)

lemma planned_permissions_grantable:
  assumes "planned_permissions Y w l v inherited = Inr p" "grantable inherited"
  shows "grantable p"
proof (cases v)
  case (Some k)
  have empty: "grantable \<lparr>perm_read = {}, perm_write = {}\<rparr>" by (simp add: grantable_def)
  show ?thesis
  proof (cases k)
    case (YMapping entries)
    with assms Some have "foldE (permission_entry Y w l) \<lparr>perm_read = {}, perm_write = {}\<rparr> entries = Inr p"
      by (simp add: planned_permissions_def)
    then show ?thesis
      by (rule foldE_invariant [where P = grantable]) (auto intro: empty permission_entry_grantable)
  qed (use assms Some in \<open>auto simp: planned_permissions_def grantable_def split: if_splits\<close>)
qed (use assms in \<open>simp add: planned_permissions_def\<close>)

text \<open>
  C18. Whatever the \<open>permissions\<close> key holds, and whatever the YAML accessors return, a
  permission set accepted from grantable inherited permissions is grantable: it writes
  only names that support write access and reads only names the token can carry. In
  particular no accepted set mentions \<open>id-token\<close> or writes \<open>vulnerability-alerts\<close>.
\<close>

theorem planned_permissions_safe:
  assumes "planned_permissions Y workflow location v inherited = Inr p" and "grantable inherited"
  shows "grantable p \<and> access_level p ''id-token'' = 0 \<and>
    access_level p ''vulnerability-alerts'' \<le> 1"
proof -
  have p: "grantable p" using assms by (rule planned_permissions_grantable)
  have "''id-token'' \<notin> set (READ_WRITE_TOKEN_PERMISSIONS @ READ_ONLY_TOKEN_PERMISSIONS)"
    "''vulnerability-alerts'' \<notin> set READ_WRITE_TOKEN_PERMISSIONS"
    by code_simp+
  with p show ?thesis by (auto simp: grantable_def access_level_def)
qed

theorem planned_permissions_safe_witness:
  "access_level \<lparr>perm_read = {''contents''}, perm_write = {''issues''}\<rparr> ''id-token'' = 0"
proof -
  have "planned_permissions plain_yaml ''ci'' AtWorkflow
      (Some (YMapping [(YString ''contents'', YString ''read''), (YString ''issues'', YString ''write'')]))
      default_permissions = Inr \<lparr>perm_read = {''contents''}, perm_write = {''issues''}\<rparr>"
    by code_simp
  then show ?thesis using planned_permissions_safe [OF _ grantable_default] by blast
qed

text \<open>The level an access word of a mapping entry stands for, and the entries accepted.\<close>

definition entry_level :: "string \<Rightarrow> nat option" where
  "entry_level access =
    (if access = ''none'' then Some 0 else if access = ''read'' then Some 1
     else if access = ''write'' then Some 2 else None)"

definition entry_valid :: "string \<times> string \<Rightarrow> bool" where
  "entry_valid e \<longleftrightarrow> fst e \<in> set TOKEN_PERMISSION_KEYS \<and>
    (case entry_level (snd e) of
      None \<Rightarrow> False
    | Some l \<Rightarrow> (l > 0 \<longrightarrow> fst e \<noteq> ''id-token'') \<and>
        (l = 2 \<longrightarrow> fst e \<notin> set READ_ONLY_TOKEN_PERMISSIONS))"

definition granted :: "(string \<times> string) list \<Rightarrow> planned_permissions" where
  "granted entries = \<lparr>perm_read = {n. (n, ''read'') \<in> set entries},
     perm_write = {n. (n, ''write'') \<in> set entries}\<rparr>"

lemma permission_entry_plain:
  assumes "yaml_api_ok Y"
  shows "permission_entry Y w l (granted done) (YString n, YString a) = Inr p' \<longleftrightarrow>
    entry_valid (n, a) \<and> p' = granted (done @ [(n, a)])"
proof -
  have str: "as_str Y (YString s) = Some s" for s using assms by (simp add: yaml_api_ok_def)
  have access: "permission_access w l n a (granted done) = Inr p' \<longleftrightarrow>
      entry_valid (n, a) \<and> p' = granted (done @ [(n, a)])" if "n \<in> set TOKEN_PERMISSION_KEYS"
    for p'
    using that
    by (cases "a = ''none''"; cases "a = ''read''"; cases "a = ''write''")
      (auto simp: permission_access_def entry_valid_def entry_level_def granted_def)
  have "entry_valid (n, a) \<Longrightarrow> n \<in> set TOKEN_PERMISSION_KEYS" by (simp add: entry_valid_def)
  then show ?thesis
    by (cases "n \<in> set TOKEN_PERMISSION_KEYS")
      (auto simp: permission_entry_def str ensure_def ok_or_def access)
qed

lemma permission_entries_plain:
  assumes "yaml_api_ok Y"
  shows "foldE (permission_entry Y w l) (granted done)
      (map (\<lambda>(n, a). (YString n, YString a)) entries) = Inr p \<longleftrightarrow>
    (\<forall>e\<in>set entries. entry_valid e) \<and> p = granted (done @ entries)"
proof (induction entries arbitrary: "done")
  case (Cons e entries)
  obtain n a where "e = (n, a)" by (cases e)
  then show ?case
    by (auto simp: bindE_Inr permission_entry_plain [OF assms] Cons)
qed auto

text \<open>
  A permission mapping of plain strings is accepted exactly when every entry is a
  recognised name with an access word that name supports, and then the set reads the names
  given \<open>read\<close> and writes the names given \<open>write\<close>; names left out get nothing, whatever
  was inherited.
\<close>

theorem planned_permissions_mapping:
  assumes "yaml_api_ok Y"
  shows "planned_permissions Y workflow location
      (Some (YMapping (map (\<lambda>(n, a). (YString n, YString a)) entries))) inherited = Inr p \<longleftrightarrow>
    (\<forall>e\<in>set entries. entry_valid e) \<and> p = granted entries"
  using permission_entries_plain [OF assms, of workflow location "[]" entries p]
  by (simp add: planned_permissions_def granted_def)

theorem planned_permissions_mapping_witness:
  "planned_permissions plain_yaml ''ci'' AtWorkflow
      (Some (YMapping [(YString ''checks'', YString ''write'')])) default_permissions
    = Inr (granted [(''checks'', ''write'')])"
proof -
  have "entry_valid (''checks'', ''write'')" by code_simp
  then show ?thesis
    using planned_permissions_mapping [OF plain_yaml_ok, of "''ci''" AtWorkflow
        "[(''checks'', ''write'')]" default_permissions "granted [(''checks'', ''write'')]"]
    by simp
qed

end
