(* ===== verification/Matrix.thy ===== *)
theory Matrix
  imports Workflow_Model
begin

text \<open>
  Job matrices: \<open>expand_matrix\<close>, \<open>expand_matrix_definition\<close> and their helpers in the
  workflow crate. A combination is a \<open>BTreeMap<String, JsonValue>\<close>. The specification at
  the end gives the combinations in closed form: the Cartesian product of the dimensions,
  less the excluded combinations, each extended by the include entries compatible with it,
  followed by the include entries compatible with none.
\<close>

section \<open>Parsing\<close>

type_synonym combination = "(string \<times> json) list"

record matrix_plan =
  mp_combinations :: "combination list"
  mp_dynamic :: "yaml_value option"

definition yaml_to_json :: "yaml_api \<Rightarrow> yaml_value \<Rightarrow> string + json" where
  "yaml_to_json Y v = json_of_yaml Y v"

definition matrix_json :: "yaml_api \<Rightarrow> string \<Rightarrow> string \<Rightarrow> yaml_value \<Rightarrow> failure + json" where
  "matrix_json Y workflow job_id v =
    (case yaml_to_json Y v of
      Inl e \<Rightarrow> Inl (incompatible workflow job_id (OnMatrix (MatrixValueNotJson e)))
    | Inr j \<Rightarrow> Inr j)"

definition matrix_object ::
  "yaml_api \<Rightarrow> string \<Rightarrow> string \<Rightarrow> string \<Rightarrow> yaml_value \<Rightarrow> failure + combination"
where
  "matrix_object Y workflow job_id name v =
    (case v of
      YMapping entries \<Rightarrow>
        bindE (mapE (\<lambda>(key, v).
            bindE (ok_or (as_str Y key)
              (incompatible workflow job_id (OnMatrix (MatrixObjectKeyNotString name)))) (\<lambda>key.
            bindE (matrix_json Y workflow job_id v) (\<lambda>v. Inr (key, v)))) entries) (\<lambda>pairs.
        Inr (bt_collect pairs))
    | _ \<Rightarrow> Inl (incompatible workflow job_id (OnMatrix (MatrixObjectNotMapping name))))"

definition matrix_objects ::
  "yaml_api \<Rightarrow> string \<Rightarrow> string \<Rightarrow> string \<Rightarrow> yaml_value \<Rightarrow> failure + combination list"
where
  "matrix_objects Y workflow job_id name v =
    (case v of
      YSequence vs \<Rightarrow> mapE (matrix_object Y workflow job_id name) vs
    | _ \<Rightarrow> Inl (incompatible workflow job_id (OnMatrix (MatrixObjectsNotList name))))"

definition matrix_object_matches :: "combination \<Rightarrow> combination \<Rightarrow> bool" where
  "matrix_object_matches combination pattern =
    list_all (\<lambda>(key, v). bt_get combination key = Some v) pattern"

record matrix_sections =
  ms_dimensions :: "(string \<times> json list) list"
  ms_includes :: "combination list"
  ms_excludes :: "combination list"

definition matrix_section ::
  "yaml_api \<Rightarrow> string \<Rightarrow> string \<Rightarrow> matrix_sections \<Rightarrow> yaml_value \<times> yaml_value
    \<Rightarrow> failure + matrix_sections"
where
  "matrix_section Y workflow job_id s entry =
    bindE (ok_or (as_str Y (fst entry))
      (incompatible workflow job_id (OnMatrix MatrixKeyNotString))) (\<lambda>key.
    if key = ''include'' then
      bindE (matrix_objects Y workflow job_id ''include'' (snd entry)) (\<lambda>objects.
      Inr (s\<lparr>ms_includes := objects\<rparr>))
    else if key = ''exclude'' then
      bindE (matrix_objects Y workflow job_id ''exclude'' (snd entry)) (\<lambda>objects.
      Inr (s\<lparr>ms_excludes := objects\<rparr>))
    else
      (case snd entry of
        YSequence vs \<Rightarrow>
          bindE (ensure (vs \<noteq> [])
            (incompatible workflow job_id (OnMatrix (MatrixDimensionEmpty key)))) (\<lambda>_.
          bindE (mapE (matrix_json Y workflow job_id) vs) (\<lambda>vs.
          Inr (s\<lparr>ms_dimensions := ms_dimensions s @ [(key, vs)]\<rparr>)))
      | _ \<Rightarrow> Inl (incompatible workflow job_id (OnMatrix (MatrixDimensionNotList key)))))"

section \<open>Expansion\<close>

text \<open>\<open>product.push(next)\<close> and the check of the limit after it.\<close>

definition push_bounded ::
  "string \<Rightarrow> string \<Rightarrow> combination list \<Rightarrow> combination \<Rightarrow> failure + combination list"
where
  "push_bounded workflow job_id product new =
    bindE (ensure (length (product @ [new]) \<le> 256)
      (incompatible workflow job_id (OnMatrix MatrixTooLarge))) (\<lambda>_. Inr (product @ [new]))"

definition product_dimension ::
  "string \<Rightarrow> string \<Rightarrow> combination list \<Rightarrow> string \<times> json list \<Rightarrow> failure + combination list"
where
  "product_dimension workflow job_id combinations dimension =
    foldE (\<lambda>product combination.
      foldE (\<lambda>product v.
        push_bounded workflow job_id product (bt_insert (fst dimension) v combination))
      product (snd dimension))
    [] combinations"

definition include_compatible :: "combination \<Rightarrow> combination \<Rightarrow> bool" where
  "include_compatible original include =
    list_all (\<lambda>(key, v). case bt_get original key of None \<Rightarrow> True | Some w \<Rightarrow> w = v) include"

text \<open>The inner loop of an include entry: \<open>combinations[index].extend(include)\<close>.\<close>

definition include_original ::
  "combination \<Rightarrow> combination list \<times> bool \<Rightarrow> nat \<times> combination
    \<Rightarrow> failure + combination list \<times> bool"
where
  "include_original include state original =
    (if include_compatible (snd original) include then
       bindE (ensure (fst original < length (fst state)) Panic) (\<lambda>_.
       Inr ((fst state)[fst original := bt_extend (fst state ! fst original) include], True))
     else Inr state)"

definition include_entry ::
  "string \<Rightarrow> string \<Rightarrow> combination list \<Rightarrow> combination list \<Rightarrow> combination
    \<Rightarrow> failure + combination list"
where
  "include_entry workflow job_id original combinations include =
    bindE (foldE (include_original include) (combinations, False) (enumerate 0 original))
      (\<lambda>(combinations, applied).
    let combinations = (if applied then combinations else combinations @ [include]) in
    bindE (ensure (length combinations \<le> 256)
      (incompatible workflow job_id (OnMatrix MatrixTooLarge))) (\<lambda>_. Inr combinations))"

definition expand_sections ::
  "string \<Rightarrow> string \<Rightarrow> matrix_sections \<Rightarrow> failure + combination list"
where
  "expand_sections workflow job_id s =
    bindE (foldE (product_dimension workflow job_id)
            (if ms_dimensions s = [] \<and> ms_includes s \<noteq> [] then [] else [[]])
            (ms_dimensions s)) (\<lambda>combinations.
    let original = filter (\<lambda>combination.
          \<not> list_ex (matrix_object_matches combination) (ms_excludes s)) combinations in
    foldE (include_entry workflow job_id original) original (ms_includes s))"

definition expand_matrix_definition ::
  "yaml_api \<Rightarrow> string \<Rightarrow> string \<Rightarrow> yaml_value \<Rightarrow> failure + combination list"
where
  "expand_matrix_definition Y workflow job_id matrix =
    (case matrix of
      YMapping entries \<Rightarrow>
        bindE (foldE (matrix_section Y workflow job_id)
          \<lparr>ms_dimensions = [], ms_includes = [], ms_excludes = []\<rparr> entries) (\<lambda>s.
        expand_sections workflow job_id s)
    | _ \<Rightarrow> Inl (incompatible workflow job_id (OnMatrix MatrixNotMapping)))"

section \<open>The strategy key\<close>

definition strategy_entry ::
  "yaml_api \<Rightarrow> string \<Rightarrow> string \<Rightarrow> yaml_value \<times> yaml_value \<Rightarrow> failure + unit"
where
  "strategy_entry Y workflow job_id entry =
    bindE (ok_or (as_str Y (fst entry))
      (incompatible workflow job_id (OnMatrix StrategyKeyNotString))) (\<lambda>key.
    if key = ''matrix'' then Inr ()
    else if key = ''fail-fast'' \<and> as_bool Y (snd entry) \<noteq> None then Inr ()
    else if key = ''max-parallel'' \<and>
        (case as_u64 Y (snd entry) of None \<Rightarrow> False | Some n \<Rightarrow> n > 0) then Inr ()
    else if key = ''fail-fast'' then
      Inl (incompatible workflow job_id (OnMatrix StrategyFailFast))
    else if key = ''max-parallel'' then
      Inl (incompatible workflow job_id (OnMatrix StrategyMaxParallel))
    else Inl (incompatible workflow job_id (OnMatrix (StrategyKeyUnsupported key))))"

definition expand_matrix ::
  "yaml_api \<Rightarrow> string \<Rightarrow> string \<Rightarrow> yaml_value option \<Rightarrow> failure + matrix_plan"
where
  "expand_matrix Y workflow job_id strategy =
    (case strategy of
      None \<Rightarrow> Inr \<lparr>mp_combinations = [[]], mp_dynamic = None\<rparr>
    | Some (YMapping strategy) \<Rightarrow>
        bindE (foldE (\<lambda>_ entry. strategy_entry Y workflow job_id entry) () strategy) (\<lambda>_.
        (case mapping_get strategy ''matrix'' of
          None \<Rightarrow> Inr \<lparr>mp_combinations = [[]], mp_dynamic = None\<rparr>
        | Some matrix \<Rightarrow>
            if contains_expression matrix then
              Inr \<lparr>mp_combinations = [[]], mp_dynamic = Some matrix\<rparr>
            else
              bindE (expand_matrix_definition Y workflow job_id matrix) (\<lambda>combinations.
              Inr \<lparr>mp_combinations = combinations, mp_dynamic = None\<rparr>)))
    | Some _ \<Rightarrow> Inl (incompatible workflow job_id (OnMatrix StrategyNotMapping)))"

definition strategy_fail_fast :: "yaml_api \<Rightarrow> yaml_value option \<Rightarrow> bool" where
  "strategy_fail_fast Y strategy =
    (case Option.bind (Option.bind (Option.bind strategy (as_mapping Y))
            (\<lambda>m. mapping_get m ''fail-fast'')) (as_bool Y) of
      None \<Rightarrow> True | Some b \<Rightarrow> b)"

text \<open>\<open>usize::try_from\<close> on a \<open>u64\<close> cannot fail on the 64-bit targets of the agent.\<close>

definition strategy_max_parallel :: "yaml_api \<Rightarrow> yaml_value option \<Rightarrow> nat option" where
  "strategy_max_parallel Y strategy =
    map_option unat
      (Option.bind (Option.bind (Option.bind strategy (as_mapping Y))
        (\<lambda>m. mapping_get m ''max-parallel'')) (as_u64 Y))"

section \<open>Specification\<close>

definition product_spec :: "combination list \<Rightarrow> (string \<times> json list) list \<Rightarrow> combination list" where
  "product_spec start dimensions =
    foldl (\<lambda>combinations (key, vs).
        concat (map (\<lambda>c. map (\<lambda>v. bt_insert key v c) vs) combinations)) start dimensions"

definition includes_spec :: "combination list \<Rightarrow> combination list \<Rightarrow> combination list" where
  "includes_spec original includes =
    map (\<lambda>o'. fold (\<lambda>include c. bt_extend c include) (filter (include_compatible o') includes) o')
      original @
    filter (\<lambda>include. \<not> list_ex (\<lambda>o'. include_compatible o' include) original) includes"

definition matrix_spec :: "matrix_sections \<Rightarrow> combination list" where
  "matrix_spec s =
    (let start = (if ms_dimensions s = [] \<and> ms_includes s \<noteq> [] then [] else [[]]) in
     includes_spec
       (filter (\<lambda>c. \<not> list_ex (matrix_object_matches c) (ms_excludes s))
         (product_spec start (ms_dimensions s)))
       (ms_includes s))"

section \<open>The loops compute the specification\<close>

abbreviation too_large :: "string \<Rightarrow> string \<Rightarrow> failure" where
  "too_large workflow job_id \<equiv> incompatible workflow job_id (OnMatrix MatrixTooLarge)"

lemma push_loop:
  "foldE (\<lambda>product v. push_bounded w j product (f v)) acc vs =
    (if vs = [] \<or> length acc + length vs \<le> 256 then Inr (acc @ map f vs) else Inl (too_large w j))"
proof (induction vs arbitrary: acc)
  case (Cons v vs)
  have "push_bounded w j acc (f v) =
      (if length acc < 256 then Inr (acc @ [f v]) else Inl (too_large w j))"
    by (simp add: push_bounded_def ensure_def Suc_le_eq)
  with Cons [of "acc @ [f v]"] show ?case by (cases vs) auto
qed simp

lemma product_dimension_eq:
  assumes "vs \<noteq> []"
  shows "product_dimension w j combinations (key, vs) =
    (if length combinations * length vs \<le> 256
     then Inr (concat (map (\<lambda>c. map (\<lambda>v. bt_insert key v c) vs) combinations))
     else Inl (too_large w j))"
proof -
  have "foldE (\<lambda>product c. foldE (\<lambda>product v. push_bounded w j product (bt_insert key v c)) product vs)
      acc combinations =
    (if combinations = [] \<or> length acc + length combinations * length vs \<le> 256
     then Inr (acc @ concat (map (\<lambda>c. map (\<lambda>v. bt_insert key v c) vs) combinations))
     else Inl (too_large w j))" for acc
  proof (induction combinations arbitrary: acc)
    case (Cons c combinations)
    from assms have "length vs > 0" by simp
    with Cons show ?case
      by (cases combinations) (auto simp: push_loop assms)
  qed simp
  from this [of "[]"] show ?thesis by (simp add: product_dimension_def)
qed

lemma product_spec_Cons:
  "product_spec start ((key, vs) # dims) =
    product_spec (concat (map (\<lambda>c. map (\<lambda>v. bt_insert key v c) vs) start)) dims"
  by (simp add: product_spec_def)

lemma length_product_spec:
  "length (product_spec start dims) = length start * prod_list (map (length \<circ> snd) dims)"
proof (induction dims arbitrary: start)
  case (Cons d dims)
  obtain key vs where d: "d = (key, vs)" by (cases d)
  show ?case by (simp add: d product_spec_Cons Cons length_concat sum_list_triv o_def)
qed (simp add: product_spec_def)

lemma product_loop:
  assumes "\<forall>d\<in>set dims. snd d \<noteq> []" "length start \<le> 256"
  shows "foldE (product_dimension w j) start dims =
    (if length (product_spec start dims) \<le> 256 then Inr (product_spec start dims)
     else Inl (too_large w j))"
  using assms
proof (induction dims arbitrary: start)
  case (Cons d dims)
  obtain key vs where d: "d = (key, vs)" by (cases d)
  let ?next = "concat (map (\<lambda>c. map (\<lambda>v. bt_insert key v c) vs) start)"
  have len: "length ?next = length start * length vs"
    by (simp add: length_concat o_def sum_list_triv)
  have "prod_list (map (length \<circ> snd) dims) \<ge> 1"
    using Cons.prems(1) by (induction dims) (auto simp: Suc_le_eq)
  then have "length start * length vs \<le> length (product_spec ?next dims)"
    by (simp add: length_product_spec len)
  with Cons show ?case
    by (auto simp: d product_dimension_eq product_spec_Cons len)
qed (simp add: product_spec_def)

lemma include_originals:
  assumes "length ys = length original"
  shows "foldE (include_original inc) (xs @ ys @ zs, applied) (enumerate (length xs) original) =
    Inr (xs @ map2 (\<lambda>o' c. if include_compatible o' inc then bt_extend c inc else c)
           original ys @ zs,
         applied \<or> list_ex (\<lambda>o'. include_compatible o' inc) original)"
  using assms
proof (induction original arbitrary: xs ys applied)
  case (Cons o' original)
  then obtain y ys' where ys: "ys = y # ys'" "length ys' = length original"
    by (metis length_Suc_conv)
  let ?y = "if include_compatible o' inc then bt_extend y inc else y"
  have step: "include_original inc (xs @ (y # ys') @ zs, applied) (length xs, o') =
      Inr ((xs @ [?y]) @ ys' @ zs, applied \<or> include_compatible o' inc)"
    by (simp add: include_original_def ensure_def list_update_append nth_append)
  have "enumerate (length xs) (o' # original) = (length xs, o') # enumerate (length (xs @ [?y])) original"
    by simp
  then show ?case
    using Cons.IH [OF ys(2), of "xs @ [?y]" "applied \<or> include_compatible o' inc"]
    by (simp only: ys(1) foldE.simps step bindE.simps) simp
qed simp

lemma include_entry_eq:
  assumes "length ys = length original"
  shows "include_entry w j original (ys @ zs) inc =
    (let zs' = (if list_ex (\<lambda>o'. include_compatible o' inc) original then zs else zs @ [inc])
     in if length original + length zs' \<le> 256
        then Inr (map2 (\<lambda>o' c. if include_compatible o' inc then bt_extend c inc else c)
               original ys @ zs')
        else Inl (too_large w j))"
  using include_originals [OF assms, of inc "[]" zs False] assms
  by (auto simp: include_entry_def Let_def ensure_def)

lemma includes_loop:
  assumes "length ys = length original" "length original + length zs \<le> 256"
  shows "foldE (include_entry w j original) (ys @ zs) incs =
    (let new = filter (\<lambda>inc. \<not> list_ex (\<lambda>o'. include_compatible o' inc) original) incs in
     if length original + length zs + length new \<le> 256
     then Inr (map2 (\<lambda>o' c. fold (\<lambda>inc c. bt_extend c inc)
            (filter (include_compatible o') incs) c) original ys @ zs @ new)
     else Inl (too_large w j))"
  using assms
proof (induction incs arbitrary: ys zs)
  case Nil
  have "map2 (\<lambda>_. id) original ys = ys" using Nil(1) by (induction original ys rule: list_induct2') auto
  with Nil show ?case by (simp add: id_def)
next
  case (Cons inc incs)
  let ?f = "\<lambda>o' c. if include_compatible o' inc then bt_extend c inc else c"
  let ?g = "\<lambda>o' c. fold (\<lambda>inc c. bt_extend c inc) (filter (include_compatible o') incs) c"
  have compose: "map2 ?g original (map2 ?f original ys) =
      map2 (\<lambda>o' c. fold (\<lambda>inc c. bt_extend c inc)
        (filter (include_compatible o') (inc # incs)) c) original ys"
    using Cons.prems(1) by (induction original ys rule: list_induct2') auto
  have len: "length (map2 ?f original ys) = length original" using Cons.prems(1) by simp
  show ?case
  proof (cases "list_ex (\<lambda>o'. include_compatible o' inc) original")
    case True
    with Cons.prems Cons.IH [OF len, of zs] compose show ?thesis
      by (simp add: include_entry_eq Let_def)
  next
    case False
    with Cons.prems Cons.IH [OF len, of "zs @ [inc]"] compose show ?thesis
      by (simp add: include_entry_eq Let_def)
  qed
qed

lemma expand_sections_eq:
  assumes "\<forall>d\<in>set (ms_dimensions s). snd d \<noteq> []"
  shows "expand_sections w j s =
    (if length (product_spec (if ms_dimensions s = [] \<and> ms_includes s \<noteq> [] then [] else [[]])
          (ms_dimensions s)) \<le> 256 \<and> length (matrix_spec s) \<le> 256
     then Inr (matrix_spec s) else Inl (too_large w j))"
proof -
  let ?start = "if ms_dimensions s = [] \<and> ms_includes s \<noteq> [] then [] else [[]]"
  let ?product = "product_spec ?start (ms_dimensions s)"
  let ?original = "filter (\<lambda>c. \<not> list_ex (matrix_object_matches c) (ms_excludes s)) ?product"
  have pairs: "map2 f xs xs = map (\<lambda>x. f x x) xs" for f :: "combination \<Rightarrow> combination \<Rightarrow> combination" and xs
    by (induction xs) auto
  have "length ?original \<le> 256" if "length ?product \<le> 256"
    using that length_filter_le [of _ ?product] le_trans by blast
  with includes_loop [of ?original ?original "[]" w j "ms_includes s"]
  show ?thesis
    by (auto simp: expand_sections_def product_loop [OF assms] matrix_spec_def includes_spec_def
        Let_def pairs)
qed

lemma matrix_section_dimensions:
  assumes "matrix_section Y w j s entry = Inr s'" "\<forall>d\<in>set (ms_dimensions s). snd d \<noteq> []"
  shows "\<forall>d\<in>set (ms_dimensions s'). snd d \<noteq> []"
  using assms
  by (auto simp: matrix_section_def result_simps split: if_splits yaml_value.splits)

lemma sections_dimensions:
  assumes "foldE (matrix_section Y w j) \<lparr>ms_dimensions = [], ms_includes = [], ms_excludes = []\<rparr> entries = Inr s"
  shows "\<forall>d\<in>set (ms_dimensions s). snd d \<noteq> []"
  by (rule foldE_invariant [where P = "\<lambda>s. \<forall>d\<in>set (ms_dimensions s). snd d \<noteq> []", OF assms])
    (auto dest: matrix_section_dimensions)

section \<open>Properties\<close>

text \<open>
  C9. Matrix expansion returns the specified combinations, in the specified order, exactly
  when neither the Cartesian product nor the final list has more than 256 entries, and
  otherwise reports GitHub's limit: the nested loops with their early exits, the exclusion
  and the in-place extension by include entries compute \<open>matrix_spec\<close>.
\<close>

theorem expand_matrix_definition_correct:
  assumes "foldE (matrix_section Y workflow job_id)
      \<lparr>ms_dimensions = [], ms_includes = [], ms_excludes = []\<rparr> entries = Inr s"
  shows "expand_matrix_definition Y workflow job_id (YMapping entries) =
    (if prod_list (map (length \<circ> snd) (ms_dimensions s)) \<le> 256 \<and> length (matrix_spec s) \<le> 256
     then Inr (matrix_spec s) else Inl (too_large workflow job_id))"
  using assms expand_sections_eq [OF sections_dimensions [OF assms]]
  by (simp add: expand_matrix_definition_def length_product_spec)

theorem expand_matrix_definition_correct_witness:
  "expand_matrix_definition plain_yaml ''ci'' ''test''
     (YMapping [(YString ''os'', YSequence [YString ''a'', YString ''b'']),
        (YString ''include'', YSequence
          [YMapping [(YString ''os'', YString ''a''), (YString ''x'', YString ''1'')]])]) =
   Inr [[(''os'', JString ''a''), (''x'', JString ''1'')], [(''os'', JString ''b'')]]"
proof -
  let ?s = "\<lparr>ms_dimensions = [(''os'', [JString ''a'', JString ''b''])],
    ms_includes = [[(''os'', JString ''a''), (''x'', JString ''1'')]], ms_excludes = []\<rparr>"
  have "foldE (matrix_section plain_yaml ''ci'' ''test'')
      \<lparr>ms_dimensions = [], ms_includes = [], ms_excludes = []\<rparr>
      [(YString ''os'', YSequence [YString ''a'', YString ''b'']),
       (YString ''include'', YSequence
          [YMapping [(YString ''os'', YString ''a''), (YString ''x'', YString ''1'')]])] = Inr ?s"
    by code_simp
  moreover have "matrix_spec ?s =
      [[(''os'', JString ''a''), (''x'', JString ''1'')], [(''os'', JString ''b'')]]"
    by code_simp
  ultimately show ?thesis using expand_matrix_definition_correct by simp
qed

text \<open>\<open>c\<close> gives each dimension one of its values and agrees with \<open>c0\<close> elsewhere.\<close>

definition assigns :: "combination \<Rightarrow> (string \<times> json list) list \<Rightarrow> combination \<Rightarrow> bool" where
  "assigns c0 dims c \<longleftrightarrow>
    (\<forall>k. case map_of dims k of None \<Rightarrow> bt_get c k = bt_get c0 k
       | Some vs \<Rightarrow> \<exists>v\<in>set vs. bt_get c k = Some v)"

lemma assigns_Nil: "assigns c0 [] c \<longleftrightarrow> bt_get c = bt_get c0"
  by (auto simp: assigns_def)

lemma assigns_Cons:
  assumes "bt_wf c0" "map_of dims key = None"
  shows "assigns c0 ((key, vs) # dims) c \<longleftrightarrow> (\<exists>v\<in>set vs. assigns (bt_insert key v c0) dims c)"
proof -
  have split: "(\<forall>k. P k) \<longleftrightarrow> P key \<and> (\<forall>k. k \<noteq> key \<longrightarrow> P k)" for P :: "string \<Rightarrow> bool"
    by auto
  show ?thesis
    unfolding assigns_def by (subst (1 2) split) (auto simp: assms bt_get_insert cong: option.case_cong)
qed

lemma product_spec_member:
  assumes "distinct (map fst dims)" "\<forall>c\<in>set start. bt_wf c"
  shows "c \<in> set (product_spec start dims) \<longleftrightarrow> bt_wf c \<and> (\<exists>c0\<in>set start. assigns c0 dims c)"
  using assms
proof (induction dims arbitrary: start)
  case Nil
  then show ?case by (auto simp: product_spec_def assigns_Nil) (metis bt_ext)
next
  case (Cons d dims)
  obtain key vs where d: "d = (key, vs)" by (cases d)
  let ?next = "concat (map (\<lambda>c. map (\<lambda>v. bt_insert key v c) vs) start)"
  from Cons.prems(1) have fresh: "map_of dims key = None"
    by (simp add: d map_of_eq_None_iff)
  have wf: "\<forall>c\<in>set ?next. bt_wf c" using Cons.prems(2) by (auto intro: bt_wf_insert)
  have "c \<in> set (product_spec start (d # dims)) \<longleftrightarrow>
      bt_wf c \<and> (\<exists>c1\<in>set ?next. assigns c1 dims c)"
    using Cons.IH [OF _ wf] Cons.prems(1) by (simp add: d product_spec_Cons)
  also have "(\<exists>c1\<in>set ?next. assigns c1 dims c) \<longleftrightarrow> (\<exists>c0\<in>set start. assigns c0 (d # dims) c)"
    using Cons.prems(2) by (auto simp: d assigns_Cons fresh)
  finally show ?case .
qed

text \<open>
  The product loop builds every assignment of a value of its list to each dimension,
  and nothing else: a combination is in the result exactly when it is an ordered map that
  gives each dimension one of its values and has no other key.
\<close>

theorem product_is_cartesian:
  assumes "foldE (product_dimension workflow job_id) [[]] dims = Inr combinations"
    and "distinct (map fst dims)" and "\<forall>d\<in>set dims. snd d \<noteq> []"
  shows "c \<in> set combinations \<longleftrightarrow> bt_wf c \<and>
    (\<forall>k. case map_of dims k of None \<Rightarrow> bt_get c k = None
       | Some vs \<Rightarrow> \<exists>v\<in>set vs. bt_get c k = Some v)"
proof -
  have "combinations = product_spec [[]] dims"
    using assms(1,3) by (simp add: product_loop split: if_splits)
  then show ?thesis
    using product_spec_member [OF assms(2), of "[[]]" c]
    by (simp add: assigns_def cong: option.case_cong)
qed

theorem product_is_cartesian_witness:
  "[(''os'', JString ''a''), (''v'', JNumber ''1'')] \<in> set
     [[(''os'', JString ''a''), (''v'', JNumber ''1'')], [(''os'', JString ''b''), (''v'', JNumber ''1'')]]"
proof -
  let ?dims = "[(''v'', [JNumber ''1'']), (''os'', [JString ''a'', JString ''b''])]"
  have "foldE (product_dimension ''ci'' ''j'') [[]] ?dims = Inr
     [[(''os'', JString ''a''), (''v'', JNumber ''1'')], [(''os'', JString ''b''), (''v'', JNumber ''1'')]]"
    by code_simp
  from product_is_cartesian [OF this, of "[(''os'', JString ''a''), (''v'', JNumber ''1'')]"]
  show ?thesis by simp
qed

lemma no_fault_matrix_json [simp]: "no_fault (matrix_json Y w j v)"
  by (simp add: matrix_json_def split: sum.splits)

lemma no_fault_matrix_objects [simp]: "no_fault (matrix_objects Y w j name v)"
  by (auto simp: matrix_objects_def matrix_object_def split: yaml_value.splits
      intro!: no_fault_mapE no_fault_bindE)

lemma no_fault_matrix_section [simp]: "no_fault (matrix_section Y w j s e)"
  by (auto simp: matrix_section_def split: yaml_value.splits intro!: no_fault_bindE no_fault_mapE)

lemma no_fault_expand_matrix_definition: "no_fault (expand_matrix_definition Y w j matrix)"
proof (cases matrix)
  case (YMapping entries)
  have "no_fault (foldE (matrix_section Y w j)
      \<lparr>ms_dimensions = [], ms_includes = [], ms_excludes = []\<rparr> entries)"
    by (rule no_fault_foldE [where P = "\<lambda>_. True"]) auto
  then show ?thesis
    by (auto simp: YMapping expand_matrix_definition_def expand_sections_eq
        dest: sections_dimensions intro!: no_fault_bindE)
qed (auto simp: expand_matrix_definition_def)

lemma expand_matrix_definition_bound:
  "expand_matrix_definition Y w j matrix = Inr combinations \<Longrightarrow> length combinations \<le> 256"
  by (auto simp: expand_matrix_definition_def bindE_Inr expand_sections_eq
      dest!: sections_dimensions split: yaml_value.splits if_splits)

lemma no_fault_expand_matrix: "no_fault (expand_matrix Y w j strategy)"
  by (auto simp: expand_matrix_def strategy_entry_def
      split: option.splits yaml_value.splits
      intro!: no_fault_bindE no_fault_foldE [where P = "\<lambda>_. True"] no_fault_expand_matrix_definition)

text \<open>
  Matrix expansion never indexes past the end of the list of combinations, and a
  strategy it accepts yields at most 256 combinations; a strategy whose matrix holds an
  expression is deferred with a single template.
\<close>

theorem expand_matrix_bounded:
  "no_fault (expand_matrix Y workflow job_id strategy) \<and>
   (expand_matrix Y workflow job_id strategy = Inr plan \<longrightarrow>
     length (mp_combinations plan) \<le> 256 \<and>
     (mp_dynamic plan \<noteq> None \<longrightarrow> mp_combinations plan = [[]] \<and>
       contains_expression (the (mp_dynamic plan))))"
  using no_fault_expand_matrix [of Y workflow job_id strategy]
  by (auto simp: expand_matrix_def bindE_Inr
      split: option.splits yaml_value.splits if_splits dest: expand_matrix_definition_bound)

theorem expand_matrix_bounded_witness:
  "length (mp_combinations \<lparr>mp_combinations = [[(''os'', JString ''a'')]], mp_dynamic = None\<rparr>) \<le> 256"
proof -
  have "expand_matrix plain_yaml ''ci'' ''j''
      (Some (YMapping [(YString ''matrix'', YMapping [(YString ''os'', YSequence [YString ''a''])])]))
    = Inr \<lparr>mp_combinations = [[(''os'', JString ''a'')]], mp_dynamic = None\<rparr>"
    by code_simp
  then show ?thesis using expand_matrix_bounded by blast
qed

end
