(* ===== verification/Evaluation.thy ===== *)
theory Evaluation
  imports Expression
begin

text \<open>
  Evaluation of expressions: \<open>EvaluationContext\<close> of the expression crate with its
  operators, functions, property access and \<open>render\<close>. The value semantics of the
  third-party crate (\<open>sema()\<close>, \<open>as_boolean\<close>, the conversions from and to JSON) and of
  \<open>serde_json\<close>, and the Unicode tables behind \<open>to_uppercase\<close>, are the fields of
  \<open>expr_api\<close>; so is \<open>hash_files\<close>, which reads the file system.
\<close>

section \<open>Values\<close>

text \<open>A number is an \<open>f64\<close>, by its bits. An object is its entries in iteration order.\<close>

datatype evaluation =
    EString string
  | ENumber "64 word"
  | EBoolean bool
  | ENull
  | EArray "evaluation list"
  | EObject "(string \<times> evaluation) list"

datatype execution_status = StatusSuccess | StatusFailure | StatusCancelled | StatusSkipped

datatype sema_order = SemaLess | SemaEqual | SemaGreater

record expr_api =
  parse_source :: parser
  sema_string :: "evaluation \<Rightarrow> string"
  as_boolean :: "evaluation \<Rightarrow> bool"
  sema_eq :: "evaluation \<Rightarrow> evaluation \<Rightarrow> bool"
  sema_cmp :: "evaluation \<Rightarrow> evaluation \<Rightarrow> sema_order option"
  evaluation_of_json :: "json \<Rightarrow> evaluation option"
  json_of_evaluation :: "evaluation \<Rightarrow> json option"
  json_to_string_pretty :: "json \<Rightarrow> string option"
  json_from_str :: "string \<Rightarrow> json option"
  to_uppercase :: "string \<Rightarrow> string"
  hash_workspace_files :: "string \<Rightarrow> string list \<Rightarrow> expr_failure + string"

record evaluation_context =
  ctx_roots :: "string \<Rightarrow> evaluation option"
  ctx_status :: execution_status
  ctx_workspace :: "string option"

definition invalid_function :: "string \<Rightarrow> expr_failure + 'a" where
  "invalid_function name = Inl (ExprErr (InvalidFunction name))"

fun evaluation_type :: "evaluation \<Rightarrow> string" where
  "evaluation_type (EString _) = ''a string''"
| "evaluation_type (ENumber _) = ''a number''"
| "evaluation_type (EBoolean _) = ''a boolean''"
| "evaluation_type ENull = ''null''"
| "evaluation_type (EArray _) = ''an array''"
| "evaluation_type (EObject _) = ''an object''"

fun json_type :: "json \<Rightarrow> string" where
  "json_type (JString _) = ''a string''"
| "json_type (JNumber _) = ''a number''"
| "json_type (JBool _) = ''a boolean''"
| "json_type JNull = ''null''"
| "json_type (JArray _) = ''an array''"
| "json_type (JObject _) = ''an object''"

fun evaluate_literal :: "literal \<Rightarrow> evaluation" where
  "evaluate_literal (LString v) = EString v"
| "evaluate_literal (LNumber v) = ENumber v"
| "evaluate_literal (LBoolean v) = EBoolean v"
| "evaluate_literal LNull = ENull"

section \<open>Contexts\<close>

definition new_context :: evaluation_context where
  "new_context = \<lparr>ctx_roots = (\<lambda>_. None), ctx_status = StatusSuccess, ctx_workspace = None\<rparr>"

definition set_status :: "evaluation_context \<Rightarrow> execution_status \<Rightarrow> evaluation_context" where
  "set_status self status = self\<lparr>ctx_status := status\<rparr>"

definition set_workspace :: "evaluation_context \<Rightarrow> string \<Rightarrow> evaluation_context" where
  "set_workspace self workspace = self\<lparr>ctx_workspace := Some workspace\<rparr>"

definition insert_json ::
  "expr_api \<Rightarrow> evaluation_context \<Rightarrow> string \<Rightarrow> json \<Rightarrow> expr_failure + evaluation_context"
where
  "insert_json A self name v =
    bindE (ok_or (evaluation_of_json A v) (ExprErr JsonConversion)) (\<lambda>v.
    Inr (self\<lparr>ctx_roots := (ctx_roots self)(to_ascii_lowercase name \<mapsto> v)\<rparr>))"

definition insert_string :: "evaluation_context \<Rightarrow> string \<Rightarrow> string \<Rightarrow> evaluation_context" where
  "insert_string self name v =
    self\<lparr>ctx_roots := (ctx_roots self)(to_ascii_lowercase name \<mapsto> EString v)\<rparr>"

text \<open>
  \<open>serde_json::Map::extend\<close> on the entries of an object. The method changes \<open>self\<close> even
  when it fails, so the model returns the context beside the result.
\<close>

definition object_extend :: "(string \<times> json) list \<Rightarrow> (string \<times> json) list \<Rightarrow> (string \<times> json) list" where
  "object_extend object entries = bt_extend object entries"

definition extend_json_object ::
  "expr_api \<Rightarrow> evaluation_context \<Rightarrow> string \<Rightarrow> (string \<times> json) list
    \<Rightarrow> evaluation_context \<times> (expr_failure + unit)"
where
  "extend_json_object A self name entries =
    (let key = to_ascii_lowercase name;
         removed = self\<lparr>ctx_roots := (ctx_roots self)(key := None)\<rparr>;
         current = (case ctx_roots self key of
             Some v \<Rightarrow> ok_or (json_of_evaluation A v) (ExprErr JsonConversion)
           | None \<Rightarrow> Inr (JObject [])) in
     case current of
       Inl e \<Rightarrow> (removed, Inl e)
     | Inr (JObject object) \<Rightarrow>
         (case insert_json A removed key (JObject (object_extend object entries)) of
           Inl e \<Rightarrow> (removed, Inl e)
         | Inr self' \<Rightarrow> (self', Inr ()))
     | Inr other \<Rightarrow> (removed, Inl (ExprErr (InvalidAccess name (json_type other)))))"

section \<open>Property access\<close>

text \<open>
  \<open>value.fract() == 0.0 && value >= 0.0\<close> and then \<open>value as usize\<close>, on the sign, exponent
  and mantissa of a double: the value of a whole non-negative finite number, saturated at
  the largest \<open>usize\<close>. Negative zero compares equal to zero.
\<close>

definition f64_whole :: "64 word \<Rightarrow> nat option" where
  "f64_whole w =
    (let n = unat w; negative = (2 ^ 63 \<le> n); ex = (n div 2 ^ 52) mod 2 ^ 11; m = n mod 2 ^ 52;
         mantissa = (if ex = 0 then m else 2 ^ 52 + m);
         scale = (if ex = 0 then 1 else ex) in
     if ex = 2047 then None
     else if negative \<and> mantissa \<noteq> 0 then None
     else if 1075 \<le> scale then Some (min (mantissa * 2 ^ (scale - 1075)) (2 ^ 64 - 1))
     else if 2 ^ (1075 - scale) dvd mantissa then Some (mantissa div 2 ^ (1075 - scale))
     else None)"

definition array_index :: "expr_api \<Rightarrow> evaluation \<Rightarrow> expr_failure + nat" where
  "array_index A index =
    (case index of
      ENumber w \<Rightarrow> ok_or (f64_whole w) (ExprErr (InvalidAccess (sema_string A index) ''an array''))
    | EString v \<Rightarrow> ok_or (parse_usize v) (ExprErr (InvalidAccess v ''an array''))
    | _ \<Rightarrow> Inl (ExprErr (InvalidAccess (sema_string A index) ''an array'')))"

definition access_value :: "expr_api \<Rightarrow> evaluation \<Rightarrow> evaluation \<Rightarrow> expr_failure + evaluation" where
  "access_value A v index =
    (let display_index = sema_string A index in
     case v of
       EObject entries \<Rightarrow>
         (case find (\<lambda>(key, _). eq_ignore_ascii_case key display_index) entries of
           Some (_, v) \<Rightarrow> Inr v
         | None \<Rightarrow> Inr (EString []))
     | EArray vs \<Rightarrow>
         bindE (array_index A index) (\<lambda>i.
         Inr (if i < length vs then vs ! i else EString []))
     | ENull \<Rightarrow> Inr ENull
     | EString s \<Rightarrow>
         if s = [] then Inr (EString s)
         else Inl (ExprErr (InvalidAccess display_index (evaluation_type v)))
     | other \<Rightarrow> Inl (ExprErr (InvalidAccess display_index (evaluation_type other))))"

datatype selection = One evaluation | Many "evaluation list"

fun access :: "expr_api \<Rightarrow> selection \<Rightarrow> evaluation \<Rightarrow> expr_failure + selection" where
  "access A (One v) index = bindE (access_value A v index) (\<lambda>v. Inr (One v))"
| "access A (Many vs) index =
    bindE (mapE (\<lambda>v. access_value A v index) vs) (\<lambda>vs. Inr (Many vs))"

fun expand :: "evaluation \<Rightarrow> expr_failure + evaluation list" where
  "expand (EArray vs) = Inr vs"
| "expand (EObject entries) = Inr (map snd entries)"
| "expand other = Inl (ExprErr (InvalidAccess ''*'' (evaluation_type other)))"

fun wildcard :: "selection \<Rightarrow> expr_failure + selection" where
  "wildcard (One v) = bindE (expand v) (\<lambda>vs. Inr (Many vs))"
| "wildcard (Many vs) = bindE (mapE expand vs) (\<lambda>vss. Inr (Many (concat vss)))"

fun finish :: "selection \<Rightarrow> evaluation" where
  "finish (One v) = v"
| "finish (Many vs) = EArray vs"

section \<open>Functions\<close>

fun is_container :: "evaluation \<Rightarrow> bool" where
  "is_container (EArray _) = True"
| "is_container (EObject _) = True"
| "is_container _ = False"

definition contains :: "expr_api \<Rightarrow> evaluation list \<Rightarrow> expr_failure + evaluation" where
  "contains A arguments =
    (case arguments of
      [haystack, needle] \<Rightarrow>
        (case haystack of
          EArray vs \<Rightarrow> Inr (EBoolean (list_ex (\<lambda>v. sema_eq A v needle) vs))
        | EObject _ \<Rightarrow> invalid_function ''contains''
        | _ \<Rightarrow> Inr (EBoolean (contains_str (to_uppercase A (sema_string A haystack))
                  (to_uppercase A (sema_string A needle)))))
    | _ \<Rightarrow> invalid_function ''contains'')"

definition starts_or_ends_with ::
  "expr_api \<Rightarrow> evaluation list \<Rightarrow> bool \<Rightarrow> expr_failure + evaluation"
where
  "starts_or_ends_with A arguments starts =
    (case arguments of
      [haystack, needle] \<Rightarrow>
        if is_container haystack \<or> is_container needle then Inr (EBoolean False)
        else
          (let haystack = to_uppercase A (sema_string A haystack);
               needle = to_uppercase A (sema_string A needle) in
           Inr (EBoolean (if starts then starts_with haystack needle else ends_with haystack needle)))
    | _ \<Rightarrow> invalid_function (if starts then ''startsWith'' else ''endsWith''))"

text \<open>
  The loop of \<open>format_values\<close> on the rest of the template, \<open>template[cursor..]\<close>. The
  placeholder's index is a \<open>usize\<close>; \<open>index + 1\<close> wraps around, as it does in the release
  profile, which does not check overflow.
\<close>

definition format_placeholder :: "expr_api \<Rightarrow> evaluation list \<Rightarrow> string \<Rightarrow> expr_failure + string" where
  "format_placeholder A arguments inner =
    (case parse_usize (hd (split_char (CHR '':'') inner)) of
      None \<Rightarrow> invalid_function ''format''
    | Some index \<Rightarrow>
        let i = (index + 1) mod 2 ^ 64 in
        if i < length arguments then Inr (sema_string A (arguments ! i))
        else invalid_function ''format'')"

function format_loop :: "expr_api \<Rightarrow> evaluation list \<Rightarrow> string \<Rightarrow> expr_failure + string" where
  "format_loop A arguments [] = Inr []"
| "format_loop A arguments (c # s) =
    (if c = CHR ''{'' \<and> s \<noteq> [] \<and> hd s = CHR ''{'' then
       bindE (format_loop A arguments (tl s)) (\<lambda>output. Inr (CHR ''{'' # output))
     else if c = CHR ''}'' \<and> s \<noteq> [] \<and> hd s = CHR ''}'' then
       bindE (format_loop A arguments (tl s)) (\<lambda>output. Inr (CHR ''}'' # output))
     else if c = CHR ''{'' then
       (case split_once (CHR ''}'') s of
         None \<Rightarrow> invalid_function ''format''
       | Some (inner, rest) \<Rightarrow>
           bindE (format_placeholder A arguments inner) (\<lambda>v.
           bindE (format_loop A arguments rest) (\<lambda>output. Inr (v @ output))))
     else if c = CHR ''}'' then invalid_function ''format''
     else
       bindE (format_loop A arguments (dropWhile utf8_continuation s)) (\<lambda>output.
       Inr (c # takeWhile utf8_continuation s @ output)))"
  by pat_completeness auto
termination
  by (relation "measure (\<lambda>(_, _, s). length s)")
    (auto simp: le_imp_less_Suc length_dropWhile_le split_once_Some)

definition format_values :: "expr_api \<Rightarrow> evaluation list \<Rightarrow> expr_failure + evaluation" where
  "format_values A arguments =
    (case arguments of
      [] \<Rightarrow> invalid_function ''format''
    | template # _ \<Rightarrow>
        bindE (format_loop A arguments (sema_string A template)) (\<lambda>output.
        Inr (EString output)))"

definition join :: "expr_api \<Rightarrow> evaluation list \<Rightarrow> expr_failure + evaluation" where
  "join A arguments =
    (case arguments of
      [] \<Rightarrow> invalid_function ''join''
    | v # rest \<Rightarrow>
        if length arguments > 2 then invalid_function ''join''
        else
          (let separator = (case rest of [] \<Rightarrow> '','' | s # _ \<Rightarrow> sema_string A s) in
           Inr (EString (case v of
               EArray vs \<Rightarrow> join_with separator (map (sema_string A) vs)
             | EObject _ \<Rightarrow> []
             | v \<Rightarrow> sema_string A v))))"

definition to_json :: "expr_api \<Rightarrow> evaluation list \<Rightarrow> expr_failure + evaluation" where
  "to_json A arguments =
    (case arguments of
      [v] \<Rightarrow>
        bindE (ok_or (json_of_evaluation A v) (ExprErr JsonConversion)) (\<lambda>j.
        bindE (ok_or (json_to_string_pretty A j) (ExprErr JsonConversion)) (\<lambda>text.
        Inr (EString text)))
    | _ \<Rightarrow> invalid_function ''toJSON'')"

definition from_json :: "expr_api \<Rightarrow> evaluation list \<Rightarrow> expr_failure + evaluation" where
  "from_json A arguments =
    (case arguments of
      [v] \<Rightarrow>
        bindE (ok_or (json_from_str A (sema_string A v)) (ExprErr (InvalidFunction ''fromJSON''))) (\<lambda>j.
        ok_or (evaluation_of_json A j) (ExprErr JsonConversion))
    | _ \<Rightarrow> invalid_function ''fromJSON'')"

text \<open>\<open>case_pairs\<close> is the loop over \<open>chunks_exact(2)\<close>.\<close>

fun case_pairs :: "evaluation \<Rightarrow> evaluation list \<Rightarrow> expr_failure + evaluation" where
  "case_pairs otherwise (condition # v # rest) =
    (case condition of
      EBoolean True \<Rightarrow> Inr v
    | EBoolean False \<Rightarrow> case_pairs otherwise rest
    | _ \<Rightarrow> invalid_function ''case'')"
| "case_pairs otherwise _ = Inr otherwise"

definition case_function :: "evaluation list \<Rightarrow> expr_failure + evaluation" where
  "case_function arguments =
    (if length arguments < 3 \<or> even (length arguments) then invalid_function ''case''
     else case_pairs (last arguments) (butlast arguments))"

definition hash_files_call ::
  "expr_api \<Rightarrow> evaluation_context \<Rightarrow> evaluation list \<Rightarrow> expr_failure + evaluation"
where
  "hash_files_call A self arguments =
    bindE (ok_or (ctx_workspace self) (ExprErr (UnsupportedFunction ''hashFiles''))) (\<lambda>workspace.
    bindE (hash_workspace_files A workspace (map (sema_string A) arguments)) (\<lambda>digest.
    Inr (EString digest)))"

fun status_function :: "expression_function \<Rightarrow> execution_status \<Rightarrow> bool option" where
  "status_function FnSuccess status = Some (status = StatusSuccess)"
| "status_function FnAlways status = Some True"
| "status_function FnCancelled status = Some (status = StatusCancelled)"
| "status_function FnFailure status = Some (status = StatusFailure)"
| "status_function _ status = None"

fun apply_function ::
  "expr_api \<Rightarrow> evaluation_context \<Rightarrow> expression_function \<Rightarrow> evaluation list
    \<Rightarrow> expr_failure + evaluation"
where
  "apply_function A self FnContains arguments = contains A arguments"
| "apply_function A self FnStartsWith arguments = starts_or_ends_with A arguments True"
| "apply_function A self FnEndsWith arguments = starts_or_ends_with A arguments False"
| "apply_function A self FnFormat arguments = format_values A arguments"
| "apply_function A self FnJoin arguments = join A arguments"
| "apply_function A self FnToJSON arguments = to_json A arguments"
| "apply_function A self FnFromJSON arguments = from_json A arguments"
| "apply_function A self FnCase arguments = case_function arguments"
| "apply_function A self FnHashFiles arguments = hash_files_call A self arguments"
| "apply_function A self _ arguments = Inl ExprPanic"

section \<open>Evaluation\<close>

definition lookup_root :: "evaluation_context \<Rightarrow> string \<Rightarrow> expr_failure + evaluation" where
  "lookup_root self identifier =
    ok_or (ctx_roots self (to_ascii_lowercase identifier)) (ExprErr (UnknownContext identifier))"

fun compare_op :: "expr_api \<Rightarrow> bin_op \<Rightarrow> evaluation \<Rightarrow> evaluation \<Rightarrow> expr_failure + evaluation" where
  "compare_op A OpEq l r = Inr (EBoolean (sema_eq A l r))"
| "compare_op A OpNeq l r = Inr (EBoolean (\<not> sema_eq A l r))"
| "compare_op A OpGt l r = Inr (EBoolean (sema_cmp A l r = Some SemaGreater))"
| "compare_op A OpGe l r = Inr (EBoolean (sema_cmp A l r \<in> {Some SemaGreater, Some SemaEqual}))"
| "compare_op A OpLt l r = Inr (EBoolean (sema_cmp A l r = Some SemaLess))"
| "compare_op A OpLe l r = Inr (EBoolean (sema_cmp A l r \<in> {Some SemaLess, Some SemaEqual}))"
| "compare_op A _ l r = Inl ExprPanic"

text \<open>
  \<open>evaluate_expr\<close> with \<open>evaluate_context\<close>, \<open>evaluate_call\<close> and \<open>evaluate_binary\<close> in its
  branches. The head of a context that is an identifier is looked up in the roots, which
  is what \<open>evaluate_expr\<close> does with an identifier.
\<close>

function evaluate_expr :: "expr_api \<Rightarrow> evaluation_context \<Rightarrow> expr \<Rightarrow> expr_failure + evaluation" where
  "evaluate_expr A self (Literal l) = Inr (evaluate_literal l)"
| "evaluate_expr A self (Context parts) =
    (case parts of
      [] \<Rightarrow> Inl (ExprErr (UnknownContext []))
    | head # rest \<Rightarrow>
        bindE (evaluate_expr A self head) (\<lambda>first.
        bindE (foldE (\<lambda>selection part.
            case part of
              Identifier identifier \<Rightarrow> access A selection (EString identifier)
            | Index index \<Rightarrow> bindE (evaluate_expr A self index) (\<lambda>i. access A selection i)
            | Star \<Rightarrow> wildcard selection
            | _ \<Rightarrow> bindE (evaluate_expr A self part) (\<lambda>i. access A selection i))
          (One first) rest) (\<lambda>selection.
        Inr (finish selection))))"
| "evaluate_expr A self (Call func args) =
    (case status_function func (ctx_status self) of
      Some b \<Rightarrow> Inr (EBoolean b)
    | None \<Rightarrow>
        bindE (mapE (\<lambda>argument. evaluate_expr A self argument) args) (\<lambda>arguments.
        apply_function A self func arguments))"
| "evaluate_expr A self (BinExpr lhs op rhs) =
    bindE (evaluate_expr A self lhs) (\<lambda>left.
    (case op of
      OpAnd \<Rightarrow> if as_boolean A left then evaluate_expr A self rhs else Inr left
    | OpOr \<Rightarrow> if as_boolean A left then Inr left else evaluate_expr A self rhs
    | _ \<Rightarrow>
        bindE (evaluate_expr A self rhs) (\<lambda>right.
        compare_op A op left right)))"
| "evaluate_expr A self (UnExpr op e) =
    bindE (evaluate_expr A self e) (\<lambda>v. Inr (EBoolean (\<not> as_boolean A v)))"
| "evaluate_expr A self (Identifier identifier) = lookup_root self identifier"
| "evaluate_expr A self (Index index) = evaluate_expr A self index"
| "evaluate_expr A self Star = Inl (ExprErr (InvalidAccess ''*'' ''a root expression''))"
  by pat_completeness auto
termination
  by (relation "measure (\<lambda>(_, _, e). size e)") (auto dest: size_in_list)

definition evaluate :: "expr_api \<Rightarrow> evaluation_context \<Rightarrow> string \<Rightarrow> expr_failure + evaluation" where
  "evaluate A self source =
    bindE (parse_expr (parse_source A) (unwrap_expression source)) (\<lambda>expression.
    evaluate_expr A self expression)"

definition evaluate_json :: "expr_api \<Rightarrow> evaluation_context \<Rightarrow> string \<Rightarrow> expr_failure + json" where
  "evaluate_json A self source =
    bindE (evaluate A self source) (\<lambda>v. ok_or (json_of_evaluation A v) (ExprErr JsonConversion))"

definition evaluate_condition :: "expr_api \<Rightarrow> evaluation_context \<Rightarrow> string \<Rightarrow> expr_failure + bool" where
  "evaluate_condition A self source =
    bindE (evaluate A self source) (\<lambda>v. Inr (as_boolean A v))"

text \<open>The \<open>while let\<close> loop of \<open>render\<close> from \<open>cursor\<close> on, and the text after it.\<close>

function render_loop ::
  "expr_api \<Rightarrow> evaluation_context \<Rightarrow> string \<Rightarrow> nat \<Rightarrow> string \<Rightarrow> expr_failure + string"
where
  "render_loop A self template cursor rendered =
    bindE (slice_from ExprPanic template cursor) (\<lambda>rest.
    (case find_str rest ''${{'' of
      None \<Rightarrow> Inr (rendered @ rest)
    | Some relative_start \<Rightarrow>
        bindE (slice ExprPanic template cursor (cursor + relative_start)) (\<lambda>before.
        bindE (find_expression_end template (cursor + relative_start + 3)) (\<lambda>found.
        bindE (ok_or found (ExprErr UnclosedTemplate)) (\<lambda>expression_end.
        bindE (slice ExprPanic template (cursor + relative_start + 3) expression_end) (\<lambda>source.
        bindE (evaluate A self source) (\<lambda>v.
        render_loop A self template (expression_end + 2)
          (rendered @ before @ sema_string A v))))))))"
  by pat_completeness auto
termination
proof (relation "measure (\<lambda>(_, _, template, cursor, _). length template - cursor)", goal_cases)
  case (2 A self template cursor rendered rest relative_start before found expression_end source v)
  then show ?case
    using find_open_bound [OF 2(1,2)]
      find_expression_end_ge [of template "cursor + relative_start + 3" expression_end]
    by (auto simp: ok_or_Inr)
qed simp

declare render_loop.simps [simp del]

definition render :: "expr_api \<Rightarrow> evaluation_context \<Rightarrow> string \<Rightarrow> expr_failure + string" where
  "render A self template = render_loop A self template 0 []"

section \<open>The analysis covers what evaluation reads\<close>

text \<open>
  \<open>covered\<close>: one analysis is part of another. \<open>agree\<close>: two contexts give an expression
  with this analysis the same roots, status and workspace, as far as it uses them.
  \<open>additive\<close>: a step of the analysis only adds, and what it adds does not depend on
  what is there.
\<close>

definition covered :: "expression_analysis \<Rightarrow> expression_analysis \<Rightarrow> bool" where
  "covered a b \<longleftrightarrow> context_roots a \<subseteq> context_roots b \<and>
    (uses_status_function a \<longrightarrow> uses_status_function b) \<and> (uses_hash_files a \<longrightarrow> uses_hash_files b)"

definition agree :: "expression_analysis \<Rightarrow> evaluation_context \<Rightarrow> evaluation_context \<Rightarrow> bool" where
  "agree a c d \<longleftrightarrow> (\<forall>r\<in>context_roots a. ctx_roots c r = ctx_roots d r) \<and>
    (uses_status_function a \<longrightarrow> ctx_status c = ctx_status d) \<and>
    (uses_hash_files a \<longrightarrow> ctx_workspace c = ctx_workspace d)"

definition additive :: "(expression_analysis \<Rightarrow> expression_analysis) \<Rightarrow> bool" where
  "additive f \<longleftrightarrow> (\<forall>a. f a = merge a (f empty_analysis))"

lemma merge_assoc: "merge (merge a b) c = merge a (merge b c)"
  by (auto simp: merge_def)

lemma merge_empty [simp]: "merge a empty_analysis = a" "merge empty_analysis a = a"
  by (simp_all add: merge_def empty_analysis_def)

lemma covered_merge: "covered a (merge a b)" "covered b (merge a b)"
  by (auto simp: covered_def merge_def)

lemma covered_trans: "covered a b \<Longrightarrow> covered b c \<Longrightarrow> covered a c"
  by (auto simp: covered_def)

lemma agree_merge: "agree (merge a b) c d \<longleftrightarrow> agree a c d \<and> agree b c d"
  by (auto simp: agree_def merge_def)

lemma agree_covered: "agree b c d \<Longrightarrow> covered a b \<Longrightarrow> agree a c d"
  by (auto simp: agree_def covered_def)

lemma additive_id: "additive (\<lambda>a. a)"
  by (simp add: additive_def)

lemma additive_add_root: "additive (add_root identifier)"
  by (simp add: additive_def add_root_def merge_def empty_analysis_def)

lemma additiveD: "additive f \<Longrightarrow> f a = merge a (f empty_analysis)"
  unfolding additive_def by blast

lemma additive_comp:
  assumes f: "additive f" and g: "additive g"
  shows "additive (\<lambda>a. f (g a))"
proof -
  have "f (g a) = merge a (f (g empty_analysis))" for a
    using additiveD [OF f, of "g a"] additiveD [OF g, of a] additiveD [OF f, of "g empty_analysis"]
    by (simp add: merge_assoc)
  then show ?thesis unfolding additive_def by blast
qed

lemma additive_fold:
  assumes "\<And>x. x \<in> set xs \<Longrightarrow> additive (f x)"
  shows "additive (fold f xs)"
  using assms
proof (induction xs)
  case Nil
  then show ?case by (simp add: additive_def)
next
  case (Cons x xs)
  have "additive (\<lambda>a. fold f xs (f x a))"
    by (rule additive_comp) (use Cons in auto)
  then show ?case by (simp add: o_def)
qed

lemma covered_fold:
  assumes "\<And>x. x \<in> set xs \<Longrightarrow> additive (f x)" "x \<in> set xs"
  shows "covered (f x empty_analysis) (fold f xs a)"
proof -
  from assms(2) obtain ys zs where xs: "xs = ys @ x # zs" by (meson split_list)
  have "additive (fold f zs)" using assms(1) xs by (intro additive_fold) auto
  from additiveD [OF this, of "f x (fold f ys a)"]
  have "covered (f x (fold f ys a)) (fold f xs a)" by (simp add: xs covered_merge)
  moreover have "covered (f x empty_analysis) (f x (fold f ys a))"
    using additiveD [OF assms(1) [OF assms(2)], of "fold f ys a"] covered_merge(2) by metis
  ultimately show ?thesis using covered_trans by blast
qed

lemma additive_analyze: "additive (analyze_spanned_expression e)"
proof (induction "size e" arbitrary: e rule: less_induct)
  case less
  note IH = less.hyps
  show ?case
  proof (cases e)
    case (Call func args)
    have "additive (\<lambda>a. a\<lparr>
        uses_status_function := (uses_status_function a \<or> is_status_function func),
        uses_hash_files := (uses_hash_files a \<or> func = FnHashFiles)\<rparr>)"
      by (simp add: additive_def merge_def empty_analysis_def)
    moreover have "additive (fold analyze_spanned_expression args)"
      using Call IH by (intro additive_fold) (simp add: size_in_list)
    ultimately have "additive (\<lambda>a. fold analyze_spanned_expression args (a\<lparr>
        uses_status_function := (uses_status_function a \<or> is_status_function func),
        uses_hash_files := (uses_hash_files a \<or> func = FnHashFiles)\<rparr>))"
      by (rule additive_comp [rotated])
    moreover have "analyze_spanned_expression e = (\<lambda>a. fold analyze_spanned_expression args (a\<lparr>
        uses_status_function := (uses_status_function a \<or> is_status_function func),
        uses_hash_files := (uses_hash_files a \<or> func = FnHashFiles)\<rparr>))"
      by (rule ext) (simp add: Call)
    ultimately show ?thesis by simp
  next
    case (Context parts)
    let ?part = "\<lambda>part analysis. case part of
          Identifier _ \<Rightarrow> analysis | Star \<Rightarrow> analysis | Literal _ \<Rightarrow> analysis
        | Index index \<Rightarrow> analyze_spanned_expression index analysis
        | _ \<Rightarrow> analyze_spanned_expression part analysis"
    let ?head = "\<lambda>analysis. case parts of [] \<Rightarrow> analysis
      | head # _ \<Rightarrow> (case head of Identifier identifier \<Rightarrow> add_root identifier analysis
          | _ \<Rightarrow> analyze_spanned_expression head analysis)"
    have "additive (?part x)" if "x \<in> set (tl parts)" for x
    proof -
      have "size x < size e" using size_in_tl [OF that] Context by simp
      then show ?thesis
        using IH [of x] IH [of "case x of Index i \<Rightarrow> i | _ \<Rightarrow> x"]
        by (cases x) (simp_all add: additive_id del: analyze_spanned_expression.simps)
    qed
    then have "additive (fold ?part (tl parts))" by (rule additive_fold)
    moreover have "additive ?head"
    proof (cases parts)
      case (Cons h t)
      then have "size h < size e" using Context by simp
      then show ?thesis using IH Cons
        by (cases h) (auto simp: additive_add_root simp del: analyze_spanned_expression.simps)
    qed (simp add: additive_id)
    ultimately have "additive (\<lambda>a. fold ?part (tl parts) (?head a))"
      by (rule additive_comp)
    moreover have "analyze_spanned_expression e = (\<lambda>a. fold ?part (tl parts) (?head a))"
      by (rule ext) (simp add: Context)
    ultimately show ?thesis by simp
  next
    case (BinExpr lhs op rhs)
    have "additive (\<lambda>a. analyze_spanned_expression rhs (analyze_spanned_expression lhs a))"
      by (rule additive_comp) (use IH BinExpr in auto)
    moreover have "analyze_spanned_expression e =
        (\<lambda>a. analyze_spanned_expression rhs (analyze_spanned_expression lhs a))"
      by (rule ext) (simp add: BinExpr)
    ultimately show ?thesis by simp
  next
    case (UnExpr op e')
    moreover from this have "analyze_spanned_expression e = analyze_spanned_expression e'"
      by (intro ext) simp
    ultimately show ?thesis using IH by simp
  next
    case (Index e')
    moreover from this have "analyze_spanned_expression e = analyze_spanned_expression e'"
      by (intro ext) simp
    ultimately show ?thesis using IH by simp
  next
    case (Identifier i)
    then have "analyze_spanned_expression e = add_root i" by (intro ext) simp
    then show ?thesis by (simp add: additive_add_root)
  qed (simp_all add: additive_def)
qed

lemma agree_step: "additive f \<Longrightarrow> agree (f a) c d \<longleftrightarrow> agree a c d \<and> agree (f empty_analysis) c d"
  using additiveD [of f a] by (simp add: agree_merge)

lemma agree_fold:
  assumes "agree (fold f xs a) c d" "\<And>x. x \<in> set xs \<Longrightarrow> additive (f x)"
  shows "agree a c d" "x \<in> set xs \<Longrightarrow> agree (f x empty_analysis) c d"
proof -
  show "agree a c d" using assms(1) agree_step [OF additive_fold [of xs f]] assms(2) by blast
  show "agree (f x empty_analysis) c d" if "x \<in> set xs"
    using agree_covered [OF assms(1) covered_fold [OF assms(2) that]] by blast
qed

lemma agree_call:
  assumes "agree (analyze_spanned_expression (Call func args) empty_analysis) c d"
  shows "is_status_function func \<Longrightarrow> ctx_status c = ctx_status d"
    and "func = FnHashFiles \<Longrightarrow> ctx_workspace c = ctx_workspace d"
    and "x \<in> set args \<Longrightarrow> agree (analyze_spanned_expression x empty_analysis) c d"
proof -
  note fold = agree_fold [OF assms [unfolded analyze_spanned_expression.simps] additive_analyze]
  show "is_status_function func \<Longrightarrow> ctx_status c = ctx_status d"
    and "func = FnHashFiles \<Longrightarrow> ctx_workspace c = ctx_workspace d"
    using fold(1) by (simp_all add: agree_def)
  show "x \<in> set args \<Longrightarrow> agree (analyze_spanned_expression x empty_analysis) c d"
    by (rule fold(2))
qed

text \<open>What a part of a context after its head adds to the analysis.\<close>

definition analyze_part :: "expr \<Rightarrow> expression_analysis \<Rightarrow> expression_analysis" where
  "analyze_part part analysis = (case part of
          Identifier _ \<Rightarrow> analysis
        | Star \<Rightarrow> analysis
        | Literal _ \<Rightarrow> analysis
        | Index index \<Rightarrow> analyze_spanned_expression index analysis
        | _ \<Rightarrow> analyze_spanned_expression part analysis)"

lemma additive_analyze_part: "additive (analyze_part part)"
  by (cases part) (simp_all add: analyze_part_def [abs_def] additive_id additive_analyze
      del: analyze_spanned_expression.simps)

lemma agree_context:
  assumes "agree (analyze_spanned_expression (Context (head # rest)) empty_analysis) c d"
  shows "agree (analyze_spanned_expression head empty_analysis) c d"
    and "x \<in> set rest \<Longrightarrow> agree (analyze_part x empty_analysis) c d"
proof -
  have "analyze_spanned_expression (Context (head # rest)) empty_analysis =
      fold analyze_part rest (analyze_spanned_expression head empty_analysis)"
    by (cases head) (simp_all add: analyze_part_def [abs_def])
  note fold = agree_fold [OF assms [unfolded this] additive_analyze_part]
  show "agree (analyze_spanned_expression head empty_analysis) c d" by (rule fold(1))
  show "x \<in> set rest \<Longrightarrow> agree (analyze_part x empty_analysis) c d" by (rule fold(2))
qed

lemma apply_function_agree:
  "(func = FnHashFiles \<Longrightarrow> ctx_workspace c = ctx_workspace d) \<Longrightarrow>
    apply_function A c func arguments = apply_function A d func arguments"
  by (cases func) (simp_all add: hash_files_call_def)

lemma status_function_agree:
  "(is_status_function func \<Longrightarrow> s = t) \<Longrightarrow> status_function func s = status_function func t"
  by (cases func) (simp_all add: is_status_function_def)

lemma evaluate_agree:
  "agree (analyze_spanned_expression e empty_analysis) c d \<Longrightarrow>
    evaluate_expr A c e = evaluate_expr A d e"
proof (induction "size e" arbitrary: e rule: less_induct)
  case less
  note IH = less.hyps
  show ?case
  proof (cases e)
    case (Call func args)
    note call = agree_call [OF less.prems [unfolded Call]]
    have "mapE (evaluate_expr A c) args = mapE (evaluate_expr A d) args"
      using IH call(3) Call by (intro mapE_cong refl) (simp add: size_in_list)
    moreover have "status_function func (ctx_status c) = status_function func (ctx_status d)"
      using call(1) by (rule status_function_agree)
    moreover have "apply_function A c func = apply_function A d func"
      by (intro ext apply_function_agree call(2))
    ultimately show ?thesis unfolding Call by (simp split: option.split)
  next
    case (Context parts)
    show ?thesis
    proof (cases parts)
      case (Cons head rest)
      note ctx = agree_context [OF less.prems [unfolded Context Cons]]
      have head: "evaluate_expr A c head = evaluate_expr A d head"
        using IH [OF _ ctx(1)] Context Cons by simp
      have part: "evaluate_expr A c part = evaluate_expr A d part \<and>
          (\<forall>i. part = Index i \<longrightarrow> evaluate_expr A c i = evaluate_expr A d i)"
        if "part \<in> set rest" "\<And>s. part \<noteq> Identifier s" for part
      proof -
        have size: "size part < size e"
          using size_in_list [of part parts] that Context Cons by simp
        have "agree (analyze_spanned_expression part empty_analysis) c d"
        proof (cases part)
          case (Identifier i)
          with that(2) show ?thesis by blast
        qed (use ctx(2) [OF that(1)] in \<open>simp_all add: analyze_part_def\<close>)
        with IH [OF size] have "evaluate_expr A c part = evaluate_expr A d part" .
        then show ?thesis by auto
      qed
      show ?thesis
        unfolding Context Cons evaluate_expr.simps list.case head
      proof (rule bindE_cong [OF refl], rule bindE_cong [OF _ refl], rule foldE_cong [OF refl refl])
        fix first t x assume x: "x \<in> set rest"
        show "(case x of
              Identifier identifier \<Rightarrow> access A t (EString identifier)
            | Index index \<Rightarrow> bindE (evaluate_expr A c index) (\<lambda>i. access A t i)
            | Star \<Rightarrow> wildcard t
            | _ \<Rightarrow> bindE (evaluate_expr A c x) (\<lambda>i. access A t i)) =
           (case x of
              Identifier identifier \<Rightarrow> access A t (EString identifier)
            | Index index \<Rightarrow> bindE (evaluate_expr A d index) (\<lambda>i. access A t i)
            | Star \<Rightarrow> wildcard t
            | _ \<Rightarrow> bindE (evaluate_expr A d x) (\<lambda>i. access A t i))"
        proof (cases x)
          case (Index i)
          then have "evaluate_expr A c i = evaluate_expr A d i" using part [OF x] by blast
          then show ?thesis by (simp add: Index)
        next
          case (Identifier i)
          then show ?thesis by simp
        qed (use part [OF x] in \<open>simp_all del: evaluate_expr.simps\<close>)
      qed
    qed (simp add: Context)
  next
    case (BinExpr lhs op rhs)
    have "agree (analyze_spanned_expression lhs empty_analysis) c d"
        "agree (analyze_spanned_expression rhs empty_analysis) c d"
      using less.prems agree_step [OF additive_analyze [of rhs],
          of "analyze_spanned_expression lhs empty_analysis" c d]
      by (simp_all add: BinExpr)
    then have "evaluate_expr A c lhs = evaluate_expr A d lhs"
        "evaluate_expr A c rhs = evaluate_expr A d rhs"
      using IH [of lhs] IH [of rhs] BinExpr by simp_all
    then show ?thesis unfolding BinExpr by (cases op) (simp_all cong: if_cong)
  next
    case (Identifier i)
    then show ?thesis
      using less.prems by (simp add: lookup_root_def agree_def add_root_def empty_analysis_def)
  next
    case (Index e')
    then show ?thesis using IH [of e'] less.prems by simp
  next
    case (UnExpr op e')
    then show ?thesis using IH [of e'] less.prems by simp
  qed simp_all
qed

lemma analyze_loop_covers:
  "analyze_loop parse template cursor a = Inr b \<Longrightarrow> covered a b"
proof (induction parse template cursor a rule: analyze_loop.induct)
  case (1 parse template cursor a)
  show ?case
    using "1.prems"
    by (subst (asm) analyze_loop.simps)
       (auto simp: result_simps covered_def [of b b] split: option.splits
         intro: covered_trans [OF covered_merge(1)] dest!: "1.IH")
qed

lemma render_loop_agree:
  "analyze_loop (parse_source A) template cursor a = Inr b \<Longrightarrow> agree b c d \<Longrightarrow>
    render_loop A c template cursor rendered = render_loop A d template cursor rendered"
proof (induction "parse_source A" template cursor a arbitrary: rendered rule: analyze_loop.induct)
  case (1 template cursor a)
  have step: "evaluate A c source = evaluate A d source"
    if "analyze_expression (parse_source A) source = Inr other" "agree other c d" for source other
    using that evaluate_agree
    by (auto simp: evaluate_def analyze_expression_def result_simps intro: bindE_cong)
  show ?case
  proof (cases "slice_from ExprPanic template cursor")
    case (Inr rest)
    show ?thesis
    proof (cases "find_str rest ''${{''")
      case (Some i)
      let ?start = "cursor + i + 3"
      from "1.prems"(1) obtain e source other where
        e: "find_expression_end template ?start = Inr (Some e)"
        and source: "slice ExprPanic template ?start e = Inr source"
        and other: "analyze_expression (parse_source A) source = Inr other"
        and loop: "analyze_loop (parse_source A) template (e + 2) (merge a other) = Inr b"
        by (subst (asm) analyze_loop.simps) (auto simp: Inr Some result_simps)
      have "agree other c d"
        using agree_covered [OF "1.prems"(2) analyze_loop_covers [OF loop]] by (simp add: agree_merge)
      note ev = step [OF other this]
      note IH = "1.hyps" [OF Inr Some e _ source other loop "1.prems"(2)]
      show ?thesis
        unfolding render_loop.simps [of A _ template cursor] Inr bindE.simps Some option.case e ev
        by (rule bindE_cong [OF refl]) (simp add: ok_or_def source ev IH [simplified])
    qed (simp add: render_loop.simps Inr)
  qed (simp add: render_loop.simps)
qed

text \<open>
  C15. The analysis of a template is sound for its evaluation: two evaluation contexts that
  agree on the roots the analysis reports, on the status if it reports a status function,
  and on the workspace if it reports \<open>hashFiles\<close>, render the template to the same text or
  the same error. The compiler relies on this when it admits a concurrency group only if
  the reported contexts are available.
\<close>

theorem analyze_template_sound:
  assumes "analyze_template (parse_source A) template = Inr analysis" and "agree analysis c d"
  shows "render A c template = render A d template"
  using render_loop_agree [OF assms(1) [unfolded analyze_template_def] assms(2)]
  by (simp add: render_def)

text \<open>A small instance of the interface, for examples: one known expression.\<close>

definition toy_api :: expr_api where
  "toy_api =
    \<lparr>parse_source = (\<lambda>s. if s = ''github.ref'' then
         Inr (Context [Identifier ''github'', Identifier ''ref'']) else Inl ''unexpected''),
     sema_string = (\<lambda>v. case v of EString s \<Rightarrow> s | EBoolean True \<Rightarrow> ''true''
         | EBoolean False \<Rightarrow> ''false'' | _ \<Rightarrow> []),
     as_boolean = (\<lambda>v. case v of EString s \<Rightarrow> s \<noteq> [] | EBoolean b \<Rightarrow> b | _ \<Rightarrow> False),
     sema_eq = (\<lambda>a b. a = b), sema_cmp = (\<lambda>_ _. None),
     evaluation_of_json = (\<lambda>_. None), json_of_evaluation = (\<lambda>_. None),
     json_to_string_pretty = (\<lambda>_. None), json_from_str = (\<lambda>_. None),
     to_uppercase = id, hash_workspace_files = (\<lambda>_ _. Inr [])\<rparr>"

definition toy_context :: "execution_status \<Rightarrow> evaluation_context" where
  "toy_context status =
    \<lparr>ctx_roots = [''github'' \<mapsto> EObject [(''ref'', EString ''main'')]],
     ctx_status = status, ctx_workspace = None\<rparr>"

theorem analyze_template_sound_witness:
  "render toy_api (toy_context StatusSuccess) ''on ${{ github.ref }}'' = Inr ''on main'' \<and>
   render toy_api (toy_context StatusFailure) ''on ${{ github.ref }}'' = Inr ''on main''"
proof -
  have "analyze_template (parse_source toy_api) ''on ${{ github.ref }}'' =
      Inr \<lparr>context_roots = {''github''}, uses_status_function = False, uses_hash_files = False\<rparr>"
    by code_simp
  moreover have "agree \<lparr>context_roots = {''github''}, uses_status_function = False,
      uses_hash_files = False\<rparr> (toy_context StatusSuccess) (toy_context StatusFailure)"
    by (simp add: agree_def toy_context_def)
  moreover have "render toy_api (toy_context StatusSuccess) ''on ${{ github.ref }}'' = Inr ''on main''"
    by code_simp
  ultimately show ?thesis
    using analyze_template_sound [of toy_api "''on ${{ github.ref }}''" _
        "toy_context StatusSuccess" "toy_context StatusFailure"] by simp
qed

section \<open>Rendering\<close>

text \<open>
  The reference definition of rendering, without indices: the text before the first
  \<open>${{\<close> is kept, the expression up to its closing braces is replaced by its value, and the
  rest is rendered the same way.
\<close>

function render_spec :: "expr_api \<Rightarrow> evaluation_context \<Rightarrow> string \<Rightarrow> expr_failure + string" where
  "render_spec A self s =
    (case find_str s ''${{'' of
      None \<Rightarrow> Inr s
    | Some i \<Rightarrow>
        (case first_close False (drop (i + 3) s) of
          None \<Rightarrow> Inl (ExprErr UnclosedTemplate)
        | Some k \<Rightarrow>
            bindE (evaluate A self (take k (drop (i + 3) s))) (\<lambda>v.
            bindE (render_spec A self (drop (i + 3 + k + 2) s)) (\<lambda>rendered.
            Inr (take i s @ sema_string A v @ rendered)))))"
  by pat_completeness auto
termination
proof (relation "measure (\<lambda>(_, _, s). length s)", goal_cases)
  case (2 A self s i k v)
  then have "s \<noteq> []" by auto
  then show ?case by simp
qed simp

declare render_spec.simps [simp del]

lemma render_loop_spec:
  "utf8_ok template \<Longrightarrow> is_char_boundary template cursor \<Longrightarrow>
    render_loop A self template cursor rendered =
      bindE (render_spec A self (drop cursor template)) (\<lambda>r. Inr (rendered @ r))"
proof (induction "length template - cursor" arbitrary: cursor rendered rule: less_induct)
  case less
  note ok = less.prems
  have rest: "slice_from ExprPanic template cursor = Inr (drop cursor template)"
    using ok by (simp add: slice_from_def)
  show ?case
  proof (cases "find_str (drop cursor template) ''${{''")
    case None
    then show ?thesis by (simp add: render_loop.simps render_spec.simps rest)
  next
    case (Some i)
    let ?start = "cursor + i + 3"
    note start = expression_start_boundary [OF ok Some]
    have before: "slice ExprPanic template cursor (cursor + i) = Inr (take i (drop cursor template))"
      using ok start by (simp add: slice_def)
    have bound: "?start \<le> length template" using start(1) by (rule boundary_le)
    have spec: "render_spec A self (drop cursor template) =
        (case first_close False (drop ?start template) of
          None \<Rightarrow> Inl (ExprErr UnclosedTemplate)
        | Some k \<Rightarrow>
            bindE (evaluate A self (take k (drop ?start template))) (\<lambda>v.
            bindE (render_spec A self (drop (?start + k + 2) template)) (\<lambda>rendered.
            Inr (take i (drop cursor template) @ sema_string A v @ rendered))))"
      by (subst render_spec.simps) (simp add: Some add_ac cong: option.case_cong)
    show ?thesis
    proof (cases "first_close False (drop ?start template)")
      case None
      have "find_expression_end template ?start = Inr None"
        using find_expression_end_eq [OF ok(1) start(1)] None by simp
      with None Some show ?thesis
        by (simp add: render_loop.simps [of _ _ _ cursor] spec rest before ok_or_def)
    next
      case k: (Some k)
      have e: "find_expression_end template ?start = Inr (Some (?start + k))"
        using find_expression_end_eq [OF ok(1) start(1)] k by simp
      note ends = expression_end_boundary [OF ok(1) start(1) e]
      have source: "slice ExprPanic template ?start (?start + k) = Inr (take k (drop ?start template))"
        using ends start by (simp add: slice_def)
      have IH: "render_loop A self template (?start + k + 2) r =
          bindE (render_spec A self (drop (?start + k + 2) template)) (\<lambda>r'. Inr (r @ r'))" for r
        by (rule less.hyps) (use ok ends bound in auto)
      show ?thesis
        by (simp add: render_loop.simps [of _ _ _ cursor] spec k rest before Some e ok_or_def source
            IH [simplified] bindE_assoc)
    qed
  qed
qed

text \<open>
  C14. Rendering a template, with its cursor arithmetic and slices, equals the reference
  definition on every UTF-8 string: text outside the expressions is copied unchanged, each
  expression is replaced by the string of its value, and an unclosed expression is an error.
\<close>

theorem render_correct:
  assumes "utf8_ok template"
  shows "render A self template = render_spec A self template"
  using render_loop_spec [OF assms, of 0 A self "[]"]
  by (cases "render_spec A self template") (simp_all add: render_def is_char_boundary_def)

theorem render_correct_witness:
  "render_spec toy_api (toy_context StatusSuccess) ''on ${{ github.ref }}!'' = Inr ''on main!''"
proof -
  have "utf8_ok ''on ${{ github.ref }}!''" by code_simp
  from render_correct [OF this, of toy_api "toy_context StatusSuccess"] show ?thesis
    by (rule subst) code_simp
qed

text \<open>Evaluation reaches none of its \<open>unreachable!\<close> branches.\<close>

lemma format_placeholder_no_panic: "format_placeholder A arguments inner \<noteq> Inl ExprPanic"
  by (simp add: format_placeholder_def invalid_function_def Let_def split: option.splits)

lemma format_loop_no_panic: "format_loop A arguments s \<noteq> Inl ExprPanic"
proof (induction "length s" arbitrary: s rule: less_induct)
  case less
  show ?case
  proof (cases s)
    case (Cons c t)
    have "format_loop A arguments (tl t) \<noteq> Inl ExprPanic"
      "format_loop A arguments (dropWhile utf8_continuation t) \<noteq> Inl ExprPanic"
      by (rule less.hyps; simp add: Cons le_imp_less_Suc length_dropWhile_le)+
    moreover have "format_loop A arguments r \<noteq> Inl ExprPanic"
      if "split_once (CHR ''}'') t = Some (i, r)" for i r
      using that by (intro less.hyps) (simp add: Cons split_once_Some)
    ultimately show ?thesis
      using format_placeholder_no_panic unfolding Cons
      by (auto simp: bindE_Inl invalid_function_def split: option.splits prod.splits)
  qed simp
qed

lemma case_pairs_no_panic: "case_pairs v vs \<noteq> Inl ExprPanic"
  by (induction v vs rule: case_pairs.induct)
    (auto simp: invalid_function_def split: evaluation.splits bool.splits)

lemma access_value_no_panic: "access_value A v index \<noteq> Inl ExprPanic"
  by (auto simp: access_value_def Let_def array_index_def bindE_Inl ok_or_def
      split: evaluation.splits option.splits if_splits)

lemma mapE_no_panic: "(\<And>x. x \<in> set xs \<Longrightarrow> f x \<noteq> Inl e) \<Longrightarrow> mapE f xs \<noteq> Inl e"
  by (induction xs) (auto simp: bindE_Inl)

lemma foldE_no_panic: "(\<And>x s. x \<in> set xs \<Longrightarrow> f s x \<noteq> Inl e) \<Longrightarrow> foldE f s xs \<noteq> Inl e"
  by (induction xs arbitrary: s) (auto simp: bindE_Inl)

lemma access_no_panic: "access A selection index \<noteq> Inl ExprPanic"
  by (cases selection) (auto simp: bindE_Inl access_value_no_panic mapE_no_panic)

lemma expand_no_panic: "expand v \<noteq> Inl ExprPanic"
  by (cases v) auto

lemma wildcard_no_panic: "wildcard selection \<noteq> Inl ExprPanic"
  by (cases selection) (auto simp: bindE_Inl expand_no_panic mapE_no_panic)

lemma apply_function_no_panic:
  assumes "status_function func status = None"
    and "\<And>w args. hash_workspace_files A w args \<noteq> Inl ExprPanic"
  shows "apply_function A self func arguments \<noteq> Inl ExprPanic"
proof (cases func)
  case FnContains
  then show ?thesis
    by (auto simp: contains_def invalid_function_def split: list.splits evaluation.splits)
next
  case FnJoin
  then show ?thesis by (auto simp: join_def Let_def invalid_function_def split: list.splits)
qed (use assms in \<open>auto simp: starts_or_ends_with_def format_values_def
    to_json_def from_json_def case_function_def case_pairs_no_panic hash_files_call_def
    invalid_function_def bindE_Inl format_loop_no_panic ok_or_def Let_def
    split: list.splits option.splits if_splits\<close>)

lemma lookup_root_no_panic: "lookup_root self identifier \<noteq> Inl ExprPanic"
  by (simp add: lookup_root_def ok_or_Inl)

lemma compare_op_no_panic: "op \<noteq> OpAnd \<Longrightarrow> op \<noteq> OpOr \<Longrightarrow> compare_op A op l r \<noteq> Inl ExprPanic"
  by (cases op) auto

lemma evaluate_expr_no_panic:
  assumes hash: "\<And>w args. hash_workspace_files A w args \<noteq> Inl ExprPanic"
  shows "evaluate_expr A self e \<noteq> Inl ExprPanic"
proof (induction "size e" arbitrary: e rule: less_induct)
  case less
  note IH = less.hyps
  show ?case
  proof (cases e)
    case (Context parts)
    show ?thesis
    proof (cases parts)
      case (Cons head rest)
      have head: "evaluate_expr A self head \<noteq> Inl ExprPanic" using IH [of head] Context Cons by simp
      have part: "evaluate_expr A self part \<noteq> Inl ExprPanic \<and>
          (\<forall>i. part = Index i \<longrightarrow> evaluate_expr A self i \<noteq> Inl ExprPanic)"
        if "part \<in> set rest" for part
        using IH [of part] size_in_list [of part parts] that Context Cons by auto
      let ?body = "\<lambda>selection part. (case part of
              Identifier identifier \<Rightarrow> access A selection (EString identifier)
            | Index index \<Rightarrow> bindE (evaluate_expr A self index) (\<lambda>i. access A selection i)
            | Star \<Rightarrow> wildcard selection
            | _ \<Rightarrow> bindE (evaluate_expr A self part) (\<lambda>i. access A selection i))"
      have body: "?body selection part \<noteq> Inl ExprPanic" if "part \<in> set rest" for part selection
        using part [OF that]
        by (cases part) (auto simp: bindE_Inl access_no_panic wildcard_no_panic
            simp del: evaluate_expr.simps)
      have "foldE ?body s rest \<noteq> Inl ExprPanic" for s
        by (rule foldE_no_panic) (rule body)
      with head show ?thesis
        unfolding Context Cons evaluate_expr.simps list.case
        by (simp only: bindE_Inl) blast
    qed (simp add: Context)
  next
    case (Call func args)
    have "mapE (evaluate_expr A self) args \<noteq> Inl ExprPanic"
      using IH Call by (intro mapE_no_panic) (simp add: size_in_list)
    then show ?thesis
      using apply_function_no_panic [OF _ hash] Call by (auto simp: bindE_Inl split: option.splits)
  next
    case (BinExpr lhs op rhs)
    then have "evaluate_expr A self lhs \<noteq> Inl ExprPanic" "evaluate_expr A self rhs \<noteq> Inl ExprPanic"
      using IH [of lhs] IH [of rhs] by simp_all
    then show ?thesis
      unfolding BinExpr by (cases op) (simp_all add: bindE_Inl)
  next
    case (UnExpr op e')
    then show ?thesis using IH [of e'] by (simp add: bindE_Inl)
  next
    case (Index e')
    then show ?thesis using IH [of e'] by simp
  qed (simp_all add: lookup_root_no_panic)
qed

lemma render_spec_no_panic:
  assumes hash: "\<And>w args. hash_workspace_files A w args \<noteq> Inl ExprPanic"
  shows "render_spec A self s \<noteq> Inl ExprPanic"
proof -
  have ev: "evaluate A self source \<noteq> Inl ExprPanic" for source
    using evaluate_expr_no_panic [OF hash]
    by (auto simp: evaluate_def bindE_Inl parse_expr_def split: sum.splits)
  show ?thesis
  proof (induction A\<equiv>A self\<equiv>self s rule: render_spec.induct)
    case (1 s)
    then show ?case
      by (subst render_spec.simps) (auto simp: bindE_Inl ev split: option.splits)
  qed
qed



section \<open>The format function\<close>

text \<open>A format string as its segments: text, whose braces are doubled, and placeholders.\<close>

datatype segment = TextSegment string | ArgumentSegment nat

definition brace_escape :: "string \<Rightarrow> string" where
  "brace_escape s =
    concat (map (\<lambda>c. if c = CHR ''{'' then ''{{'' else if c = CHR ''}'' then ''}}'' else [c]) s)"

fun segment_source :: "segment \<Rightarrow> string" where
  "segment_source (TextSegment s) = brace_escape s"
| "segment_source (ArgumentSegment i) = ''{'' @ show_nat i @ ''}''"

fun segment_value :: "expr_api \<Rightarrow> evaluation list \<Rightarrow> segment \<Rightarrow> string" where
  "segment_value A arguments (TextSegment s) = s"
| "segment_value A arguments (ArgumentSegment i) = sema_string A (arguments ! i)"

fun segment_ok :: "nat \<Rightarrow> segment \<Rightarrow> bool" where
  "segment_ok n (TextSegment s) = True"
| "segment_ok n (ArgumentSegment i) = (i < n)"

lemma format_loop_plain:
  assumes "c \<noteq> CHR ''{''" "c \<noteq> CHR ''}''"
  shows "format_loop A arguments (c # s) =
    bindE (format_loop A arguments s) (\<lambda>output. Inr (c # output))"
proof (cases "s \<noteq> [] \<and> utf8_continuation (hd s)")
  case True
  then obtain d t where s: "s = d # t" "utf8_continuation d" by (cases s) auto
  then have "d \<noteq> CHR ''{''" "d \<noteq> CHR ''}''" by (auto simp: utf8_continuation_def)
  then show ?thesis using assms s by (simp add: bindE_assoc)
next
  case False
  then have "takeWhile utf8_continuation s = [] \<and> dropWhile utf8_continuation s = s"
    by (cases s) auto
  then show ?thesis using assms by simp
qed

lemma format_loop_text:
  "format_loop A arguments (brace_escape s @ rest) =
    bindE (format_loop A arguments rest) (\<lambda>output. Inr (s @ output))"
proof (induction s)
  case Nil
  then show ?case by (cases "format_loop A arguments rest") (simp_all add: brace_escape_def)
next
  case (Cons c s)
  have esc: "brace_escape (c # s) @ rest = (if c = CHR ''{'' then ''{{'' else
      if c = CHR ''}'' then ''}}'' else [c]) @ brace_escape s @ rest"
    by (simp add: brace_escape_def)
  show ?case
    unfolding esc
    by (cases "c = CHR ''{''"; cases "c = CHR ''}''")
      (simp_all add: format_loop_plain Cons bindE_assoc del: format_loop.simps(2)
        add: format_loop.simps(2) [of _ _ "CHR ''{''"] format_loop.simps(2) [of _ _ "CHR ''}''"])
qed

lemma digit_facts:
  assumes "d \<in> set (show_nat n)"
  shows "d \<noteq> CHR ''}''" "d \<noteq> CHR '':''" "d \<noteq> CHR ''{''"
  using assms show_nat_digits [of n] by (auto simp: list_all_iff is_ascii_digit_def)

lemma split_char_absent: "c \<notin> set s \<Longrightarrow> split_char c s = [s]"
  by (induction s) auto

lemma format_loop_argument:
  assumes "i < length arguments" "length arguments < 2 ^ 64"
  shows "format_loop A (template # arguments) (''{'' @ show_nat i @ ''}'' @ rest) =
    bindE (format_loop A (template # arguments) rest)
      (\<lambda>output. Inr (sema_string A (arguments ! i) @ output))"
proof -
  have "split_once (CHR ''}'') (show_nat i @ ''}'' @ rest) = Some (show_nat i, rest)"
    using digit_facts(1) by (auto simp: split_once_Some)
  moreover have "hd (show_nat i @ ''}'' @ rest) \<noteq> CHR ''{''"
    using digit_facts(3) [of "hd (show_nat i)" i] by simp
  moreover have "format_placeholder A (template # arguments) (show_nat i) = Inr (sema_string A (arguments ! i))"
  proof -
    have "split_char (CHR '':'') (show_nat i) = [show_nat i]"
      using digit_facts(2) by (intro split_char_absent) blast
    then show ?thesis
      using assms by (simp add: format_placeholder_def parse_show_nat)
  qed
  ultimately show ?thesis by simp
qed

lemma format_loop_segments:
  assumes "\<forall>g\<in>set segments. segment_ok (length arguments) g" "length arguments < 2 ^ 64"
  shows "format_loop A (template # arguments) (concat (map segment_source segments)) =
    Inr (concat (map (segment_value A arguments) segments))"
  using assms(1)
proof (induction segments)
  case (Cons g segments)
  then have IH: "format_loop A (template # arguments) (concat (map segment_source segments)) =
    Inr (concat (map (segment_value A arguments) segments))" by simp
  show ?case
  proof (cases g)
    case (TextSegment s)
    with IH show ?thesis by (simp add: format_loop_text)
  next
    case (ArgumentSegment i)
    with Cons.prems have "i < length arguments" by simp
    from format_loop_argument [OF this assms(2), of A template "concat (map segment_source segments)"]
    show ?thesis using IH ArgumentSegment by simp
  qed
qed simp

text \<open>
  C21. \<open>format\<close> is the inverse of writing a format string: a template made of text with its
  braces doubled and of placeholders for existing arguments formats to the text with each
  placeholder replaced by the string of its argument.
\<close>

theorem format_values_correct:
  assumes "sema_string A template = concat (map segment_source segments)"
    and "\<forall>g\<in>set segments. segment_ok (length arguments) g" and "length arguments < 2 ^ 64"
  shows "format_values A (template # arguments) =
    Inr (EString (concat (map (segment_value A arguments) segments)))"
  using format_loop_segments [OF assms(2,3), of A template] assms(1)
  by (simp add: format_values_def)

theorem format_values_correct_witness:
  "format_values toy_api [EString ''{{{0}}}'', EString ''x''] = Inr (EString ''{x}'')"
proof -
  have "show_nat 0 = ''0''" by code_simp
  then show ?thesis
    using format_values_correct [of toy_api "EString ''{{{0}}}''"
        "[TextSegment ''{'', ArgumentSegment 0, TextSegment ''}'']" "[EString ''x'']"]
    by (simp add: toy_api_def brace_escape_def)
qed

text \<open>
  The successor of a placeholder's index wraps around: the largest \<open>usize\<close> names the
  template itself instead of being out of range.
\<close>

lemma format_index_wraps:
  "format_values toy_api [EString ''{18446744073709551615}''] =
    Inr (EString ''{18446744073709551615}'')"
proof -
  have "parse_usize ''18446744073709551615'' = Some 18446744073709551615"
    by (simp add: parse_usize_def digits_value_def is_ascii_digit_def)
  then show ?thesis by (simp add: format_values_def format_placeholder_def toy_api_def)
qed

end
