(* ===== verification/Settings.thy ===== *)
theory Settings
  imports Workflow_Model Evaluation
begin

text \<open>
  The settings a workflow and a job share: \<open>planned_concurrency\<close>, \<open>planned_environment\<close>
  and \<open>validate_defaults\<close> of the workflow crate. Concurrency groups are templates; the
  compiler accepts one only after analysing it with the expression crate.
\<close>

section \<open>Operations\<close>

definition validate_defaults :: "string \<Rightarrow> location \<Rightarrow> defaults \<Rightarrow> failure + unit" where
  "validate_defaults workflow location d =
    (case bt_keys (df_extra d) of
      feature # _ \<Rightarrow>
        Inl (unsupported_workflow workflow (OnSettings (DefaultsKeyUnsupported location feature)))
    | [] \<Rightarrow>
        (case bt_keys (rd_extra (df_run d)) of
          feature # _ \<Rightarrow>
            Inl (unsupported_workflow workflow (OnSettings (DefaultsRunKeyUnsupported location feature)))
        | [] \<Rightarrow>
            ensure (\<not> list_ex (\<lambda>v. contains_str v expression_open)
                (List.map_filter id [rd_shell (df_run d), rd_working_directory (df_run d)]))
              (unsupported_workflow workflow (OnSettings (DefaultsRunExpression location)))))"

definition planned_environment ::
  "string \<Rightarrow> string \<Rightarrow> job_environment option \<Rightarrow> failure + planned_environment option"
where
  "planned_environment workflow job_id environment =
    (case environment of
      None \<Rightarrow> Inr None
    | Some environment \<Rightarrow>
        bindE (case environment of
            EnvironmentName name \<Rightarrow> Inr (name, None, True)
          | EnvironmentConfiguration configuration \<Rightarrow>
              (case bt_keys (ec_extra configuration) of
                feature # _ \<Rightarrow>
                  Inl (incompatible workflow job_id (OnSettings (EnvironmentKeyUnsupported feature)))
              | [] \<Rightarrow>
                  Inr (ec_name configuration, ec_url configuration, ec_deployment configuration)))
          (\<lambda>(name, url, deployment).
        bindE (ensure (trim name \<noteq> [])
          (incompatible workflow job_id (OnSettings EnvironmentNameEmpty))) (\<lambda>_.
        Inr (Some \<lparr>pe_name = name, pe_url = url, pe_deployment = deployment\<rparr>))))"

text \<open>The group, the cancel flag and the queue of either form of the key.\<close>

definition concurrency_fields ::
  "string \<Rightarrow> location \<Rightarrow> concurrency \<Rightarrow> failure + string \<times> string \<times> planned_concurrency_queue"
where
  "concurrency_fields workflow location c =
    (case c of
      ConcurrencyGroup grp \<Rightarrow> Inr (grp, ''false'', QueueSingle)
    | ConcurrencyConfiguration configuration \<Rightarrow>
        (case bt_keys (cc_extra configuration) of
          feature # _ \<Rightarrow>
            Inl (unsupported_workflow workflow (OnSettings (ConcurrencyKeyUnsupported location feature)))
        | [] \<Rightarrow>
            (let queue = (case cc_queue configuration of None \<Rightarrow> ''single'' | Some q \<Rightarrow> q) in
             bindE (if queue = ''single'' then Inr QueueSingle
                    else if queue = ''max'' then Inr QueueMax
                    else Inl (unsupported_workflow workflow
                      (OnSettings (ConcurrencyQueueInvalid location queue)))) (\<lambda>queue.
             Inr (cc_group configuration,
                  (case cc_cancel_in_progress configuration of None \<Rightarrow> ''false'' | Some s \<Rightarrow> s),
                  queue)))))"

definition concurrency_group_bounds :: "string \<Rightarrow> bool" where
  "concurrency_group_bounds grp \<longleftrightarrow>
    \<not> (trim grp = [] \<or>
       contains_char grp (CHR 0x00) \<or> contains_char grp (CHR 0x0A) \<or> contains_char grp (CHR 0x0D) \<or>
       \<not> contains_str grp expression_open \<and> length grp > 256 \<or>
       length grp > 4096)"

text \<open>The body of the loop over the two templates: only the available contexts.\<close>

definition concurrency_template ::
  "parser \<Rightarrow> string \<Rightarrow> location \<Rightarrow> string list \<Rightarrow> string \<times> string \<Rightarrow> failure + unit"
where
  "concurrency_template parse workflow location allowed_contexts entry =
    (case entry of (field, template) \<Rightarrow>
      bindE (case analyze_template parse template of
          Inl (ExprErr e) \<Rightarrow>
            Inl (unsupported_workflow workflow
              (OnSettings (ConcurrencyTemplateInvalid location field e)))
        | Inl ExprPanic \<Rightarrow> Inl Panic
        | Inr analysis \<Rightarrow> Inr analysis) (\<lambda>analysis.
      ensure (\<not> ({context \<in> context_roots analysis. context \<notin> set allowed_contexts} \<noteq> {} \<or>
                 uses_hash_files analysis \<or> uses_status_function analysis))
        (unsupported_workflow workflow
          (OnSettings (ConcurrencyContextUnavailable location field)))))"

definition planned_concurrency ::
  "parser \<Rightarrow> string \<Rightarrow> location \<Rightarrow> concurrency option \<Rightarrow> string list
    \<Rightarrow> failure + planned_concurrency option"
where
  "planned_concurrency parse workflow location c allowed_contexts =
    (case c of
      None \<Rightarrow> Inr None
    | Some c \<Rightarrow>
        bindE (concurrency_fields workflow location c) (\<lambda>(grp, cancel_in_progress, queue).
        bindE (ensure (concurrency_group_bounds grp)
          (unsupported_workflow workflow (OnSettings (ConcurrencyGroupBounds location)))) (\<lambda>_.
        bindE (foldE (\<lambda>_ entry. concurrency_template parse workflow location allowed_contexts entry)
          () [(''group'', grp), (''cancel-in-progress'', cancel_in_progress)]) (\<lambda>_.
        bindE (ensure (contains_str cancel_in_progress expression_open \<or>
            cancel_in_progress = ''true'' \<or> cancel_in_progress = ''false'')
          (unsupported_workflow workflow (OnSettings (ConcurrencyCancelNotBoolean location)))) (\<lambda>_.
        bindE (ensure (\<not> (queue = QueueMax \<and> cancel_in_progress = ''true''))
          (unsupported_workflow workflow (OnSettings (ConcurrencyMaxWithCancel location)))) (\<lambda>_.
        Inr (Some \<lparr>pc_group = grp, pc_cancel_in_progress = cancel_in_progress,
               pc_queue = queue\<rparr>)))))))"

section \<open>Panics\<close>

text \<open>The strings a concurrency key can hold are \<open>String\<close> values, hence UTF-8.\<close>

definition concurrency_strings_ok :: "concurrency \<Rightarrow> bool" where
  "concurrency_strings_ok c =
    (case c of
      ConcurrencyGroup grp \<Rightarrow> utf8_ok grp
    | ConcurrencyConfiguration configuration \<Rightarrow>
        utf8_ok (cc_group configuration) \<and>
        (case cc_cancel_in_progress configuration of None \<Rightarrow> True | Some s \<Rightarrow> utf8_ok s))"

lemma no_fault_validate_defaults [simp]: "no_fault (validate_defaults workflow location d)"
  by (simp add: validate_defaults_def split: list.splits)

lemma no_fault_planned_environment [simp]: "no_fault (planned_environment workflow job_id e)"
  by (auto simp: planned_environment_def intro!: no_fault_bindE
      split: option.splits job_environment.splits list.splits)

lemma no_fault_concurrency_template:
  assumes "utf8_ok template"
  shows "no_fault (concurrency_template parse workflow location allowed (field, template))"
proof -
  have "analyze_template parse template \<noteq> Inl ExprPanic"
    using analyze_loop_no_panic [OF assms, of 0] by (simp add: analyze_template_def is_char_boundary_def)
  then show ?thesis
    by (auto simp: concurrency_template_def intro!: no_fault_bindE split: sum.splits expr_failure.splits)
qed

lemma concurrency_fields_ok:
  assumes "concurrency_fields workflow location c = Inr (grp, cancel, queue)"
    "concurrency_strings_ok c"
  shows "utf8_ok grp \<and> utf8_ok cancel"
proof -
  have "utf8_ok ''false''" by code_simp
  with assms show ?thesis
    by (auto simp: concurrency_fields_def concurrency_strings_ok_def Let_def bindE_Inr
        split: concurrency.splits list.splits option.splits if_splits)
qed

lemma no_fault_planned_concurrency:
  assumes "case_option True concurrency_strings_ok c"
  shows "no_fault (planned_concurrency parse workflow location c allowed)"
proof (cases c)
  case (Some c')
  have fields: "no_fault (concurrency_fields workflow location c')"
    by (auto simp: concurrency_fields_def Let_def intro!: no_fault_bindE
        split: concurrency.splits list.splits)
  show ?thesis
    unfolding planned_concurrency_def Some option.case
  proof (rule no_fault_bindE [OF fields], clarify)
    fix grp cancel queue
    assume "concurrency_fields workflow location c' = Inr (grp, cancel, queue)"
    then have "utf8_ok grp \<and> utf8_ok cancel"
      using concurrency_fields_ok assms Some by fastforce
    then show "no_fault (bindE (ensure (concurrency_group_bounds grp)
          (unsupported_workflow workflow (OnSettings (ConcurrencyGroupBounds location)))) (\<lambda>_.
        bindE (foldE (\<lambda>_ entry. concurrency_template parse workflow location allowed entry)
          () [(''group'', grp), (''cancel-in-progress'', cancel)]) (\<lambda>_.
        bindE (ensure (contains_str cancel expression_open \<or> cancel = ''true'' \<or> cancel = ''false'')
          (unsupported_workflow workflow (OnSettings (ConcurrencyCancelNotBoolean location)))) (\<lambda>_.
        bindE (ensure (\<not> (queue = QueueMax \<and> cancel = ''true''))
          (unsupported_workflow workflow (OnSettings (ConcurrencyMaxWithCancel location)))) (\<lambda>_.
        Inr (Some \<lparr>pc_group = grp, pc_cancel_in_progress = cancel, pc_queue = queue\<rparr>))))))"
      by (auto intro!: no_fault_bindE no_fault_concurrency_template)
  qed
qed (simp add: planned_concurrency_def)

section \<open>Accepted concurrency keys\<close>

lemma concurrency_template_agree:
  assumes "concurrency_template (parse_source A) workflow location allowed (field, template) = Inr ()"
    and "\<forall>r\<in>set allowed. ctx_roots c r = ctx_roots d r"
  shows "render A c template = render A d template"
proof -
  from assms(1) obtain analysis where a: "analyze_template (parse_source A) template = Inr analysis"
    and roots: "context_roots analysis \<subseteq> set allowed" "\<not> uses_hash_files analysis"
      "\<not> uses_status_function analysis"
    by (auto simp: concurrency_template_def result_simps split: sum.splits expr_failure.splits)
  have "agree analysis c d" using assms(2) roots by (auto simp: agree_def)
  from render_loop_agree [OF a [unfolded analyze_template_def] this] show ?thesis
    by (simp add: render_def)
qed

text \<open>
  C22. A concurrency key the compiler accepts keeps its promises at run time: its group is
  not blank, has no NUL or line break, is at most 4096 bytes and at most 256 if it is not a
  template; a queue of \<open>max\<close> never comes with a literal \<open>cancel-in-progress: true\<close>; and both
  templates render to the same text in any two contexts that agree on the allowed
  context roots, whatever the job status and the workspace are.
\<close>

theorem planned_concurrency_safe:
  assumes "planned_concurrency (parse_source A) workflow location c allowed = Inr (Some p)"
  shows "trim (pc_group p) \<noteq> [] \<and>
    set (pc_group p) \<inter> {CHR 0x00, CHR 0x0A, CHR 0x0D} = {} \<and>
    length (pc_group p) \<le> (if contains_str (pc_group p) expression_open then 4096 else 256) \<and>
    \<not> (pc_queue p = QueueMax \<and> pc_cancel_in_progress p = ''true'') \<and>
    (\<forall>x y. (\<forall>r\<in>set allowed. ctx_roots x r = ctx_roots y r) \<longrightarrow>
      render A x (pc_group p) = render A y (pc_group p) \<and>
      render A x (pc_cancel_in_progress p) = render A y (pc_cancel_in_progress p))"
proof -
  from assms have bounds: "concurrency_group_bounds (pc_group p)"
    and templates: "concurrency_template (parse_source A) workflow location allowed
        (''group'', pc_group p) = Inr ()"
      "concurrency_template (parse_source A) workflow location allowed
        (''cancel-in-progress'', pc_cancel_in_progress p) = Inr ()"
    and queue: "\<not> (pc_queue p = QueueMax \<and> pc_cancel_in_progress p = ''true'')"
    by (auto simp: planned_concurrency_def result_simps split: option.splits prod.splits)
  have renders: "render A x (pc_group p) = render A y (pc_group p) \<and>
      render A x (pc_cancel_in_progress p) = render A y (pc_cancel_in_progress p)"
    if "\<forall>r\<in>set allowed. ctx_roots x r = ctx_roots y r" for x y
    using concurrency_template_agree [OF templates(1) that]
      concurrency_template_agree [OF templates(2) that] by blast
  show ?thesis
    using bounds queue renders by (auto simp: concurrency_group_bounds_def)
qed

theorem planned_concurrency_safe_witness:
  "render toy_api (toy_context StatusSuccess) ''ci-${{ github.ref }}'' =
   render toy_api (toy_context StatusCancelled) ''ci-${{ github.ref }}''"
proof -
  have "planned_concurrency (parse_source toy_api) ''ci'' AtWorkflow
      (Some (ConcurrencyGroup ''ci-${{ github.ref }}'')) [''github''] =
      Inr (Some \<lparr>pc_group = ''ci-${{ github.ref }}'', pc_cancel_in_progress = ''false'',
        pc_queue = QueueSingle\<rparr>)"
    by code_simp
  from planned_concurrency_safe [OF this] show ?thesis by (simp add: toy_context_def)
qed

end
