(* ===== verification/Steps.thy ===== *)
theory Steps
  imports Workflow_Model
begin

text \<open>
  Compilation of a job's steps: \<open>compile_steps\<close>, \<open>compile_step\<close>, \<open>register_step_id\<close>
  and \<open>resolve_background_ids\<close> of the workflow crate. The six mutable arguments of
  \<open>compile_step\<close> are the fields of \<open>step_state\<close>; its three parts (a parallel group, a
  control step, an ordinary step) are definitions of their own.
\<close>

section \<open>State\<close>

record step_state =
  ss_steps :: "planned_step list"
  ss_action_occurrences :: "(string \<times> nat) list"
  ss_step_ids :: "string set"
  ss_background_ids :: "(string \<times> string) list"
  ss_next_step_number :: nat
  ss_next_parallel_group :: nat

record step_defaults =
  sd_shell :: "string option"
  sd_working_directory :: "string option"

definition register_step_id ::
  "string \<Rightarrow> string \<Rightarrow> string \<Rightarrow> step_state \<Rightarrow> failure + step_state"
where
  "register_step_id workflow job_id sid s =
    (if to_ascii_lowercase sid \<in> ss_step_ids s then
       Inl (incompatible workflow job_id (OnStep (StepIdDuplicated sid)))
     else Inr (s\<lparr>ss_step_ids := insert (to_ascii_lowercase sid) (ss_step_ids s)\<rparr>))"

definition resolve_background_ids ::
  "string \<Rightarrow> string \<Rightarrow> string \<Rightarrow> string list \<Rightarrow> (string \<times> string) list \<Rightarrow> failure + string list"
where
  "resolve_background_ids workflow job_id control ids background_ids =
    mapE (\<lambda>sid. ok_or (bt_get background_ids (to_ascii_lowercase sid))
      (incompatible workflow job_id (OnStep (UnknownBackgroundStep control sid)))) ids"

definition push_step :: "planned_step \<Rightarrow> step_state \<Rightarrow> step_state" where
  "push_step p s = s\<lparr>ss_steps := ss_steps s @ [p]\<rparr>"

text \<open>\<open>format!("step-{}", *next_step_number)\<close> and the increment after it.\<close>

definition take_step_number :: "step_state \<Rightarrow> string \<times> step_state" where
  "take_step_number s =
    (''step-'' @ show_nat (ss_next_step_number s),
     s\<lparr>ss_next_step_number := ss_next_step_number s + 1\<rparr>)"

section \<open>Ordinary steps\<close>

definition or_default :: "'a option \<Rightarrow> 'a \<Rightarrow> 'a" where
  "or_default x d = (case x of Some v \<Rightarrow> v | None \<Rightarrow> d)"

definition or_else :: "'a option \<Rightarrow> 'a option \<Rightarrow> 'a option" where
  "or_else x y = (case x of Some v \<Rightarrow> Some v | None \<Rightarrow> y)"

definition ordinary_name :: "step \<Rightarrow> string \<Rightarrow> string" where
  "ordinary_name step sid =
    or_default (step_name step)
      (or_default (or_else (step_uses step) (map_option (\<lambda>_. ''Run'') (step_run step))) sid)"

definition ordinary_kind ::
  "string \<Rightarrow> string \<Rightarrow> step_defaults \<Rightarrow> step \<Rightarrow> string \<Rightarrow> failure + step_kind"
where
  "ordinary_kind workflow job_id defaults step name =
    (case (step_run step, step_uses step) of
      (Some script, None) \<Rightarrow>
        if step_with step = [] then
          Inr (RunStep (or_default (or_else (step_shell step) (sd_shell defaults)) ''bash -e {0}'') script)
        else Inl (incompatible workflow job_id (OnStep (StepWithOnRun name)))
    | (None, Some action) \<Rightarrow>
        if is_checkout_action action then Inr (CheckoutStep (scalar_map (step_with step)))
        else Inr (UsesStep action (scalar_map (step_with step)))
    | _ \<Rightarrow> Inl (incompatible workflow job_id (OnStep (StepNotRunOrUses name))))"

definition action_base :: "step \<Rightarrow> step_kind \<Rightarrow> failure + string" where
  "action_base step kind =
    (case step_id step of
      Some sid \<Rightarrow> Inr sid
    | None \<Rightarrow>
        (case kind of
          RunStep _ _ \<Rightarrow> Inr ''__run''
        | CheckoutStep _ \<Rightarrow> Inr ''actionscheckout''
        | UsesStep action _ \<Rightarrow>
            Inr (filter is_ascii_alphanumeric (hd (split_char (CHR ''@'') action)))
        | _ \<Rightarrow> Inl Panic))"

definition github_action_name :: "step_kind \<Rightarrow> string \<Rightarrow> nat \<Rightarrow> string" where
  "github_action_name kind base count =
    (if count = 1 then base
     else case kind of
       RunStep _ _ \<Rightarrow> base @ ''_'' @ show_nat count
     | _ \<Rightarrow> base @ show_nat count)"

definition step_background_value :: "bool \<Rightarrow> step \<Rightarrow> string option" where
  "step_background_value parallel_background step =
    (if parallel_background then Some ''true'' else step_background step)"

definition is_run_kind :: "step_kind \<Rightarrow> bool" where
  "is_run_kind kind = (case kind of RunStep _ _ \<Rightarrow> True | _ \<Rightarrow> False)"

definition note_background :: "step \<Rightarrow> string \<Rightarrow> string option \<Rightarrow> step_state \<Rightarrow> step_state" where
  "note_background step sid background s =
    (if step_id step \<noteq> None \<and> background \<noteq> Some ''false'' \<and> background \<noteq> None then
       s\<lparr>ss_background_ids := bt_insert (to_ascii_lowercase sid) sid (ss_background_ids s)\<rparr>
     else s)"

definition count_action :: "string \<Rightarrow> step_state \<Rightarrow> nat \<times> step_state" where
  "count_action base s =
    (let occurrence = or_default (bt_get (ss_action_occurrences s) base) 0 + 1 in
     (occurrence, s\<lparr>ss_action_occurrences := bt_insert base occurrence (ss_action_occurrences s)\<rparr>))"

definition ordinary_planned ::
  "step_defaults \<Rightarrow> step \<Rightarrow> string \<Rightarrow> string \<Rightarrow> step_kind \<Rightarrow> string \<Rightarrow> string option \<Rightarrow> planned_step"
where
  "ordinary_planned defaults step sid name kind github_action background =
    \<lparr>ps_id = sid, ps_github_action = github_action, ps_name = name,
     ps_environment = scalar_map (step_env step),
     ps_working_directory = (if is_run_kind kind then
       or_else (step_working_directory step) (sd_working_directory defaults) else None),
     ps_condition = step_condition step,
     ps_continue_on_error = step_continue_on_error step,
     ps_timeout_minutes = step_timeout_minutes step,
     ps_background = background, ps_kind = kind\<rparr>"

definition ordinary_step ::
  "string \<Rightarrow> string \<Rightarrow> step_defaults \<Rightarrow> step \<Rightarrow> bool \<Rightarrow> step_state \<Rightarrow> failure + string \<times> step_state"
where
  "ordinary_step workflow job_id defaults step parallel_background s =
    (let (generated_id, s) = take_step_number s;
         sid = or_default (step_id step) generated_id;
         name = ordinary_name step sid in
     bindE (register_step_id workflow job_id sid s) (\<lambda>s.
     bindE (ensure (\<not> (step_uses step \<noteq> None \<and>
         (step_shell step \<noteq> None \<or> step_working_directory step \<noteq> None)))
       (incompatible workflow job_id (OnStep (StepRunOnlyFields name)))) (\<lambda>_.
     bindE (ordinary_kind workflow job_id defaults step name) (\<lambda>kind.
     bindE (action_base step kind) (\<lambda>base.
     let (occurrence, s) = count_action base s;
         background = step_background_value parallel_background step in
     Inr (sid, push_step
       (ordinary_planned defaults step sid name kind (github_action_name kind base occurrence) background)
       (note_background step sid background s)))))))"

section \<open>Control steps\<close>

definition control_fields :: "step \<Rightarrow> nat" where
  "control_fields step =
    of_bool (step_wait step \<noteq> None) + of_bool (bt_get (step_extra step) ''wait-all'' \<noteq> None) +
    of_bool (step_cancel step \<noteq> None)"

definition control_not_standalone :: "step \<Rightarrow> bool \<Rightarrow> bool" where
  "control_not_standalone step parallel_background \<longleftrightarrow>
    control_fields step \<noteq> 1 \<or> parallel_background \<or> step_run step \<noteq> None \<or>
    step_uses step \<noteq> None \<or> step_shell step \<noteq> None \<or> step_working_directory step \<noteq> None \<or>
    step_env step \<noteq> [] \<or> step_with step \<noteq> [] \<or> step_condition step \<noteq> None \<or>
    step_timeout_minutes step \<noteq> None \<or> step_background step \<noteq> None"

definition control_kind :: "string \<Rightarrow> string \<Rightarrow> step \<Rightarrow> step_state \<Rightarrow> failure + step_kind" where
  "control_kind workflow job_id step s =
    (case step_wait step of
      Some wait \<Rightarrow>
        bindE (resolve_background_ids workflow job_id ''wait'' wait (ss_background_ids s)) (\<lambda>ids.
        Inr (WaitStep ids))
    | None \<Rightarrow>
        if bt_get (step_extra step) ''wait-all'' \<noteq> None then Inr WaitAllStep
        else
          bindE (ok_or (step_cancel step) Panic) (\<lambda>sid.
          bindE (resolve_background_ids workflow job_id ''cancel'' [sid] (ss_background_ids s)) (\<lambda>ids.
          (case ids of [] \<Rightarrow> Inl Panic | sid # _ \<Rightarrow> Inr (CancelStep sid)))))"

definition control_label :: "step_kind \<Rightarrow> string \<Rightarrow> string \<Rightarrow> string \<Rightarrow> failure + string" where
  "control_label kind wait wait_all cancel =
    (case kind of
      WaitStep _ \<Rightarrow> Inr wait
    | WaitAllStep \<Rightarrow> Inr wait_all
    | CancelStep _ \<Rightarrow> Inr cancel
    | _ \<Rightarrow> Inl Panic)"

definition control_planned :: "step \<Rightarrow> string \<Rightarrow> string \<Rightarrow> step_kind \<Rightarrow> string \<Rightarrow> planned_step" where
  "control_planned step sid name kind github_action =
    \<lparr>ps_id = sid, ps_github_action = github_action, ps_name = name, ps_environment = [],
     ps_working_directory = None, ps_condition = None,
     ps_continue_on_error = step_continue_on_error step, ps_timeout_minutes = None,
     ps_background = None, ps_kind = kind\<rparr>"

definition control_step ::
  "string \<Rightarrow> string \<Rightarrow> step \<Rightarrow> bool \<Rightarrow> step_state \<Rightarrow> failure + string \<times> step_state"
where
  "control_step workflow job_id step parallel_background s =
    bindE (ensure (\<not> control_not_standalone step parallel_background)
      (incompatible workflow job_id (OnStep ControlStepNotStandalone))) (\<lambda>_.
    bindE (control_kind workflow job_id step s) (\<lambda>kind.
    let (generated_id, s) = take_step_number s;
        sid = or_default (step_id step) generated_id in
    bindE (register_step_id workflow job_id sid s) (\<lambda>s.
    bindE (case step_name step of
        Some name \<Rightarrow> Inr name
      | None \<Rightarrow> control_label kind ''Wait for background steps'' ''Wait for all background steps''
          ''Cancel background step'') (\<lambda>name.
    bindE (case step_id step of
        Some sid \<Rightarrow> Inr sid
      | None \<Rightarrow> control_label kind ''__wait'' ''__wait_all'' ''__cancel'') (\<lambda>github_action.
    Inr (sid, push_step (control_planned step sid name kind github_action) s))))))"

section \<open>Parallel groups\<close>

definition parallel_with_other_fields :: "step \<Rightarrow> bool" where
  "parallel_with_other_fields step \<longleftrightarrow>
    step_id step \<noteq> None \<or> step_name step \<noteq> None \<or> step_run step \<noteq> None \<or>
    step_uses step \<noteq> None \<or> step_shell step \<noteq> None \<or> step_working_directory step \<noteq> None \<or>
    step_env step \<noteq> [] \<or> step_with step \<noteq> [] \<or> step_condition step \<noteq> None \<or>
    step_continue_on_error step \<noteq> None \<or> step_timeout_minutes step \<noteq> None \<or>
    step_background step \<noteq> None \<or> step_wait step \<noteq> None \<or> step_cancel step \<noteq> None \<or>
    bt_get (step_extra step) ''wait-all'' \<noteq> None"

definition parallel_child_ordinary :: "step \<Rightarrow> bool" where
  "parallel_child_ordinary child \<longleftrightarrow>
    \<not> (step_background child \<noteq> None \<or> step_wait child \<noteq> None \<or> step_cancel child \<noteq> None \<or>
       step_parallel child \<noteq> None \<or> bt_contains_key (step_extra child) ''wait-all'')"

definition finish_parallel ::
  "string \<Rightarrow> string \<Rightarrow> nat \<Rightarrow> string list \<Rightarrow> step_state \<Rightarrow> failure + string \<times> step_state"
where
  "finish_parallel workflow job_id grp group_ids s =
    (let sid = ''__parallel_'' @ show_nat grp @ ''_wait'' in
     bindE (register_step_id workflow job_id sid s) (\<lambda>s.
     let s = push_step
       \<lparr>ps_id = sid, ps_github_action = sid, ps_name = ''Wait for parallel steps'',
        ps_environment = [], ps_working_directory = None, ps_condition = None,
        ps_continue_on_error = None, ps_timeout_minutes = None, ps_background = None,
        ps_kind = WaitStep group_ids\<rparr> s in
     Inr (sid, s\<lparr>ss_next_step_number := ss_next_step_number s + 1\<rparr>)))"

definition check_step_extra :: "yaml_api \<Rightarrow> string \<Rightarrow> string \<Rightarrow> step \<Rightarrow> failure + unit" where
  "check_step_extra Y workflow job_id step =
    (case find (\<lambda>feature. feature \<noteq> ''wait-all'') (bt_keys (step_extra step)) of
      Some feature \<Rightarrow> Inl (incompatible workflow job_id (OnStep (StepKeyUnsupported feature)))
    | None \<Rightarrow>
        (case bt_get (step_extra step) ''wait-all'' of
          Some v \<Rightarrow> ensure (is_null Y v) (incompatible workflow job_id (OnStep WaitAllValue))
        | None \<Rightarrow> Inr ()))"

section \<open>Steps\<close>

lemma size_parallel_child:
  "step_parallel step = Some children \<Longrightarrow> child \<in> set children \<Longrightarrow> size child < size step"
  by (cases step) (auto simp: less_Suc_eq_le intro!: le_SucI size_list_estimation')

function compile_step ::
  "yaml_api \<Rightarrow> string \<Rightarrow> string \<Rightarrow> step_defaults \<Rightarrow> step \<Rightarrow> bool \<Rightarrow> step_state
    \<Rightarrow> failure + string \<times> step_state"
where
  "compile_step Y workflow job_id defaults step parallel_background s =
    bindE (check_step_extra Y workflow job_id step) (\<lambda>_.
    (case step_parallel step of
      Some parallel \<Rightarrow>
        bindE (ensure (\<not> parallel_background)
          (incompatible workflow job_id (OnStep ParallelNested))) (\<lambda>_.
        bindE (ensure (parallel \<noteq> [])
          (incompatible workflow job_id (OnStep ParallelEmpty))) (\<lambda>_.
        bindE (ensure (\<not> parallel_with_other_fields step)
          (incompatible workflow job_id (OnStep ParallelWithOtherFields))) (\<lambda>_.
        let grp = ss_next_parallel_group s in
        bindE (foldE (\<lambda>acc child.
            bindE (ensure (parallel_child_ordinary child)
              (incompatible workflow job_id (OnStep ParallelEntryNotOrdinary))) (\<lambda>_.
            bindE (compile_step Y workflow job_id defaults child True (snd acc)) (\<lambda>r.
            Inr (fst acc @ [fst r], snd r))))
          ([], s\<lparr>ss_next_parallel_group := ss_next_parallel_group s + 1\<rparr>) parallel) (\<lambda>acc.
        finish_parallel workflow job_id grp (fst acc) (snd acc)))))
    | None \<Rightarrow>
        if control_fields step > 0 then control_step workflow job_id step parallel_background s
        else ordinary_step workflow job_id defaults step parallel_background s))"
  by pat_completeness auto
termination
  by (relation "measure (\<lambda>(_, _, _, _, step, _, _). size step)") (auto dest: size_parallel_child)

declare compile_step.simps [simp del]

definition initial_step_state :: step_state where
  "initial_step_state =
    \<lparr>ss_steps = [], ss_action_occurrences = [], ss_step_ids = {}, ss_background_ids = [],
     ss_next_step_number = 1, ss_next_parallel_group = 1\<rparr>"

definition compile_steps ::
  "yaml_api \<Rightarrow> string \<Rightarrow> string \<Rightarrow> step list \<Rightarrow> step_defaults \<Rightarrow> failure + planned_step list"
where
  "compile_steps Y workflow job_id source_steps defaults =
    bindE (foldE (\<lambda>s step.
        bindE (compile_step Y workflow job_id defaults step False s) (\<lambda>r. Inr (snd r)))
      initial_step_state source_steps) (\<lambda>s.
    Inr (ss_steps s))"

section \<open>What compiled steps satisfy\<close>

definition runs_in_background :: "planned_step \<Rightarrow> bool" where
  "runs_in_background p \<longleftrightarrow> ps_background p \<noteq> None \<and> ps_background p \<noteq> Some ''false''"

fun awaited_ids :: "step_kind \<Rightarrow> string list" where
  "awaited_ids (WaitStep ids) = ids"
| "awaited_ids (CancelStep sid) = [sid]"
| "awaited_ids _ = []"

text \<open>Every step named by a wait or cancel step is a background step before it.\<close>

definition background_before :: "planned_step list \<Rightarrow> string \<Rightarrow> bool" where
  "background_before earlier sid \<longleftrightarrow> (\<exists>q\<in>set earlier. ps_id q = sid \<and> runs_in_background q)"

definition references_ok :: "planned_step list \<Rightarrow> bool" where
  "references_ok steps \<longleftrightarrow> (\<forall>earlier p later. steps = earlier @ p # later \<longrightarrow>
    (\<forall>sid\<in>set (awaited_ids (ps_kind p)). background_before earlier sid))"

definition ids_unique :: "planned_step list \<Rightarrow> bool" where
  "ids_unique steps \<longleftrightarrow> distinct (map (to_ascii_lowercase \<circ> ps_id) steps)"

definition step_state_inv :: "step_state \<Rightarrow> bool" where
  "step_state_inv s \<longleftrightarrow>
    ss_step_ids s = set (map (to_ascii_lowercase \<circ> ps_id) (ss_steps s)) \<and>
    ids_unique (ss_steps s) \<and> references_ok (ss_steps s) \<and> bt_wf (ss_background_ids s) \<and>
    (\<forall>k sid. bt_get (ss_background_ids s) k = Some sid \<longrightarrow> background_before (ss_steps s) sid)"

lemma references_ok_Nil [simp]: "references_ok []"
  by (simp add: references_ok_def)

lemma references_ok_snoc:
  "references_ok (steps @ [p]) \<longleftrightarrow>
    references_ok steps \<and> (\<forall>sid\<in>set (awaited_ids (ps_kind p)). background_before steps sid)"
proof
  assume ok: "references_ok (steps @ [p])"
  have "references_ok steps"
    unfolding references_ok_def
  proof (intro allI impI)
    fix earlier q later assume "steps = earlier @ q # later"
    then have "steps @ [p] = earlier @ q # (later @ [p])" by simp
    with ok show "\<forall>sid\<in>set (awaited_ids (ps_kind q)). background_before earlier sid"
      unfolding references_ok_def by blast
  qed
  moreover have "\<forall>sid\<in>set (awaited_ids (ps_kind p)). background_before steps sid"
    using ok unfolding references_ok_def by blast
  ultimately show "references_ok steps \<and> (\<forall>sid\<in>set (awaited_ids (ps_kind p)). background_before steps sid)"
    by blast
next
  assume "references_ok steps \<and> (\<forall>sid\<in>set (awaited_ids (ps_kind p)). background_before steps sid)"
  then show "references_ok (steps @ [p])"
    unfolding references_ok_def by (auto simp: append_eq_append_conv2 Cons_eq_append_conv append_eq_Cons_conv)
qed

lemma background_before_append: "background_before xs sid \<Longrightarrow> background_before (xs @ ys) sid"
  by (auto simp: background_before_def)

lemma register_ok:
  assumes "register_step_id workflow job_id sid s = Inr t"
  shows "to_ascii_lowercase sid \<notin> ss_step_ids s" "ss_steps t = ss_steps s"
    "ss_step_ids t = insert (to_ascii_lowercase sid) (ss_step_ids s)"
    "ss_background_ids t = ss_background_ids s"
proof -
  have "to_ascii_lowercase sid \<notin> ss_step_ids s \<and>
      t = s\<lparr>ss_step_ids := insert (to_ascii_lowercase sid) (ss_step_ids s)\<rparr>"
    using assms unfolding register_step_id_def by (metis Inl_Inr_False sum.inject(2))
  then show "to_ascii_lowercase sid \<notin> ss_step_ids s" "ss_steps t = ss_steps s"
    "ss_step_ids t = insert (to_ascii_lowercase sid) (ss_step_ids s)"
    "ss_background_ids t = ss_background_ids s"
    by simp_all
qed

text \<open>Registering an id and pushing the step with it keeps the invariant.\<close>

lemma register_push_inv:
  assumes "step_state_inv s" and "register_step_id workflow job_id (ps_id p) s' = Inr t"
    and "ss_steps s' = ss_steps s" "ss_step_ids s' = ss_step_ids s"
      "ss_background_ids s' = ss_background_ids s"
    and "ss_steps u = ss_steps t" "ss_step_ids u = ss_step_ids t"
      "ss_background_ids u = ss_background_ids t \<or>
       ss_background_ids u = bt_insert (to_ascii_lowercase (ps_id p)) (ps_id p) (ss_background_ids t) \<and>
       runs_in_background p"
    and "\<forall>sid\<in>set (awaited_ids (ps_kind p)). background_before (ss_steps s) sid"
  shows "step_state_inv (push_step p u)"
proof -
  have new: "to_ascii_lowercase (ps_id p) \<notin> ss_step_ids s"
    and t: "ss_steps t = ss_steps s"
      "ss_step_ids t = insert (to_ascii_lowercase (ps_id p)) (ss_step_ids s)"
      "ss_background_ids t = ss_background_ids s"
    using register_ok [OF assms(2)] assms(3-5) by simp_all
  have wf: "bt_wf (ss_background_ids s)" using assms(1) by (simp add: step_state_inv_def)
  have known: "background_before (ss_steps s) sid"
    if "bt_get (ss_background_ids s) k = Some sid" for k sid
    using assms(1) that unfolding step_state_inv_def by blast
  have bg: "bt_wf (ss_background_ids u)"
    using assms(8) wf t(3) by (auto simp: bt_wf_insert)
  have "background_before (ss_steps s @ [p]) sid"
    if get: "bt_get (ss_background_ids u) k = Some sid" for k sid
  proof (cases "bt_get (ss_background_ids s) k = Some sid")
    case True
    then show ?thesis by (rule background_before_append [OF known])
  next
    case False
    with get assms(8) t(3) have ins: "ss_background_ids u =
        bt_insert (to_ascii_lowercase (ps_id p)) (ps_id p) (ss_background_ids s)"
      and runs: "runs_in_background p" by auto
    from get False have "sid = ps_id p"
      unfolding ins bt_get_insert [OF wf] by (simp split: if_splits)
    with runs show ?thesis by (auto simp: background_before_def)
  qed
  then have bg2: "\<forall>k sid. bt_get (ss_background_ids u) k = Some sid \<longrightarrow>
      background_before (ss_steps s @ [p]) sid" by blast
  have inv: "ss_step_ids s = set (map (to_ascii_lowercase \<circ> ps_id) (ss_steps s))"
    "ids_unique (ss_steps s)" "references_ok (ss_steps s)"
    using assms(1) by (simp_all add: step_state_inv_def)
  have unique: "ids_unique (ss_steps s @ [p])"
    using inv(1,2) new by (simp add: ids_unique_def)
  have refs: "references_ok (ss_steps s @ [p])"
    using inv(3) assms(9) by (simp add: references_ok_snoc)
  have fields: "ss_steps (push_step p u) = ss_steps s @ [p]"
    "ss_step_ids (push_step p u) = insert (to_ascii_lowercase (ps_id p)) (ss_step_ids s)"
    "ss_background_ids (push_step p u) = ss_background_ids u"
    using assms(6,7) t by (simp_all add: push_step_def)
  show ?thesis
    unfolding step_state_inv_def fields using bg bg2 unique refs inv(1) by simp
qed

lemma resolve_background_inv:
  assumes "step_state_inv s"
    "resolve_background_ids workflow job_id control wanted (ss_background_ids s) = Inr ids"
  shows "\<forall>sid\<in>set ids. background_before (ss_steps s) sid" "length ids = length wanted"
proof -
  have rel: "list_all2 (\<lambda>w sid. bt_get (ss_background_ids s) (to_ascii_lowercase w) = Some sid) wanted ids"
    using assms(2) by (simp add: resolve_background_ids_def mapE_Inr ok_or_Inr)
  then show "length ids = length wanted" by (simp add: list_all2_lengthD)
  show "\<forall>sid\<in>set ids. background_before (ss_steps s) sid"
    using rel assms(1) unfolding step_state_inv_def list_all2_conv_all_nth
    by (metis in_set_conv_nth)
qed

definition extends :: "step_state \<Rightarrow> step_state \<Rightarrow> bool" where
  "extends s t \<longleftrightarrow> (\<exists>new. ss_steps t = ss_steps s @ new)"

lemma extends_refl [simp]: "extends s s"
  by (simp add: extends_def)

lemma extends_trans: "extends s t \<Longrightarrow> extends t u \<Longrightarrow> extends s u"
  by (auto simp: extends_def)

lemma extends_background: "extends s t \<Longrightarrow> background_before (ss_steps s) sid \<Longrightarrow> background_before (ss_steps t) sid"
  by (auto simp: extends_def background_before_append)

lemma ordinary_kind_awaits:
  "ordinary_kind workflow job_id defaults step name = Inr kind \<Longrightarrow> awaited_ids kind = []"
  by (auto simp: ordinary_kind_def split: option.splits if_splits)

lemma ordinary_step_inv:
  assumes "step_state_inv s"
    "ordinary_step workflow job_id defaults step parallel s = Inr (sid, s')"
  shows "step_state_inv s' \<and> extends s s' \<and> (parallel \<longrightarrow> background_before (ss_steps s') sid)"
proof -
  let ?s0 = "snd (take_step_number s)"
  from assms(2) obtain t kind name action base where
    reg: "register_step_id workflow job_id sid ?s0 = Inr t"
    and kind: "awaited_ids kind = []"
    and s'_eq: "s' = push_step
      (ordinary_planned defaults step sid name kind action (step_background_value parallel step))
      (note_background step sid (step_background_value parallel step) (snd (count_action base t)))"
    by (auto simp: ordinary_step_def Let_def result_simps case_prod_unfold
        dest: ordinary_kind_awaits)
  define p where
    "p = ordinary_planned defaults step sid name kind action (step_background_value parallel step)"
  define u where "u = snd (count_action base t)"
  have p: "ps_id p = sid" "ps_background p = step_background_value parallel step"
      "awaited_ids (ps_kind p) = []"
    by (simp_all add: p_def ordinary_planned_def kind)
  have u: "ss_steps u = ss_steps t" "ss_step_ids u = ss_step_ids t"
      "ss_background_ids u = ss_background_ids t"
    by (simp_all add: u_def count_action_def Let_def)
  have s': "s' = push_step p (note_background step sid (ps_background p) u)"
    by (simp add: s'_eq p_def u_def ordinary_planned_def)
  let ?n = "note_background step sid (ps_background p) u"
  have "ss_background_ids ?n = ss_background_ids t \<or>
     ss_background_ids ?n = bt_insert (to_ascii_lowercase (ps_id p)) (ps_id p) (ss_background_ids t) \<and>
     runs_in_background p"
    using u p by (auto simp: note_background_def runs_in_background_def)
  then have "step_state_inv s'"
    unfolding s' using assms(1) reg p u
    by (intro register_push_inv [of s workflow job_id p ?s0 t])
      (auto simp: take_step_number_def note_background_def)
  moreover have steps: "ss_steps s' = ss_steps s @ [p]"
    using register_ok(2) [OF reg] u s'
    by (simp add: push_step_def note_background_def take_step_number_def)
  ultimately show ?thesis
    using p by (auto simp: extends_def background_before_def runs_in_background_def
        step_background_value_def)
qed

lemma control_kind_awaits:
  assumes "step_state_inv s" "control_kind workflow job_id step s = Inr kind"
  shows "\<forall>sid\<in>set (awaited_ids kind). background_before (ss_steps s) sid"
proof (cases "step_wait step")
  case (Some wait)
  with assms(2) obtain ids where
    "resolve_background_ids workflow job_id ''wait'' wait (ss_background_ids s) = Inr ids"
    "kind = WaitStep ids"
    by (auto simp: control_kind_def bindE_Inr)
  with resolve_background_inv(1) [OF assms(1)] show ?thesis by simp
next
  case None
  show ?thesis
  proof (cases "bt_get (step_extra step) ''wait-all'' = None")
    case True
    with None assms(2) obtain wanted ids where
      ids: "resolve_background_ids workflow job_id ''cancel'' [wanted] (ss_background_ids s) = Inr ids"
      "(case ids of [] \<Rightarrow> Inl Panic | sid # _ \<Rightarrow> Inr (CancelStep sid)) = Inr kind"
      by (auto simp: control_kind_def bindE_Inr)
    then obtain sid rest where "ids = sid # rest" "kind = CancelStep sid"
      by (cases ids) auto
    with ids(1) resolve_background_inv(1) [OF assms(1)] show ?thesis by simp
  next
    case False
    with None assms(2) show ?thesis by (auto simp: control_kind_def)
  qed
qed

lemma control_step_inv:
  assumes "step_state_inv s"
    "control_step workflow job_id step parallel s = Inr (sid, s')"
  shows "step_state_inv s' \<and> extends s s' \<and> \<not> parallel"
proof -
  let ?s0 = "snd (take_step_number s)"
  from assms(2) obtain t name action kind where
    kind: "control_kind workflow job_id step s = Inr kind"
    and alone: "\<not> control_not_standalone step parallel"
    and reg: "register_step_id workflow job_id sid ?s0 = Inr t"
    and s'_eq: "s' = push_step (control_planned step sid name kind action) t"
    by (auto simp: control_step_def Let_def result_simps case_prod_unfold)
  define p where "p = control_planned step sid name kind action"
  have p: "ps_id p = sid" "ps_kind p = kind" by (simp_all add: p_def control_planned_def)
  have s': "s' = push_step p t" by (simp add: s'_eq p_def)
  have awaited: "\<forall>sid\<in>set (awaited_ids kind). background_before (ss_steps s) sid"
    by (rule control_kind_awaits [OF assms(1) kind])
  have "step_state_inv s'"
    unfolding s' using assms(1) reg p awaited
    by (intro register_push_inv [of s workflow job_id p ?s0 t]) (auto simp: take_step_number_def)
  moreover have "extends s s'"
    using register_ok(2) [OF reg] s' by (simp add: extends_def push_step_def take_step_number_def)
  ultimately show ?thesis using alone by (simp add: control_not_standalone_def)
qed

lemma finish_parallel_inv:
  assumes "step_state_inv s" "finish_parallel workflow job_id grp ids s = Inr (sid, s')"
    and "\<forall>i\<in>set ids. background_before (ss_steps s) i"
  shows "step_state_inv s' \<and> extends s s'"
proof -
  let ?id = "''__parallel_'' @ show_nat grp @ ''_wait''"
  define p where "p = \<lparr>ps_id = ?id, ps_github_action = ?id, ps_name = ''Wait for parallel steps'',
        ps_environment = [], ps_working_directory = None, ps_condition = None,
        ps_continue_on_error = None, ps_timeout_minutes = None, ps_background = None,
        ps_kind = WaitStep ids\<rparr>"
  from assms(2) obtain t where reg: "register_step_id workflow job_id ?id s = Inr t"
    and s': "s' = (push_step p t)\<lparr>ss_next_step_number := ss_next_step_number (push_step p t) + 1\<rparr>"
    by (auto simp: finish_parallel_def Let_def bindE_Inr p_def)
  have "step_state_inv (push_step p t)"
    using assms(1,3) reg by (intro register_push_inv [of s workflow job_id p s t]) (auto simp: p_def)
  then have "step_state_inv s'" unfolding s' by (simp add: step_state_inv_def)
  moreover have "extends s s'"
    using register_ok(2) [OF reg] by (simp add: s' extends_def push_step_def)
  ultimately show ?thesis by blast
qed

lemma compile_step_inv:
  "compile_step Y workflow job_id defaults step parallel s = Inr (sid, s') \<Longrightarrow> step_state_inv s \<Longrightarrow>
    step_state_inv s' \<and> extends s s' \<and> (parallel \<longrightarrow> background_before (ss_steps s') sid)"
proof (induction "size step" arbitrary: step parallel s sid s' rule: less_induct)
  case less
  note prems = less.prems
  show ?case
  proof (cases "step_parallel step")
    case None
    show ?thesis
    proof (cases "control_fields step > 0")
      case True
      have "control_step workflow job_id step parallel s = Inr (sid, s')"
        using prems(1) None True by (subst (asm) compile_step.simps) (simp add: bindE_Inr)
      from control_step_inv [OF prems(2) this] show ?thesis by blast
    next
      case False
      have "ordinary_step workflow job_id defaults step parallel s = Inr (sid, s')"
        using prems(1) None False by (subst (asm) compile_step.simps) (simp add: bindE_Inr)
      from ordinary_step_inv [OF prems(2) this] show ?thesis by blast
    qed
  next
    case (Some children)
    let ?body = "\<lambda>acc child.
            bindE (ensure (parallel_child_ordinary child)
              (incompatible workflow job_id (OnStep ParallelEntryNotOrdinary))) (\<lambda>_.
            bindE (compile_step Y workflow job_id defaults child True (snd acc)) (\<lambda>r.
            Inr (fst acc @ [fst r], snd r)))"
    let ?start = "s\<lparr>ss_next_parallel_group := ss_next_parallel_group s + 1\<rparr>"
    from prems(1) Some obtain acc where alone: "\<not> parallel"
      and loop: "foldE ?body ([], ?start) children = Inr acc"
      and finish: "finish_parallel workflow job_id (ss_next_parallel_group s) (fst acc) (snd acc)
        = Inr (sid, s')"
      by (subst (asm) compile_step.simps) (auto simp: result_simps Let_def)
    let ?P = "\<lambda>acc. step_state_inv (snd acc) \<and> extends s (snd acc) \<and>
      (\<forall>i\<in>set (fst acc). background_before (ss_steps (snd acc)) i)"
    have "?P acc"
    proof (rule foldE_invariant [where P = ?P, OF loop])
      show "?P ([], ?start)" using prems(2) by (simp add: step_state_inv_def extends_def)
    next
      fix a child a' assume child: "child \<in> set children" and P: "?P a" and step: "?body a child = Inr a'"
      from step obtain r where r: "compile_step Y workflow job_id defaults child True (snd a) = Inr r"
        and a': "a' = (fst a @ [fst r], snd r)" by (auto simp: result_simps)
      have IH: "step_state_inv (snd r)" "extends (snd a) (snd r)"
          "background_before (ss_steps (snd r)) (fst r)"
        using less.hyps [OF size_parallel_child [OF Some child], of True "snd a" "fst r" "snd r"] r P
        by simp_all
      have "background_before (ss_steps (snd r)) i" if "i \<in> set (fst a)" for i
        using P that IH(2) extends_background by blast
      with IH P show "?P a'" unfolding a' using extends_trans by auto
    qed
    with finish_parallel_inv [OF _ finish] alone extends_trans show ?thesis by blast
  qed
qed

lemma compile_steps_inv:
  assumes "compile_steps Y workflow job_id source_steps defaults = Inr steps"
  shows "ids_unique steps \<and> references_ok steps"
proof -
  let ?body = "\<lambda>s step. bindE (compile_step Y workflow job_id defaults step False s) (\<lambda>r. Inr (snd r))"
  from assms obtain s where loop: "foldE ?body initial_step_state source_steps = Inr s"
    and steps: "steps = ss_steps s"
    by (auto simp: compile_steps_def bindE_Inr)
  have "step_state_inv s"
  proof (rule foldE_invariant [where P = step_state_inv, OF loop])
    show "step_state_inv initial_step_state"
      by (simp add: step_state_inv_def initial_step_state_def ids_unique_def bt_wf_def)
  next
    fix s step s' assume "step_state_inv s" "?body s step = Inr s'"
    then show "step_state_inv s'" using compile_step_inv by (fastforce simp: bindE_Inr)
  qed
  then show ?thesis by (simp add: step_state_inv_def steps)
qed

text \<open>
  C23. In the steps a job compiles to, no two step ids are equal up to ASCII case, generated
  ids and the waits of parallel groups included, and every step that a \<open>wait\<close>, a \<open>cancel\<close>
  or the end of a parallel group refers to stands before it and runs in the background.
\<close>

theorem compile_steps_well_formed:
  assumes "compile_steps Y workflow job_id source_steps defaults = Inr steps"
  shows "distinct (map (to_ascii_lowercase \<circ> ps_id) steps) \<and>
    (\<forall>i<length steps. \<forall>target\<in>set (awaited_ids (ps_kind (steps ! i))).
      \<exists>j<i. ps_id (steps ! j) = target \<and> ps_background (steps ! j) \<notin> {None, Some ''false''})"
proof -
  have inv: "ids_unique steps" "references_ok steps" using compile_steps_inv [OF assms] by blast+
  have "\<exists>j<i. ps_id (steps ! j) = target \<and> ps_background (steps ! j) \<notin> {None, Some ''false''}"
    if i: "i < length steps" and target: "target \<in> set (awaited_ids (ps_kind (steps ! i)))" for i target
  proof -
    have "steps = take i steps @ steps ! i # drop (Suc i) steps" using i by (rule id_take_nth_drop)
    then have "background_before (take i steps) target"
      using inv(2) target unfolding references_ok_def by blast
    then obtain q where q: "q \<in> set (take i steps)" "ps_id q = target" "runs_in_background q"
      by (auto simp: background_before_def)
    then obtain j where "j < i" "steps ! j = q" using i by (auto simp: in_set_conv_nth)
    then show ?thesis using q by (intro exI [of _ j]) (simp add: runs_in_background_def)
  qed
  with inv(1) show ?thesis by (simp add: ids_unique_def)
qed

definition sample_step :: "string option \<Rightarrow> string option \<Rightarrow> string option \<Rightarrow> string list option \<Rightarrow> step" where
  "sample_step sid run background wait =
    Step sid None run None None None [] [] None None None background wait None None []"

theorem compile_steps_well_formed_witness:
  "\<exists>steps. compile_steps plain_yaml ''ci'' ''build''
      [sample_step (Some ''Server'') (Some ''serve'') (Some ''true'') None,
       sample_step None (Some ''make'') None None,
       sample_step None None None (Some [''server''])]
      \<lparr>sd_shell = None, sd_working_directory = None\<rparr> = Inr steps \<and>
    awaited_ids (ps_kind (steps ! 2)) = [''Server''] \<and>
    (\<exists>j<2. ps_id (steps ! j) = ''Server'' \<and> ps_background (steps ! j) \<notin> {None, Some ''false''})"
proof -
  let ?run = "compile_steps plain_yaml ''ci'' ''build''
      [sample_step (Some ''Server'') (Some ''serve'') (Some ''true'') None,
       sample_step None (Some ''make'') None None,
       sample_step None None None (Some [''server''])]
      \<lparr>sd_shell = None, sd_working_directory = None\<rparr>"
  have "case ?run of Inl _ \<Rightarrow> False
      | Inr steps \<Rightarrow> length steps = 3 \<and> awaited_ids (ps_kind (steps ! 2)) = [''Server'']"
    by code_simp
  then obtain steps where steps: "?run = Inr steps" "length steps = 3"
      "awaited_ids (ps_kind (steps ! 2)) = [''Server'']"
    by (auto split: sum.splits)
  have "\<exists>j<2. ps_id (steps ! j) = ''Server'' \<and> ps_background (steps ! j) \<notin> {None, Some ''false''}"
    using compile_steps_well_formed [OF steps(1)] steps(2,3) by auto
  with steps show ?thesis by blast
qed

section \<open>Steps never panic\<close>

lemma no_fault_register [simp]: "no_fault (register_step_id workflow job_id sid s)"
  by (simp add: register_step_id_def)

lemma no_fault_resolve [simp]: "no_fault (resolve_background_ids workflow job_id control ids bg)"
  by (simp add: resolve_background_ids_def no_fault_mapE)

lemma no_fault_action_base:
  "ordinary_kind workflow job_id defaults step name = Inr kind \<Longrightarrow> no_fault (action_base step kind)"
  by (auto simp: ordinary_kind_def action_base_def split: option.splits if_splits)

lemma no_fault_ordinary_kind [simp]: "no_fault (ordinary_kind workflow job_id defaults step name)"
  by (simp add: ordinary_kind_def split: option.splits)

lemma no_fault_ordinary_step: "no_fault (ordinary_step workflow job_id defaults step parallel s)"
  by (auto simp: ordinary_step_def Let_def case_prod_unfold intro!: no_fault_bindE no_fault_action_base)

lemma no_fault_control_kind:
  assumes "control_fields step = 1"
  shows "no_fault (control_kind workflow job_id step s)"
proof (cases "step_wait step = None \<and> bt_get (step_extra step) ''wait-all'' = None")
  case True
  then obtain target where "step_cancel step = Some target"
    using assms by (cases "step_cancel step") (auto simp: control_fields_def)
  moreover have "no_fault (case ids of [] \<Rightarrow> Inl Panic | sid # _ \<Rightarrow> Inr (CancelStep sid))"
    if "resolve_background_ids workflow job_id ''cancel'' [target] (ss_background_ids s) = Inr ids"
    for ids
    using that by (auto simp: resolve_background_ids_def result_simps)
  ultimately show ?thesis
    using True by (auto simp: control_kind_def ok_or_def intro!: no_fault_bindE)
next
  case False
  then show ?thesis
    by (auto simp: control_kind_def intro!: no_fault_bindE split: option.splits)
qed

lemma no_fault_control_label:
  "control_kind workflow job_id step s = Inr kind \<Longrightarrow> no_fault (control_label kind a b c)"
  by (auto simp: control_kind_def control_label_def bindE_Inr list.case_eq_if
      split: option.splits if_splits)

lemma no_fault_control_step: "no_fault (control_step workflow job_id step parallel s)"
  by (auto simp: control_step_def Let_def case_prod_unfold ensure_Inr control_not_standalone_def
      intro!: no_fault_bindE no_fault_control_kind no_fault_control_label split: option.splits)

lemma no_fault_compile_step: "no_fault (compile_step Y workflow job_id defaults step parallel s)"
proof (induction "size step" arbitrary: step parallel s rule: less_induct)
  case less
  have extra: "no_fault (check_step_extra Y workflow job_id step)"
    by (simp add: check_step_extra_def split: option.splits)
  have "no_fault (compile_step Y workflow job_id defaults child True t)"
    if "step_parallel step = Some children" "child \<in> set children" for child children t
    using less size_parallel_child [OF that] by blast
  with extra show ?case
    by (subst compile_step.simps)
      (auto simp: Let_def finish_parallel_def no_fault_ordinary_step no_fault_control_step
        intro!: no_fault_bindE no_fault_foldE [where P = "\<lambda>_. True"] split: option.splits)
qed

lemma no_fault_compile_steps [simp]: "no_fault (compile_steps Y workflow job_id source defaults)"
  by (auto simp: compile_steps_def no_fault_compile_step
      intro!: no_fault_bindE no_fault_foldE [where P = "\<lambda>_. True"])

end
