(* ===== verification/Compile.thy ===== *)
theory Compile
  imports Dependencies Permissions Matrix Settings Steps
begin

text \<open>
  The compiler of one workflow file: \<open>validate_job\<close> and \<open>compile\<close> of the workflow crate,
  over the components for permissions, concurrency, matrices, steps and dependencies. The
  path argument is the text \<open>to_string_lossy\<close> gives.
\<close>

section \<open>Operations\<close>

definition validate_job :: "string \<Rightarrow> string \<Rightarrow> job \<Rightarrow> failure + unit" where
  "validate_job workflow job_id job =
    bindE (ensure (job_uses job = None) (incompatible workflow job_id (OnJob CallNotLinked))) (\<lambda>_.
    bindE (ok_or (job_runs_on job) (incompatible workflow job_id (OnJob RunsOnMissing))) (\<lambda>_.
    bindE (foldE (\<lambda>_ (present, feature).
        ensure (\<not> present) (incompatible workflow job_id (OnJob (FeatureUnsupported feature))))
      () [(job_container job \<noteq> None, ''container''), (job_services job \<noteq> None, ''services'')]) (\<lambda>_.
    bindE (ensure (\<not> (job_with job \<noteq> [] \<or> job_secrets job \<noteq> None))
      (incompatible workflow job_id (OnJob WithOrSecretsOnRunnableJob))) (\<lambda>_.
    (case bt_keys (job_extra job) of
      feature # _ \<Rightarrow> Inl (incompatible workflow job_id (OnJob (JobKeyUnsupported feature)))
    | [] \<Rightarrow> Inr ())))))"

text \<open>What \<open>compile\<close> computes once and every job of the workflow uses.\<close>

record compile_env =
  ce_api :: yaml_api
  ce_parse :: parser
  ce_workflow_name :: string
  ce_workflow_path :: string
  ce_workflow :: workflow
  ce_permissions :: planned_permissions

definition has_matrix :: "matrix_plan \<Rightarrow> bool" where
  "has_matrix m \<longleftrightarrow> mp_dynamic m \<noteq> None \<or> length (mp_combinations m) > 1 \<or>
    list_ex (\<lambda>matrix. matrix \<noteq> []) (mp_combinations m)"

definition planned_job_id :: "string \<Rightarrow> matrix_plan \<Rightarrow> nat \<Rightarrow> string" where
  "planned_job_id job_id m matrix_index =
    (if has_matrix m then job_id @ ''['' @ show_nat (matrix_index + 1) @ '']'' else job_id)"

definition job_step_defaults :: "workflow \<Rightarrow> job \<Rightarrow> step_defaults" where
  "job_step_defaults workflow job =
    \<lparr>sd_shell = or_else (rd_shell (df_run (job_defaults job))) (rd_shell (df_run (wf_defaults workflow))),
     sd_working_directory = or_else (rd_working_directory (df_run (job_defaults job)))
       (rd_working_directory (df_run (wf_defaults workflow)))\<rparr>"

text \<open>The body of the loop over the combinations of a job.\<close>

definition compile_matrix_job ::
  "compile_env \<Rightarrow> string \<Rightarrow> job \<Rightarrow> matrix_plan \<Rightarrow> nat \<times> combination \<Rightarrow> failure + planned_job"
where
  "compile_matrix_job E job_id job m entry =
    (case entry of (matrix_index, matrix) \<Rightarrow>
     bindE (compile_steps (ce_api E) (ce_workflow_name E) job_id (job_steps job)
       (job_step_defaults (ce_workflow E) job)) (\<lambda>steps.
     bindE (ok_or (job_runs_on job) Panic) (\<lambda>runs_on.
     bindE (planned_permissions (ce_api E) (ce_workflow_name E) (AtJob job_id)
       (job_permissions job) (ce_permissions E)) (\<lambda>permissions.
     bindE (planned_concurrency (ce_parse E) (ce_workflow_name E) (AtJob job_id)
       (job_concurrency job)
       [''github'', ''inputs'', ''vars'', ''needs'', ''strategy'', ''matrix'']) (\<lambda>concurrency.
     bindE (planned_environment (ce_workflow_name E) job_id (job_environment job)) (\<lambda>environment.
     Inr (PlannedJob
       \<lparr>pj_id = planned_job_id job_id m matrix_index,
        pj_base_id = job_id,
        pj_name = or_default (job_name job) job_id,
        pj_defining_workflow_path = ce_workflow_path E,
        pj_workflow_identity = None,
        pj_needs = job_needs job,
        pj_need_aliases = bt_collect (map (\<lambda>dependency. (dependency, dependency)) (job_needs job)),
        pj_condition = job_condition job,
        pj_runs_on = runs_on,
        pj_reusable_input_scopes = [],
        pj_reusable_secret_scopes = [],
        pj_matrix = matrix,
        pj_dynamic_matrix = mp_dynamic m,
        pj_matrix_fail_fast = strategy_fail_fast (ce_api E) (job_strategy job),
        pj_matrix_max_parallel = strategy_max_parallel (ce_api E) (job_strategy job),
        pj_strategy_job_index = map_option (\<lambda>_. matrix_index) (job_strategy job),
        pj_strategy_job_total = map_option (\<lambda>_. length (mp_combinations m)) (job_strategy job),
        pj_continue_on_error = job_continue_on_error job,
        pj_timeout_minutes = job_timeout_minutes job,
        pj_permissions = permissions,
        pj_concurrency = concurrency,
        pj_concurrency_scope_ids = [],
        pj_concurrency_acquire = [],
        pj_concurrency_release = [],
        pj_deployment_environment = environment,
        pj_environment = bt_extend (scalar_map (wf_env (ce_workflow E))) (scalar_map (job_env job)),
        pj_outputs = scalar_map (job_outputs job),
        pj_steps = steps\<rparr> None)))))))"

definition compile_job :: "compile_env \<Rightarrow> string \<times> job \<Rightarrow> failure + planned_job list" where
  "compile_job E entry =
    (case entry of (job_id, job) \<Rightarrow>
     bindE (validate_job (ce_workflow_name E) job_id job) (\<lambda>_.
     bindE (validate_defaults (ce_workflow_name E) (AtJob job_id) (job_defaults job)) (\<lambda>_.
     bindE (expand_matrix (ce_api E) (ce_workflow_name E) job_id (job_strategy job)) (\<lambda>m.
     mapE (compile_matrix_job E job_id job m) (enumerate 0 (mp_combinations m))))))"

definition compiled_workflow_name :: "workflow \<Rightarrow> string \<Rightarrow> string" where
  "compiled_workflow_name workflow workflow_path =
    (if wf_name workflow = default_workflow_name then workflow_path else wf_name workflow)"

definition compile :: "yaml_api \<Rightarrow> parser \<Rightarrow> workflow \<Rightarrow> string \<Rightarrow> failure + execution_plan" where
  "compile Y parse workflow path =
    (let workflow_path = replace_char (CHR 0x5C) (CHR ''/'') path;
         name = compiled_workflow_name workflow workflow_path in
     case bt_keys (wf_extra workflow) of
       feature # _ \<Rightarrow> Inl (unsupported_workflow name (OnJob (TopLevelKeyUnsupported feature)))
     | [] \<Rightarrow>
         bindE (validate_defaults name AtWorkflow (wf_defaults workflow)) (\<lambda>_.
         bindE (planned_permissions Y name AtWorkflow (wf_permissions workflow) default_permissions)
           (\<lambda>permissions.
         bindE (planned_concurrency parse name AtWorkflow (wf_concurrency workflow)
           [''github'', ''inputs'', ''vars'']) (\<lambda>concurrency.
         bindE (mapE (compile_job
             \<lparr>ce_api = Y, ce_parse = parse, ce_workflow_name = name, ce_workflow_path = workflow_path,
              ce_workflow = workflow, ce_permissions = permissions\<rparr>) (wf_jobs workflow)) (\<lambda>groups.
         bindE (validate_dependencies name (concat groups)) (\<lambda>_.
         Inr (ExecutionPlan name workflow_path concurrency (concat groups))))))))"

section \<open>Compilation never panics\<close>

text \<open>The concurrency strings of a workflow are \<open>String\<close> values, hence UTF-8.\<close>

definition workflow_strings_ok :: "workflow \<Rightarrow> bool" where
  "workflow_strings_ok workflow \<longleftrightarrow>
    case_option True concurrency_strings_ok (wf_concurrency workflow) \<and>
    (\<forall>(k, job)\<in>set (wf_jobs workflow). case_option True concurrency_strings_ok (job_concurrency job))"

lemma no_fault_planned_permissions [simp]: "no_fault (planned_permissions Y w l v inherited)"
  by (auto simp: planned_permissions_def permission_entry_def permission_access_def
      intro!: no_fault_bindE no_fault_foldE [where P = "\<lambda>_. True"]
      split: option.splits yaml_value.splits)

lemma validate_job_ok:
  "validate_job workflow job_id job = Inr u \<Longrightarrow> \<exists>v. job_runs_on job = Some v"
  by (auto simp: validate_job_def result_simps)

lemma no_fault_validate_job [simp]: "no_fault (validate_job workflow job_id job)"
  by (auto simp: validate_job_def intro!: no_fault_bindE no_fault_foldE [where P = "\<lambda>_. True"]
      split: list.splits)

lemma no_fault_compile_job:
  assumes "case_option True concurrency_strings_ok (job_concurrency job)"
  shows "no_fault (compile_job E (job_id, job))"
proof -
  have "no_fault (compile_matrix_job E job_id job m x)" if "job_runs_on job = Some v" for v m x
    using that no_fault_planned_concurrency [OF assms]
    by (auto simp: compile_matrix_job_def ok_or_def intro!: no_fault_bindE split: prod.splits)
  then show ?thesis
    by (auto simp: compile_job_def no_fault_expand_matrix
        intro!: no_fault_bindE no_fault_mapE dest!: validate_job_ok)
qed

lemma no_fault_compile:
  assumes "workflow_strings_ok workflow"
  shows "no_fault (compile Y parse workflow path)"
proof -
  have job: "no_fault (compile_job E entry)" if "entry \<in> set (wf_jobs workflow)" for E entry
    using that assms no_fault_compile_job by (cases entry) (auto simp: workflow_strings_ok_def)
  have concurrency: "no_fault (planned_concurrency parse w l (wf_concurrency workflow) allowed)" for w l allowed
    using assms by (intro no_fault_planned_concurrency) (simp add: workflow_strings_ok_def)
  show ?thesis
    by (auto simp: compile_def Let_def concurrency intro!: no_fault_bindE no_fault_mapE job
        split: list.splits)
qed

section \<open>The compiled plan\<close>

text \<open>What every job of a compiled plan satisfies, beside the job of the file it comes from.\<close>

definition planned_job_ok :: "workflow \<Rightarrow> planned_job \<Rightarrow> bool" where
  "planned_job_ok workflow j \<longleftrightarrow>
    (\<exists>job. (planned_base_id j, job) \<in> set (wf_jobs workflow) \<and> planned_needs j = job_needs job \<and>
      job_runs_on job = Some (pj_runs_on (job_core j))) \<and>
    virtual_job j = None \<and>
    grantable (pj_permissions (job_core j)) \<and>
    ids_unique (pj_steps (job_core j)) \<and> references_ok (pj_steps (job_core j)) \<and>
    (\<forall>i n. pj_strategy_job_index (job_core j) = Some i \<longrightarrow> pj_strategy_job_total (job_core j) = Some n \<longrightarrow>
      i < n \<and> n \<le> 256)"

lemma expand_matrix_bound:
  "expand_matrix Y workflow job_id strategy = Inr m \<Longrightarrow> length (mp_combinations m) \<le> 256"
  by (auto simp: expand_matrix_def bindE_Inr dest: expand_matrix_definition_bound
      split: option.splits yaml_value.splits if_splits)

lemma compile_matrix_job_ok:
  assumes "compile_matrix_job E job_id job m (i, matrix) = Inr j"
    and "(job_id, job) \<in> set (wf_jobs (ce_workflow E))" "grantable (ce_permissions E)"
    and "i < length (mp_combinations m)" "length (mp_combinations m) \<le> 256"
  shows "planned_job_ok (ce_workflow E) j \<and> planned_id j = planned_job_id job_id m i \<and>
    planned_base_id j = job_id"
  using assms
  by (auto simp: compile_matrix_job_def planned_job_ok_def result_simps
      dest: compile_steps_inv planned_permissions_grantable)

lemma compile_job_ok:
  assumes "compile_job E (job_id, job) = Inr js"
    and "(job_id, job) \<in> set (wf_jobs (ce_workflow E))" "grantable (ce_permissions E)"
  shows "\<exists>m. (has_matrix m \<or> length js \<le> 1) \<and>
      map planned_id js = map (planned_job_id job_id m) [0..<length js] \<and>
      (\<forall>j\<in>set js. planned_job_ok (ce_workflow E) j \<and> planned_base_id j = job_id)"
proof -
  from assms(1) obtain m where m: "expand_matrix (ce_api E) (ce_workflow_name E) job_id (job_strategy job) = Inr m"
    and js: "list_all2 (\<lambda>x y. compile_matrix_job E job_id job m x = Inr y)
      (enumerate 0 (mp_combinations m)) js"
    by (auto simp: compile_job_def result_simps)
  have len: "length js = length (mp_combinations m)" using js by (auto dest: list_all2_lengthD)
  have each: "planned_job_ok (ce_workflow E) (js ! i) \<and> planned_id (js ! i) = planned_job_id job_id m i \<and>
      planned_base_id (js ! i) = job_id" if "i < length js" for i
    using compile_matrix_job_ok [of E job_id job m i "mp_combinations m ! i" "js ! i"]
      expand_matrix_bound [OF m] assms(2,3) that js len
    by (auto simp: list_all2_conv_all_nth nth_enumerate_eq)
  show ?thesis
  proof (intro exI conjI)
    show "has_matrix m \<or> length js \<le> 1" using len by (auto simp: has_matrix_def)
    show "map planned_id js = map (planned_job_id job_id m) [0..<length js]"
      using each by (auto intro: nth_equalityI)
    show "\<forall>j\<in>set js. planned_job_ok (ce_workflow E) j \<and> planned_base_id j = job_id"
      using each by (auto simp: in_set_conv_nth)
  qed
qed

lemma compile_groups:
  assumes "compile Y parse workflow path = Inr plan"
  shows "\<exists>E groups. plan_jobs plan = concat groups \<and> ce_workflow E = workflow \<and> ce_api E = Y \<and>
    grantable (ce_permissions E) \<and>
    list_all2 (\<lambda>entry js. compile_job E entry = Inr js) (wf_jobs workflow) groups \<and>
    validate_dependencies (plan_workflow_name plan) (plan_jobs plan) = Inr ()"
proof -
  let ?path = "replace_char (CHR 0x5C) (CHR ''/'') path"
  let ?name = "compiled_workflow_name workflow ?path"
  let ?E = "\<lambda>permissions. \<lparr>ce_api = Y, ce_parse = parse, ce_workflow_name = ?name,
    ce_workflow_path = ?path, ce_workflow = workflow, ce_permissions = permissions\<rparr>"
  have "bt_keys (wf_extra workflow) = []"
    using assms by (auto simp: compile_def Let_def split: list.splits)
  with assms obtain permissions groups concurrency where
    p: "planned_permissions Y ?name AtWorkflow (wf_permissions workflow) default_permissions = Inr permissions"
    and g: "mapE (compile_job (?E permissions)) (wf_jobs workflow) = Inr groups"
    and v: "validate_dependencies ?name (concat groups) = Inr ()"
    and plan: "plan = ExecutionPlan ?name ?path concurrency (concat groups)"
    by (auto simp: compile_def Let_def bindE_Inr)
  have "grantable permissions" using planned_permissions_grantable [OF p] by simp
  with g v plan show ?thesis
    by (intro exI [of _ "?E permissions"] exI [of _ groups]) (simp add: mapE_Inr)
qed

lemma compile_jobs_ok:
  assumes "compile Y parse workflow path = Inr plan"
  shows "(\<forall>j\<in>set (plan_jobs plan). planned_job_ok workflow j) \<and>
    needs_known (plan_jobs plan) \<and> needs_acyclic (plan_jobs plan)"
proof -
  from compile_groups [OF assms] obtain E groups where g: "plan_jobs plan = concat groups"
    "ce_workflow E = workflow" "grantable (ce_permissions E)"
    "list_all2 (\<lambda>entry js. compile_job E entry = Inr js) (wf_jobs workflow) groups"
    "validate_dependencies (plan_workflow_name plan) (plan_jobs plan) = Inr ()" by blast
  have "planned_job_ok workflow j" if j: "j \<in> set (plan_jobs plan)" for j
  proof -
    from j g(1) obtain js where "js \<in> set groups" "j \<in> set js" by auto
    then obtain entry where "entry \<in> set (wf_jobs workflow)" "compile_job E entry = Inr js"
      using list_all2_source [OF g(4)] by blast
    then show ?thesis
      using compile_job_ok [of E "fst entry" "snd entry" js] g(2,3) \<open>j \<in> set js\<close> by auto
  qed
  with validate_dependencies_sound [OF g(5)] show ?thesis by blast
qed

section \<open>Example workflows\<close>

definition no_defaults :: defaults where
  "no_defaults = \<lparr>df_run = \<lparr>rd_shell = None, rd_working_directory = None, rd_extra = []\<rparr>, df_extra = []\<rparr>"

definition sample_file_job :: "string list \<Rightarrow> yaml_value option \<Rightarrow> job" where
  "sample_file_job needs strategy =
    \<lparr>job_name = None, job_runs_on = Some (YString ''macos-latest''), job_needs = needs,
     job_env = [], job_outputs = [], job_defaults = no_defaults, job_permissions = None,
     job_continue_on_error = None, job_timeout_minutes = None, job_concurrency = None,
     job_environment = None,
     job_steps = [sample_step None (Some ''make'') None None],
     job_strategy = strategy, job_with = [], job_secrets = None, job_condition = None,
     job_container = None, job_services = None, job_uses = None, job_extra = []\<rparr>"

definition sample_workflow :: "(string \<times> job) list \<Rightarrow> workflow" where
  "sample_workflow jobs =
    \<lparr>wf_name = ''ci'', wf_trigger = YString ''pull_request'', wf_env = [], wf_defaults = no_defaults,
     wf_permissions = None, wf_run_name = None,
     wf_concurrency = Some (ConcurrencyGroup ''ci-${{ github.ref }}''),
     wf_jobs = jobs, wf_extra = []\<rparr>"

definition sample_strategy :: yaml_value where
  "sample_strategy = YMapping [(YString ''matrix'',
    YMapping [(YString ''os'', YSequence [YString ''a'', YString ''b''])])]"

definition two_job_workflow :: workflow where
  "two_job_workflow = sample_workflow
    [(''build'', sample_file_job [] None), (''test'', sample_file_job [''build''] (Some sample_strategy))]"

lemma two_job_workflow_compiles:
  "\<exists>plan. compile plain_yaml (parse_source toy_api) two_job_workflow ''ci.yml'' = Inr plan \<and>
    map planned_id (plan_jobs plan) = [''build'', ''test[1]'', ''test[2]'']"
proof -
  have "case compile plain_yaml (parse_source toy_api) two_job_workflow ''ci.yml'' of
      Inl _ \<Rightarrow> False
    | Inr plan \<Rightarrow> map planned_id (plan_jobs plan) = [''build'', ''test[1]'', ''test[2]'']"
    by code_simp
  then show ?thesis by (auto split: sum.splits)
qed

text \<open>
  Job names are not checked against the characters of matrix ids: a job named like a matrix
  instance of another job gets the same planned id.
\<close>

lemma job_ids_can_collide:
  "\<exists>plan. compile plain_yaml (parse_source toy_api) (sample_workflow
      [(''test'', sample_file_job [] (Some sample_strategy)), (''test[1]'', sample_file_job [] None)])
      ''ci.yml'' = Inr plan \<and>
    map planned_id (plan_jobs plan) = [''test[1]'', ''test[2]'', ''test[1]'']"
proof -
  have "case compile plain_yaml (parse_source toy_api) (sample_workflow
      [(''test'', sample_file_job [] (Some sample_strategy)), (''test[1]'', sample_file_job [] None)])
      ''ci.yml'' of
      Inl _ \<Rightarrow> False
    | Inr plan \<Rightarrow> map planned_id (plan_jobs plan) = [''test[1]'', ''test[2]'', ''test[1]'']"
    by code_simp
  then show ?thesis by (auto split: sum.splits)
qed

text \<open>
  C2. In the plan compiled from a workflow file, every job comes from a job of the file,
  with that job's runner and dependencies; its permissions are ones the token can carry, its
  step ids are unique and its step references point back to background steps, its index in
  the matrix is below the total, which is at most 256; and the dependencies between the
  jobs are closed and acyclic.
\<close>

theorem compile_plan_well_formed:
  assumes "compile Y parse workflow path = Inr plan"
  shows "(\<forall>j\<in>set (plan_jobs plan). planned_job_ok workflow j) \<and>
    needs_known (plan_jobs plan) \<and> needs_acyclic (plan_jobs plan)"
  using compile_jobs_ok [OF assms] .

theorem compile_plan_well_formed_witness:
  "\<exists>plan. compile plain_yaml (parse_source toy_api) two_job_workflow ''ci.yml'' = Inr plan \<and>
    plan_jobs plan \<noteq> [] \<and> (\<forall>j\<in>set (plan_jobs plan). planned_job_ok two_job_workflow j) \<and>
    needs_acyclic (plan_jobs plan)"
  using two_job_workflow_compiles compile_plan_well_formed by fastforce

text \<open>
  C3. Compilation never panics: the runner of a job is read only after it was checked, and
  no index or slice is out of range, for every workflow whose concurrency strings are
  UTF-8.
\<close>

theorem compile_never_panics:
  assumes "workflow_strings_ok workflow"
  shows "no_fault (compile Y parse workflow path)"
  using no_fault_compile [OF assms] .

theorem compile_never_panics_witness:
  "no_fault (compile plain_yaml (parse_source toy_api) two_job_workflow ''ci.yml'')"
proof (rule compile_never_panics)
  show "workflow_strings_ok two_job_workflow" by code_simp
qed

section \<open>Job ids\<close>

lemma bracket_unique:
  assumes "a @ CHR ''['' # d = b @ CHR ''['' # e" "CHR ''['' \<notin> set d" "CHR ''['' \<notin> set e"
  shows "a = b \<and> d = e"
proof -
  let ?t = "\<lambda>s. takeWhile (\<lambda>c. c \<noteq> CHR ''['') (rev s)"
  have "?t (a @ CHR ''['' # d) = rev d" "?t (b @ CHR ''['' # e) = rev e"
    using assms(2,3) by (auto simp: takeWhile_tail)
  with assms(1) have "rev d = rev e" by simp
  with assms(1) show ?thesis by simp
qed

lemma planned_job_id_inj:
  assumes "planned_job_id a m i = planned_job_id b n j" "CHR '']'' \<notin> set a" "CHR '']'' \<notin> set b"
  shows "a = b \<and> (has_matrix m \<and> has_matrix n \<longrightarrow> i = j)"
proof -
  have digits: "CHR ''['' \<notin> set (show_nat k @ '']'')" for k
    using show_nat_digits [of k] by (auto simp: list_all_iff is_ascii_digit_def)
  have last: "planned_job_id k p l = k \<or> last (planned_job_id k p l) = CHR '']''" for k p l
    by (simp add: planned_job_id_def)
  show ?thesis
  proof (cases "has_matrix m \<and> has_matrix n")
    case True
    then have "a @ CHR ''['' # (show_nat (i + 1) @ '']'') = b @ CHR ''['' # (show_nat (j + 1) @ '']'')"
      using assms(1) by (simp add: planned_job_id_def)
    from bracket_unique [OF this digits digits] show ?thesis by (simp add: show_nat_inj)
  next
    case False
    have "CHR '']'' \<in> set (planned_job_id k p l)" if "has_matrix p" for k p l
      using that by (simp add: planned_job_id_def)
    with False assms have "\<not> has_matrix m \<and> \<not> has_matrix n"
      by (metis planned_job_id_def)
    with assms(1) show ?thesis by (simp add: planned_job_id_def)
  qed
qed

lemma distinct_concat_groups:
  assumes "list_all2 P xs groups" "distinct xs"
    and "\<And>x g. x \<in> set xs \<Longrightarrow> P x g \<Longrightarrow> distinct (map f g)"
    and "\<And>x y g h a b. x \<in> set xs \<Longrightarrow> y \<in> set xs \<Longrightarrow> P x g \<Longrightarrow> P y h \<Longrightarrow> a \<in> set g \<Longrightarrow> b \<in> set h \<Longrightarrow>
      f a = f b \<Longrightarrow> x = y"
  shows "distinct (map f (concat groups))"
  using assms
proof (induction xs groups rule: list_all2_induct)
  case (Cons x xs g groups)
  have IH: "distinct (map f (concat groups))"
    using Cons.prems by (intro Cons.IH) (simp, meson list.set_intros(2), meson list.set_intros(2))
  have "f a \<noteq> f b" if a: "a \<in> set g" and b: "b \<in> set (concat groups)" for a b
  proof
    assume eq: "f a = f b"
    from b obtain h where h: "h \<in> set groups" "b \<in> set h" by auto
    then obtain y where "y \<in> set xs" "P y h"
      using list_all2_source [OF Cons.hyps(2)] by blast
    with Cons.prems(3) [of x y g h a b] Cons.hyps(1) a h(2) eq have "x = y" by simp
    with \<open>y \<in> set xs\<close> Cons.prems(1) show False by simp
  qed
  with IH Cons.prems(2) [of x g] Cons.hyps(1) show ?case by auto
qed simp

text \<open>
  The ids of the planned jobs are pairwise distinct, matrix instances included, when no
  job of the file has a closing bracket in its name.
\<close>

theorem compile_ids_distinct:
  assumes "compile Y parse workflow path = Inr plan" and "bt_wf (wf_jobs workflow)"
    and "\<forall>k\<in>set (bt_keys (wf_jobs workflow)). CHR '']'' \<notin> set k"
  shows "distinct (map planned_id (plan_jobs plan))"
proof -
  from compile_groups [OF assms(1)] obtain E groups where g: "plan_jobs plan = concat groups"
    "ce_workflow E = workflow" "grantable (ce_permissions E)"
    "list_all2 (\<lambda>entry js. compile_job E entry = Inr js) (wf_jobs workflow) groups" by blast
  have distinct: "distinct (map fst (wf_jobs workflow))"
    using bt_wf_distinct [OF assms(2)] .
  have job: "\<exists>m. (has_matrix m \<or> length js \<le> 1) \<and>
      map planned_id js = map (planned_job_id (fst entry) m) [0..<length js]"
    if "entry \<in> set (wf_jobs workflow)" "compile_job E entry = Inr js" for entry js
    using compile_job_ok [of E "fst entry" "snd entry" js] that g(2,3) by auto
  have plain: "CHR '']'' \<notin> set (fst entry)" if "entry \<in> set (wf_jobs workflow)" for entry
    using that assms(3) by auto
  show ?thesis
    unfolding g(1)
  proof (rule distinct_concat_groups [OF g(4)])
    show "distinct (wf_jobs workflow)" using distinct by (simp add: distinct_map)
  next
    fix entry js assume e: "entry \<in> set (wf_jobs workflow)" "compile_job E entry = Inr js"
    then obtain m where m: "has_matrix m \<or> length js \<le> 1"
      "map planned_id js = map (planned_job_id (fst entry) m) [0..<length js]" using job by blast
    have "inj_on (planned_job_id (fst entry) m) (set [0..<length js])"
    proof (rule inj_onI)
      fix i k assume ik: "i \<in> set [0..<length js]" "k \<in> set [0..<length js]"
        and "planned_job_id (fst entry) m i = planned_job_id (fst entry) m k"
      from planned_job_id_inj [OF this(3) plain plain] e m(1) ik show "i = k" by auto
    qed
    then show "distinct (map planned_id js)" unfolding m(2) by (simp add: distinct_map)
  next
    fix x y js ks a b
    assume x: "x \<in> set (wf_jobs workflow)" "compile_job E x = Inr js" "a \<in> set js"
      and y: "y \<in> set (wf_jobs workflow)" "compile_job E y = Inr ks" "b \<in> set ks"
      and eq: "planned_id a = planned_id b"
    from job [OF x(1,2)] x(3) obtain m i where i: "planned_id a = planned_job_id (fst x) m i"
      by (metis imageE list.set_map image_eqI)
    from job [OF y(1,2)] y(3) obtain n k where k: "planned_id b = planned_job_id (fst y) n k"
      by (metis imageE list.set_map image_eqI)
    from i k eq have "planned_job_id (fst x) m i = planned_job_id (fst y) n k" by simp
    from planned_job_id_inj [OF this] plain x(1) y(1) have "fst x = fst y" by blast
    with x(1) y(1) distinct show "x = y" by (metis eq_key_imp_eq_value prod.collapse)
  qed
qed

theorem compile_ids_distinct_witness:
  "\<exists>plan. compile plain_yaml (parse_source toy_api) two_job_workflow ''ci.yml'' = Inr plan \<and>
    distinct (map planned_id (plan_jobs plan))"
proof -
  have "bt_wf (wf_jobs two_job_workflow)"
    "\<forall>k\<in>set (bt_keys (wf_jobs two_job_workflow)). CHR '']'' \<notin> set k"
    by code_simp+
  with two_job_workflow_compiles compile_ids_distinct show ?thesis by blast
qed

end
