(* ===== verification/Reusable.thy ===== *)
theory Reusable
  imports Compile Paths
begin

text \<open>
  Reusable workflows, what a call needs before it is expanded: the check of a call job, the
  path it names, the \<open>workflow_call\<close> contract of the called workflow, and the binding of
  the call's inputs and secrets to it.
\<close>

section \<open>Contracts\<close>

record reusable_input_definition =
  rid_type :: reusable_input_type
  rid_required :: bool
  rid_default :: "yaml_value option"

record workflow_contract =
  rc_inputs :: "(string \<times> reusable_input_definition) list"
  rc_secrets :: "(string \<times> bool) list"
  rc_outputs :: "(string \<times> string) list"

definition validate_reusable_call_job :: "string \<Rightarrow> string \<Rightarrow> job \<Rightarrow> failure + unit" where
  "validate_reusable_call_job workflow job_id job =
    bindE (ensure (\<not> (job_runs_on job \<noteq> None \<or> job_steps job \<noteq> [] \<or> job_env job \<noteq> [] \<or>
        job_outputs job \<noteq> [] \<or> job_continue_on_error job \<noteq> None \<or> job_timeout_minutes job \<noteq> None \<or>
        job_environment job \<noteq> None \<or> job_container job \<noteq> None \<or> job_services job \<noteq> None \<or>
        df_extra (job_defaults job) \<noteq> [] \<or> rd_extra (df_run (job_defaults job)) \<noteq> [] \<or>
        rd_shell (df_run (job_defaults job)) \<noteq> None \<or>
        rd_working_directory (df_run (job_defaults job)) \<noteq> None))
      (incompatible workflow job_id (OnLink CallRunnerOnlyFields))) (\<lambda>_.
    bindE (case job_secrets job of
        None \<Rightarrow> Inr ()
      | Some (YString v) \<Rightarrow>
          ensure (v = ''inherit'') (incompatible workflow job_id (OnLink CallSecretsShape))
      | Some (YMapping _) \<Rightarrow> Inr ()
      | Some _ \<Rightarrow> Inl (incompatible workflow job_id (OnLink CallSecretsShape))) (\<lambda>_.
    (case bt_keys (job_extra job) of
      feature # _ \<Rightarrow> Inl (incompatible workflow job_id (OnLink (CallKeyUnsupported feature)))
    | [] \<Rightarrow> Inr ())))"

definition local_workflow_path :: "string \<Rightarrow> bool" where
  "local_workflow_path path \<longleftrightarrow>
    \<not> (is_absolute path \<or>
       list_ex (\<lambda>c. c = ParentDir \<or> c = RootDir) (path_components path) \<or>
       parent_components path \<noteq> Some (path_components ''.github/workflows'') \<or>
       path_extension path \<notin> {Some ''yml'', Some ''yaml''})"

definition reusable_path ::
  "string \<Rightarrow> string \<Rightarrow> string \<Rightarrow> (string \<times> workflow) list \<Rightarrow> failure + string"
where
  "reusable_path workflow job_id uses reusable_workflows =
    (case or_else (strip_prefix uses ''./'')
        (map_option (trim_start_matches (CHR ''/'')) (strip_prefix uses ''$/'')) of
      None \<Rightarrow>
        if bt_contains_key reusable_workflows uses then Inr uses
        else Inl (incompatible workflow job_id (OnLink (RemoteReferenceUnresolved uses)))
    | Some path \<Rightarrow>
        bindE (ensure (local_workflow_path path)
          (incompatible workflow job_id (OnLink (ReusablePathInvalid uses)))) (\<lambda>_.
        Inr (replace_char (CHR 0x5C) (CHR ''/'') path)))"

text \<open>\<open>Err\<close>, no \<open>workflow_call\<close>, one without configuration, or its configuration.\<close>

definition workflow_call_configuration :: "yaml_api \<Rightarrow> yaml_value \<Rightarrow> unit + mapping option option" where
  "workflow_call_configuration Y trigger =
    (case trigger of
      YString s \<Rightarrow> if s = ''workflow_call'' then Inr (Some None) else Inr None
    | YSequence vs \<Rightarrow>
        if list_ex (\<lambda>v. as_str Y v = Some ''workflow_call'') vs then Inr (Some None) else Inr None
    | YMapping events \<Rightarrow>
        (case mapping_get events ''workflow_call'' of
          None \<Rightarrow> Inr None
        | Some YNull \<Rightarrow> Inr (Some None)
        | Some (YMapping configuration) \<Rightarrow> Inr (Some (Some configuration))
        | Some _ \<Rightarrow> Inl ())
    | _ \<Rightarrow> Inr None)"

definition valid_secret_identifier :: "string \<Rightarrow> bool" where
  "valid_secret_identifier name =
    (case name of
      [] \<Rightarrow> False
    | c # rest \<Rightarrow>
        (is_ascii_alphabetic c \<or> c = CHR ''_'') \<and>
        list_all (\<lambda>c. is_ascii_alphanumeric c \<or> c = CHR ''_'') rest)"

definition reusable_input_matches :: "yaml_api \<Rightarrow> yaml_value \<Rightarrow> reusable_input_type \<Rightarrow> bool" where
  "reusable_input_matches Y v input_type =
    (case input_type of
      InputString \<Rightarrow> as_str Y v \<noteq> None
    | InputBoolean \<Rightarrow> as_bool Y v \<noteq> None
    | InputNumber \<Rightarrow> as_i64 Y v \<noteq> None \<or> as_u64 Y v \<noteq> None \<or> as_f64 Y v \<noteq> None)"

text \<open>Pieces the three sections of a contract share.\<close>

definition section_definitions ::
  "yaml_api \<Rightarrow> string \<Rightarrow> string \<Rightarrow> mapping \<Rightarrow> string \<Rightarrow> failure + mapping"
where
  "section_definitions Y w j configuration section =
    (case mapping_get configuration section of
      None \<Rightarrow> Inr []
    | Some v \<Rightarrow>
        ok_or (as_mapping Y v) (incompatible w j (OnContract (WorkflowCallSectionNotMapping section))))"

definition definition_name ::
  "yaml_api \<Rightarrow> string \<Rightarrow> string \<Rightarrow> string \<Rightarrow> yaml_value \<Rightarrow> failure + string"
where
  "definition_name Y w j section key =
    ok_or (as_str Y key) (incompatible w j (OnContract (WorkflowCallNameNotString section)))"

definition definition_mapping ::
  "yaml_api \<Rightarrow> string \<Rightarrow> string \<Rightarrow> string \<Rightarrow> string \<Rightarrow> string list \<Rightarrow> yaml_value \<Rightarrow> failure + mapping"
where
  "definition_mapping Y w j section name allowed v =
    bindE (ok_or (as_mapping Y v)
      (incompatible w j (OnContract (WorkflowCallEntryNotMapping section name)))) (\<lambda>m.
    bindE (ensure (list_all (\<lambda>(key, _).
        case as_str Y key of None \<Rightarrow> False | Some k \<Rightarrow> k \<in> set allowed) m)
      (incompatible w j (OnContract (WorkflowCallEntryKeyUnsupported section name)))) (\<lambda>_.
    Inr m))"

definition definition_required ::
  "yaml_api \<Rightarrow> string \<Rightarrow> string \<Rightarrow> string \<Rightarrow> string \<Rightarrow> mapping \<Rightarrow> failure + bool"
where
  "definition_required Y w j section name m =
    (case mapping_get m ''required'' of
      None \<Rightarrow> Inr False
    | Some v \<Rightarrow>
        ok_or (as_bool Y v) (incompatible w j (OnContract (WorkflowCallRequiredNotBoolean section name))))"

definition contract_secret ::
  "yaml_api \<Rightarrow> string \<Rightarrow> string \<Rightarrow> (string \<times> bool) list \<Rightarrow> yaml_value \<times> yaml_value
    \<Rightarrow> failure + (string \<times> bool) list"
where
  "contract_secret Y w j secrets entry =
    bindE (definition_name Y w j ''secrets'' (fst entry)) (\<lambda>name.
    bindE (ensure (valid_secret_identifier name)
      (incompatible w j (OnContract (WorkflowCallSecretNameInvalid name)))) (\<lambda>_.
    bindE (definition_mapping Y w j ''secrets'' name [''description'', ''required''] (snd entry)) (\<lambda>m.
    bindE (definition_required Y w j ''secrets'' name m) (\<lambda>required.
    Inr (bt_insert name required secrets)))))"

definition contract_input ::
  "yaml_api \<Rightarrow> string \<Rightarrow> string \<Rightarrow> (string \<times> reusable_input_definition) list
    \<Rightarrow> yaml_value \<times> yaml_value \<Rightarrow> failure + (string \<times> reusable_input_definition) list"
where
  "contract_input Y w j inputs entry =
    bindE (definition_name Y w j ''inputs'' (fst entry)) (\<lambda>name.
    bindE (definition_mapping Y w j ''inputs'' name
      [''description'', ''required'', ''type'', ''default''] (snd entry)) (\<lambda>m.
    bindE (case Option.bind (mapping_get m ''type'') (as_str Y) of
        Some t \<Rightarrow>
          if t = ''string'' then Inr InputString
          else if t = ''boolean'' then Inr InputBoolean
          else if t = ''number'' then Inr InputNumber
          else Inl (incompatible w j (OnContract (WorkflowCallInputTypeMissing name)))
      | None \<Rightarrow> Inl (incompatible w j (OnContract (WorkflowCallInputTypeMissing name)))) (\<lambda>input_type.
    bindE (definition_required Y w j ''inputs'' name m) (\<lambda>required.
    bindE (ensure (case mapping_get m ''default'' of
        None \<Rightarrow> True
      | Some d \<Rightarrow> \<not> (value_contains_expression d \<or> \<not> reusable_input_matches Y d input_type))
      (incompatible w j (OnContract (WorkflowCallDefaultWrongType name)))) (\<lambda>_.
    Inr (bt_insert name \<lparr>rid_type = input_type, rid_required = required,
      rid_default = mapping_get m ''default''\<rparr> inputs))))))"

definition contract_output ::
  "yaml_api \<Rightarrow> string \<Rightarrow> string \<Rightarrow> (string \<times> string) list \<Rightarrow> yaml_value \<times> yaml_value
    \<Rightarrow> failure + (string \<times> string) list"
where
  "contract_output Y w j outputs entry =
    bindE (definition_name Y w j ''outputs'' (fst entry)) (\<lambda>name.
    bindE (definition_mapping Y w j ''outputs'' name [''description'', ''value''] (snd entry)) (\<lambda>m.
    bindE (ok_or (Option.bind (mapping_get m ''value'') (as_str Y))
      (incompatible w j (OnContract (WorkflowCallOutputValueMissing name)))) (\<lambda>output.
    Inr (bt_insert name output outputs))))"

definition workflow_call_key :: "yaml_api \<Rightarrow> string \<Rightarrow> string \<Rightarrow> string \<Rightarrow> yaml_value \<Rightarrow> failure + unit" where
  "workflow_call_key Y w j called key =
    ensure (as_str Y key \<in> {Some ''inputs'', Some ''outputs'', Some ''secrets''})
      (incompatible w j (OnContract (WorkflowCallKeyUnsupported called (as_str Y key))))"

definition reusable_contract ::
  "yaml_api \<Rightarrow> string \<Rightarrow> string \<Rightarrow> workflow \<Rightarrow> failure + workflow_contract"
where
  "reusable_contract Y w j workflow =
    (case workflow_call_configuration Y (wf_trigger workflow) of
      Inl _ \<Rightarrow> Inl (incompatible w j (OnContract (WorkflowCallInvalid (wf_name workflow))))
    | Inr None \<Rightarrow> Inl (incompatible w j (OnContract (WorkflowCallMissing (wf_name workflow))))
    | Inr (Some None) \<Rightarrow> Inr \<lparr>rc_inputs = [], rc_secrets = [], rc_outputs = []\<rparr>
    | Inr (Some (Some configuration)) \<Rightarrow>
        bindE (foldE (\<lambda>_ key. workflow_call_key Y w j (wf_name workflow) key) ()
          (map fst configuration)) (\<lambda>_.
        bindE (section_definitions Y w j configuration ''secrets'') (\<lambda>definitions.
        bindE (foldE (contract_secret Y w j) [] definitions) (\<lambda>secrets.
        bindE (section_definitions Y w j configuration ''inputs'') (\<lambda>definitions.
        bindE (foldE (contract_input Y w j) [] definitions) (\<lambda>inputs.
        bindE (section_definitions Y w j configuration ''outputs'') (\<lambda>definitions.
        bindE (foldE (contract_output Y w j) [] definitions) (\<lambda>outputs.
        Inr \<lparr>rc_inputs = inputs, rc_secrets = secrets, rc_outputs = outputs\<rparr>))))))))"

section \<open>Binding a call to a contract\<close>

definition bind_input ::
  "yaml_api \<Rightarrow> string \<Rightarrow> string \<Rightarrow> job \<Rightarrow> (string \<times> planned_reusable_input) list
    \<Rightarrow> string \<times> reusable_input_definition \<Rightarrow> failure + (string \<times> planned_reusable_input) list"
where
  "bind_input Y workflow job_id call inputs entry =
    (case entry of (name, d) \<Rightarrow>
     bindE (case or_else (bt_get (job_with call) name) (rid_default d) of
         Some v \<Rightarrow> Inr v
       | None \<Rightarrow>
           if rid_required d then Inl (incompatible workflow job_id (OnBinding (InputMissing name)))
           else Inr (case rid_type d of
               InputString \<Rightarrow> YString []
             | InputBoolean \<Rightarrow> YBool False
             | InputNumber \<Rightarrow> YNumber ''0'')) (\<lambda>v.
     bindE (ensure (\<not> (\<not> value_contains_expression v \<and> \<not> reusable_input_matches Y v (rid_type d)))
       (incompatible workflow job_id (OnBinding (InputWrongType name)))) (\<lambda>_.
     Inr (bt_insert name \<lparr>ri_value = v, ri_type = rid_type d\<rparr> inputs))))"

definition bind_reusable_inputs ::
  "yaml_api \<Rightarrow> string \<Rightarrow> string \<Rightarrow> job \<Rightarrow> workflow_contract
    \<Rightarrow> failure + (string \<times> planned_reusable_input) list"
where
  "bind_reusable_inputs Y workflow job_id call contract =
    (case find (\<lambda>input. \<not> bt_contains_key (rc_inputs contract) input) (bt_keys (job_with call)) of
      Some input \<Rightarrow> Inl (incompatible workflow job_id (OnBinding (InputNotDeclared input)))
    | None \<Rightarrow> foldE (bind_input Y workflow job_id call) [] (rc_inputs contract))"

definition reusable_secret_reference :: "yaml_api \<Rightarrow> yaml_value \<Rightarrow> string option" where
  "reusable_secret_reference Y v =
    Option.bind (as_str Y v) (\<lambda>s.
    Option.bind (strip_prefix (trim s) ''${{'') (\<lambda>s.
    Option.bind (strip_suffix s ''}}'') (\<lambda>s.
    let expression = trim s in
    if expression = ''github.token'' then Some ''GITHUB_TOKEN''
    else
      Option.bind (or_else (strip_prefix expression ''secrets.'')
          (Option.bind (strip_prefix expression (''secrets['' @ [CHR 0x27]))
            (\<lambda>s. strip_suffix s ([CHR 0x27] @ '']'')))) (\<lambda>name.
      if valid_secret_identifier name then Some name else None))))"

definition bind_secret ::
  "yaml_api \<Rightarrow> string \<Rightarrow> string \<Rightarrow> workflow_contract \<Rightarrow> planned_reusable_secret_scope
    \<Rightarrow> yaml_value \<times> yaml_value \<Rightarrow> failure + planned_reusable_secret_scope"
where
  "bind_secret Y workflow job_id contract scope entry =
    bindE (ok_or (as_str Y (fst entry))
      (incompatible workflow job_id (OnBinding SecretNameNotString))) (\<lambda>target.
    bindE (ensure (bt_contains_key (rc_secrets contract) target)
      (incompatible workflow job_id (OnBinding (SecretNotDeclared target)))) (\<lambda>_.
    bindE (ok_or (reusable_secret_reference Y (snd entry))
      (incompatible workflow job_id (OnBinding (SecretReferenceInvalid target)))) (\<lambda>source.
    Inr (scope\<lparr>rss_mappings := bt_insert target source (rss_mappings scope)\<rparr>))))"

definition bind_reusable_secrets ::
  "yaml_api \<Rightarrow> string \<Rightarrow> string \<Rightarrow> job \<Rightarrow> workflow_contract \<Rightarrow> failure + planned_reusable_secret_scope"
where
  "bind_reusable_secrets Y workflow job_id call contract =
    (let scope = \<lparr>rss_inherit = False, rss_mappings = [],
           rss_required = map fst (filter snd (rc_secrets contract))\<rparr> in
     bindE (case job_secrets call of
         None \<Rightarrow> Inr scope
       | Some (YString v) \<Rightarrow>
           if v = ''inherit'' then Inr (scope\<lparr>rss_inherit := True\<rparr>)
           else Inl (incompatible workflow job_id (OnLink CallSecretsShape))
       | Some (YMapping bindings) \<Rightarrow> foldE (bind_secret Y workflow job_id contract) scope bindings
       | Some _ \<Rightarrow> Inl (incompatible workflow job_id (OnLink CallSecretsShape))) (\<lambda>scope.
     (case (if rss_inherit scope then None
            else find (\<lambda>name. \<not> eq_ignore_ascii_case name ''GITHUB_TOKEN'' \<and>
                \<not> bt_contains_key (rss_mappings scope) name) (rss_required scope)) of
       Some missing \<Rightarrow> Inl (incompatible workflow job_id (OnBinding (SecretMissing missing)))
     | None \<Rightarrow> Inr scope)))"

section \<open>Paths of called workflows\<close>

lemma workflows_components:
  "path_components ''.github/workflows'' = [NormalComponent ''.github'', NormalComponent ''workflows'']"
  by code_simp

lemma path_components_Normal:
  "NormalComponent name \<in> set (path_components path) \<Longrightarrow> CHR ''/'' \<notin> set name"
  by (auto simp: path_components_def Let_def segment_component_def split_char_no_sep split: if_splits)

lemma local_workflow_path_components:
  assumes "local_workflow_path path"
  shows "\<exists>stem ext. path_components path =
      [NormalComponent ''.github'', NormalComponent ''workflows'', NormalComponent (stem @ ''.'' @ ext)] \<and>
    stem \<noteq> [] \<and> ext \<in> {''yml'', ''yaml''} \<and> CHR ''/'' \<notin> set stem"
proof -
  from assms have parent: "parent_components path = Some [NormalComponent ''.github'', NormalComponent ''workflows'']"
    and ext: "path_extension path \<in> {Some ''yml'', Some ''yaml''}"
    by (auto simp: local_workflow_path_def workflows_components)
  have butlast: "butlast (path_components path) = [NormalComponent ''.github'', NormalComponent ''workflows'']"
    and ne: "path_components path \<noteq> []"
    using parent by (auto simp: parent_components_def Let_def split: if_splits)
  obtain name where name: "file_name path = Some name" "file_extension name \<in> {Some ''yml'', Some ''yaml''}"
    using ext by (auto simp: path_extension_def bind_eq_Some_conv)
  then have last: "last (path_components path) = NormalComponent name"
    by (auto simp: file_name_def split: list.splits component.splits)
  have comps: "path_components path =
      [NormalComponent ''.github'', NormalComponent ''workflows'', NormalComponent name]"
    using append_butlast_last_id [OF ne] butlast last by simp
  from name(2) obtain ext stem where e: "ext \<in> {''yml'', ''yaml''}" "stem \<noteq> []" "name = stem @ ''.'' @ ext"
    by (auto simp: file_extension_Some)
  have "CHR ''/'' \<notin> set name" using path_components_Normal [of name path] comps by simp
  with e comps show ?thesis by (intro exI [of _ stem] exI [of _ ext]) auto
qed

text \<open>
  C24. A path the linker accepts for a call written \<open>./path\<close> or \<open>$/path\<close> names a YAML file
  directly in \<open>.github/workflows\<close>: three plain components, the last with a non-empty stem
  and the extension \<open>yml\<close> or \<open>yaml\<close>, provided the reference has no backslash. Any other
  reference is accepted only if it is one of the resolved workflows.
\<close>

theorem reusable_path_confined:
  assumes "reusable_path workflow job_id uses reusable_workflows = Inr path"
    and "CHR 0x5C \<notin> set uses"
  shows "(\<exists>stem ext. path_components path =
      [NormalComponent ''.github'', NormalComponent ''workflows'', NormalComponent (stem @ ''.'' @ ext)] \<and>
      stem \<noteq> [] \<and> ext \<in> {''yml'', ''yaml''} \<and> CHR ''/'' \<notin> set stem) \<or>
    path = uses \<and> path \<in> fst ` set reusable_workflows"
proof (cases "or_else (strip_prefix uses ''./'')
        (map_option (trim_start_matches (CHR ''/'')) (strip_prefix uses ''$/''))")
  case None
  with assms(1) show ?thesis by (auto simp: reusable_path_def split: if_splits)
next
  case (Some p)
  have "set p \<subseteq> set uses"
    using Some by (auto simp: or_else_def strip_prefix_Some trim_start_matches_def
        split: option.splits dest: set_dropWhileD)
  with assms(2) have "replace_char (CHR 0x5C) (CHR ''/'') p = p"
    unfolding replace_char_def by (intro map_idI) auto
  with assms(1) Some have "path = p" "local_workflow_path p"
    by (auto simp: reusable_path_def result_simps)
  with local_workflow_path_components show ?thesis by blast
qed

theorem reusable_path_confined_witness:
  "reusable_path ''ci'' ''call'' ''./.github/workflows/build.yml'' [] = Inr ''.github/workflows/build.yml'' \<and>
   (\<exists>stem ext. path_components ''.github/workflows/build.yml'' =
      [NormalComponent ''.github'', NormalComponent ''workflows'', NormalComponent (stem @ ''.'' @ ext)] \<and>
      stem \<noteq> [] \<and> ext \<in> {''yml'', ''yaml''} \<and> CHR ''/'' \<notin> set stem)"
proof -
  have ok: "reusable_path ''ci'' ''call'' ''./.github/workflows/build.yml'' [] =
      Inr ''.github/workflows/build.yml''" by code_simp
  moreover have "CHR 0x5C \<notin> set ''./.github/workflows/build.yml''" by simp
  ultimately show ?thesis using reusable_path_confined [OF ok] by simp
qed

text \<open>
  Without that proviso it fails: backslashes are turned into slashes only after the check,
  so a reference can yield a path with parent components.
\<close>

lemma reusable_path_backslash:
  "reusable_path ''ci'' ''call'' (''./.github/workflows/..'' @ [CHR 0x5C] @ ''..'' @ [CHR 0x5C] @ ''x.yml'') [] =
     Inr ''.github/workflows/../../x.yml'' \<and>
   ParentDir \<in> set (path_components ''.github/workflows/../../x.yml'')"
  by code_simp

section \<open>An example call\<close>

definition sample_call :: "string \<Rightarrow> (string \<times> yaml_value) list \<Rightarrow> yaml_value option \<Rightarrow> job" where
  "sample_call uses inputs secrets = (sample_file_job [] None)
    \<lparr>job_runs_on := None, job_steps := [], job_uses := Some uses, job_with := inputs,
     job_secrets := secrets\<rparr>"

definition sample_contract :: workflow_contract where
  "sample_contract =
    \<lparr>rc_inputs = [(''level'', \<lparr>rid_type = InputString, rid_required = False, rid_default = None\<rparr>),
       (''target'', \<lparr>rid_type = InputString, rid_required = True, rid_default = None\<rparr>)],
     rc_secrets = [(''TOKEN'', True)], rc_outputs = []\<rparr>"

section \<open>Bound inputs\<close>

definition bound_input_ok ::
  "yaml_api \<Rightarrow> job \<Rightarrow> reusable_input_definition \<Rightarrow> string \<Rightarrow> planned_reusable_input \<Rightarrow> bool"
where
  "bound_input_ok Y call d name p \<longleftrightarrow>
    ri_type p = rid_type d \<and>
    (value_contains_expression (ri_value p) \<or> reusable_input_matches Y (ri_value p) (rid_type d)) \<and>
    (case bt_get (job_with call) name of
      Some v \<Rightarrow> ri_value p = v
    | None \<Rightarrow> (case rid_default d of Some v \<Rightarrow> ri_value p = v | None \<Rightarrow> \<not> rid_required d))"

lemma bind_input_ok:
  assumes "bind_input Y workflow job_id call inputs (name, d) = Inr inputs'"
  shows "\<exists>p. inputs' = bt_insert name p inputs \<and> bound_input_ok Y call d name p"
  using assms
  by (auto simp: bind_input_def bound_input_ok_def or_else_def result_simps
      split: option.splits if_splits)

lemma bind_inputs_loop:
  assumes "foldE (bind_input Y workflow job_id call) [] definitions = Inr inputs"
    and "distinct (map fst definitions)"
  shows "bt_wf inputs \<and> fst ` set inputs = fst ` set definitions \<and>
    (\<forall>(name, d)\<in>set definitions. \<exists>p. bt_get inputs name = Some p \<and> bound_input_ok Y call d name p)"
  using assms
proof (induction definitions arbitrary: inputs rule: rev_induct)
  case (snoc entry definitions)
  obtain name d where entry: "entry = (name, d)" by fastforce
  from snoc.prems(1) obtain t where t: "foldE (bind_input Y workflow job_id call) [] definitions = Inr t"
    and step: "bind_input Y workflow job_id call t (name, d) = Inr inputs"
    by (auto simp: foldE_append bindE_Inr entry)
  have new: "name \<notin> fst ` set definitions" using snoc.prems(2) by (simp add: entry)
  have IH: "bt_wf t \<and> fst ` set t = fst ` set definitions \<and>
    (\<forall>(name, d)\<in>set definitions. \<exists>p. bt_get t name = Some p \<and> bound_input_ok Y call d name p)"
    by (rule snoc.IH [OF t]) (use snoc.prems(2) in simp)
  from bind_input_ok [OF step] obtain p where p: "inputs = bt_insert name p t" "bound_input_ok Y call d name p"
    by blast
  have "\<exists>q. bt_get inputs n = Some q \<and> bound_input_ok Y call e n q" if "(n, e) \<in> set definitions" for n e
  proof -
    have "n \<noteq> name" using that new by force
    then show ?thesis using IH that p by (auto simp: bt_get_insert)
  qed
  moreover have "bt_wf inputs" "fst ` set inputs = fst ` set (definitions @ [entry])"
    using IH p by (simp_all add: bt_wf_insert entry)
  ultimately show ?case using IH p by (auto simp: bt_get_insert entry)
qed simp

text \<open>
  Binding the inputs of a call gives a value to exactly the inputs the called workflow
  declares, and rejects any other: the caller's value if it supplies one, else the declared
  default, else a zero value for an input that is not required. Each bound value is an
  expression or has the declared type.
\<close>

theorem bind_reusable_inputs_correct:
  assumes "bind_reusable_inputs Y workflow job_id call contract = Inr inputs"
    and "bt_wf (rc_inputs contract)"
  shows "fst ` set inputs = fst ` set (rc_inputs contract) \<and>
    fst ` set (job_with call) \<subseteq> fst ` set (rc_inputs contract) \<and>
    (\<forall>(name, d)\<in>set (rc_inputs contract).
      \<exists>p. bt_get inputs name = Some p \<and> bound_input_ok Y call d name p)"
proof -
  have loop: "foldE (bind_input Y workflow job_id call) [] (rc_inputs contract) = Inr inputs"
    and declared: "find (\<lambda>input. \<not> bt_contains_key (rc_inputs contract) input) (bt_keys (job_with call)) = None"
    using assms(1) by (auto simp: bind_reusable_inputs_def split: option.splits)
  have "fst ` set (job_with call) \<subseteq> fst ` set (rc_inputs contract)"
    using declared by (auto simp: find_None_iff)
  with bind_inputs_loop [OF loop bt_wf_distinct [OF assms(2)]] show ?thesis by blast
qed

theorem bind_reusable_inputs_correct_witness:
  "bt_get [(''level'', \<lparr>ri_value = YString [], ri_type = InputString\<rparr>),
       (''target'', \<lparr>ri_value = YString ''ios'', ri_type = InputString\<rparr>)] ''target'' =
     Some \<lparr>ri_value = YString ''ios'', ri_type = InputString\<rparr> \<and>
   bound_input_ok plain_yaml (sample_call ''u'' [(''target'', YString ''ios'')] None)
     \<lparr>rid_type = InputString, rid_required = True, rid_default = None\<rparr> ''target''
     \<lparr>ri_value = YString ''ios'', ri_type = InputString\<rparr>"
proof -
  have "bind_reusable_inputs plain_yaml ''ci'' ''call''
      (sample_call ''u'' [(''target'', YString ''ios'')] None) sample_contract =
      Inr [(''level'', \<lparr>ri_value = YString [], ri_type = InputString\<rparr>),
        (''target'', \<lparr>ri_value = YString ''ios'', ri_type = InputString\<rparr>)]"
    by code_simp
  moreover have "bt_wf (rc_inputs sample_contract)" by code_simp
  ultimately show ?thesis
    using bind_reusable_inputs_correct [of plain_yaml "''ci''" "''call''" _ sample_contract]
    by (fastforce simp: sample_contract_def)
qed

section \<open>Bound secrets\<close>

lemma reusable_secret_reference_ok:
  assumes "reusable_secret_reference Y v = Some source"
  shows "source = ''GITHUB_TOKEN'' \<or> valid_secret_identifier source"
  using assms
  by (auto simp: reusable_secret_reference_def bind_eq_Some_conv Let_def split: if_splits)

definition secret_scope_ok :: "workflow_contract \<Rightarrow> planned_reusable_secret_scope \<Rightarrow> bool" where
  "secret_scope_ok contract scope \<longleftrightarrow>
    (\<forall>(target, source)\<in>set (rss_mappings scope). target \<in> fst ` set (rc_secrets contract) \<and>
      (source = ''GITHUB_TOKEN'' \<or> valid_secret_identifier source))"

lemma set_bt_insert: "e \<in> set (bt_insert k v m) \<Longrightarrow> e = (k, v) \<or> e \<in> set m"
  by (induction k v m rule: bt_insert.induct) (auto split: if_splits)

lemma bind_secret_ok:
  assumes "bind_secret Y workflow job_id contract scope entry = Inr scope'" "secret_scope_ok contract scope"
  shows "secret_scope_ok contract scope' \<and> rss_required scope' = rss_required scope \<and>
    rss_inherit scope' = rss_inherit scope"
proof -
  from assms(1) obtain target source where
    s': "scope' = scope\<lparr>rss_mappings := bt_insert target source (rss_mappings scope)\<rparr>"
    and declared: "target \<in> fst ` set (rc_secrets contract)"
    and source: "reusable_secret_reference Y (snd entry) = Some source"
    by (auto simp: bind_secret_def result_simps)
  have "target' \<in> fst ` set (rc_secrets contract) \<and>
      (source' = ''GITHUB_TOKEN'' \<or> valid_secret_identifier source')"
    if "(target', source') \<in> set (rss_mappings scope')" for target' source'
  proof -
    from that s' have "(target', source') = (target, source) \<or> (target', source') \<in> set (rss_mappings scope)"
      using set_bt_insert by fastforce
    then show ?thesis
      using assms(2) declared reusable_secret_reference_ok [OF source]
      unfolding secret_scope_ok_def by blast
  qed
  then show ?thesis by (auto simp: secret_scope_ok_def s')
qed

text \<open>
  Binding the secrets of a call exposes only declared secrets, each taken from
  \<open>GITHUB_TOKEN\<close> or from a secret whose name is a plain identifier; and unless the call
  inherits all secrets, every required secret other than \<open>GITHUB_TOKEN\<close> is bound.
\<close>

theorem bind_reusable_secrets_safe:
  assumes "bind_reusable_secrets Y workflow job_id call contract = Inr scope"
  shows "secret_scope_ok contract scope \<and>
    (rss_inherit scope \<longleftrightarrow> job_secrets call = Some (YString ''inherit'')) \<and>
    (\<not> rss_inherit scope \<longrightarrow> (\<forall>(name, required)\<in>set (rc_secrets contract).
      required \<and> \<not> eq_ignore_ascii_case name ''GITHUB_TOKEN'' \<longrightarrow> name \<in> fst ` set (rss_mappings scope)))"
proof -
  let ?start = "\<lparr>rss_inherit = False, rss_mappings = [],
    rss_required = map fst (filter snd (rc_secrets contract))\<rparr>"
  let ?P = "\<lambda>s. secret_scope_ok contract s \<and> rss_required s = rss_required ?start \<and> \<not> rss_inherit s"
  have start: "?P ?start" by (simp add: secret_scope_ok_def)
  have missing: "(if rss_inherit scope then None
      else find (\<lambda>name. \<not> eq_ignore_ascii_case name ''GITHUB_TOKEN'' \<and>
        \<not> bt_contains_key (rss_mappings scope) name) (rss_required scope)) = None"
    using assms by (auto simp: bind_reusable_secrets_def Let_def bindE_Inr split: option.splits if_splits)
  have loop: "?P s" if "foldE (bind_secret Y workflow job_id contract) ?start bindings = Inr s" for bindings s
    by (rule foldE_invariant [where P = ?P, OF that start]) (use bind_secret_ok in metis)
  have scope: "secret_scope_ok contract scope" "rss_required scope = rss_required ?start"
      "rss_inherit scope \<longleftrightarrow> job_secrets call = Some (YString ''inherit'')"
    using assms start
    by (auto simp: bind_reusable_secrets_def Let_def bindE_Inr secret_scope_ok_def
        split: option.splits if_splits yaml_value.splits dest!: loop)
  show ?thesis using missing scope by (auto simp: find_None_iff split: if_splits)
qed

theorem bind_reusable_secrets_safe_witness:
  "secret_scope_ok sample_contract
    \<lparr>rss_inherit = False, rss_mappings = [(''TOKEN'', ''DEPLOY_KEY'')], rss_required = [''TOKEN'']\<rparr>"
proof -
  have "bind_reusable_secrets plain_yaml ''ci'' ''call''
      (sample_call ''u'' [] (Some (YMapping
        [(YString ''TOKEN'', YString ''${{ secrets.DEPLOY_KEY }}'')]))) sample_contract =
      Inr \<lparr>rss_inherit = False, rss_mappings = [(''TOKEN'', ''DEPLOY_KEY'')],
        rss_required = [''TOKEN'']\<rparr>"
    by code_simp
  from bind_reusable_secrets_safe [OF this] show ?thesis by blast
qed

end
