(* ===== verification/Link.thy ===== *)
theory Link
  imports Reusable
begin

text \<open>
  Linking: \<open>expand_reusable_call\<close>, \<open>reusable_matrix_result\<close>,
  \<open>expand_dynamic_reusable_call\<close> and \<open>compile_linked_workflow\<close> of the workflow crate. A call
  to a reusable workflow becomes a gate job, the jobs of the called plan under the
  namespace of the call, and a result job. The recursion through called workflows is
  bounded by the nesting level the code checks.
\<close>

section \<open>Expanding one call\<close>

definition namespaced :: "string \<Rightarrow> string \<Rightarrow> string" where
  "namespaced job_id name = job_id @ ''::'' @ name"

text \<open>\<open>aliases[key]\<close> panics when the key is absent.\<close>

definition alias_of :: "(string \<times> string) list \<Rightarrow> string \<Rightarrow> failure + string" where
  "alias_of aliases key = ok_or (bt_get aliases key) Panic"

record invocation =
  iv_job_id :: string
  iv_placeholder :: job_core
  iv_input_scopes :: "planned_reusable_input_scope list"
  iv_scopes :: "planned_concurrency_scope list"
  iv_aliases :: "(string \<times> string) list"
  iv_secrets :: planned_reusable_secret_scope

definition invocation_scopes ::
  "string \<Rightarrow> job_core \<Rightarrow> planned_reusable_input_scope list \<Rightarrow> execution_plan
    \<Rightarrow> planned_concurrency_scope list"
where
  "invocation_scopes job_id placeholder input_scopes called_plan =
    (case pj_concurrency placeholder of
      Some configuration \<Rightarrow>
        [\<lparr>pcs_id = job_id @ ''::caller-concurrency'', pcs_configuration = configuration,
          pcs_reusable_input_scopes = pj_reusable_input_scopes placeholder\<rparr>]
    | None \<Rightarrow> []) @
    (case plan_concurrency called_plan of
      Some configuration \<Rightarrow>
        [\<lparr>pcs_id = job_id @ ''::workflow-concurrency'', pcs_configuration = configuration,
          pcs_reusable_input_scopes = input_scopes\<rparr>]
    | None \<Rightarrow> [])"

definition new_invocation ::
  "string \<Rightarrow> job_core \<Rightarrow> execution_plan \<Rightarrow> (string \<times> planned_reusable_input) list
    \<Rightarrow> planned_reusable_secret_scope \<Rightarrow> invocation"
where
  "new_invocation job_id placeholder called_plan inputs secrets =
    (let input_scopes = pj_reusable_input_scopes placeholder @
           [\<lparr>ris_inputs = inputs, ris_matrix = pj_matrix placeholder\<rparr>] in
     \<lparr>iv_job_id = job_id, iv_placeholder = placeholder, iv_input_scopes = input_scopes,
      iv_scopes = invocation_scopes job_id placeholder input_scopes called_plan,
      iv_aliases = map (\<lambda>base_id. (base_id, namespaced job_id base_id))
        (bs_collect (map planned_base_id (plan_jobs called_plan))),
      iv_secrets = secrets\<rparr>)"

definition gate_id :: "invocation \<Rightarrow> string" where
  "gate_id I = namespaced (iv_job_id I) ''gate''"

definition invocation_scope_ids :: "invocation \<Rightarrow> string list" where
  "invocation_scope_ids I = map pcs_id (iv_scopes I)"

definition gate_job :: "invocation \<Rightarrow> planned_job" where
  "gate_job I = PlannedJob ((iv_placeholder I)
    \<lparr>pj_id := gate_id I,
     pj_base_id := gate_id I,
     pj_name := pj_name (iv_placeholder I) @ '' / reusable workflow gate'',
     pj_outputs := [],
     pj_concurrency := None,
     pj_concurrency_scope_ids := invocation_scope_ids I,
     pj_concurrency_acquire := iv_scopes I,
     pj_concurrency_release := []\<rparr>) (Some ReusableGate)"

definition public_aliases :: "invocation \<Rightarrow> (string \<times> string) list" where
  "public_aliases I = filter (\<lambda>(base_id, _). \<not> contains_str base_id ''::'') (iv_aliases I)"

definition call_virtual_job ::
  "(string \<times> string) list \<Rightarrow> planned_virtual_job option \<Rightarrow> failure + planned_virtual_job option"
where
  "call_virtual_job aliases v =
    (case v of
      Some (ReusableResult jobs outputs) \<Rightarrow>
        bindE (mapE (\<lambda>(key, dependency).
            bindE (alias_of aliases dependency) (\<lambda>dependency. Inr (key, dependency))) jobs) (\<lambda>jobs.
        Inr (Some (ReusableResult jobs outputs)))
    | Some (ReusableMatrixResult invocations max_parallel fail_fast) \<Rightarrow>
        bindE (mapE (alias_of aliases) invocations) (\<lambda>invocations.
        Inr (Some (ReusableMatrixResult invocations max_parallel fail_fast)))
    | v \<Rightarrow> Inr v)"

definition call_scope :: "invocation \<Rightarrow> planned_concurrency_scope \<Rightarrow> planned_concurrency_scope" where
  "call_scope I scope = scope
    \<lparr>pcs_id := namespaced (iv_job_id I) (pcs_id scope),
     pcs_reusable_input_scopes := iv_input_scopes I @ pcs_reusable_input_scopes scope\<rparr>"

text \<open>The body of the loop over the jobs of the called plan.\<close>

definition called_job :: "invocation \<Rightarrow> planned_job \<Rightarrow> failure + planned_job" where
  "called_job I job =
    (let c = job_core job; placeholder = iv_placeholder I; aliases = iv_aliases I in
     bindE (alias_of aliases (pj_base_id c)) (\<lambda>new_base_id.
     bindE (slice_from Panic (pj_id c) (length (pj_base_id c))) (\<lambda>suffix.
     bindE (mapE (alias_of aliases) (pj_needs c)) (\<lambda>needs.
     bindE (mapE (\<lambda>(key, dependency).
         bindE (alias_of aliases dependency) (\<lambda>dependency. Inr (key, dependency)))
       (pj_need_aliases c)) (\<lambda>need_aliases.
     bindE (call_virtual_job aliases (virtual_job job)) (\<lambda>v.
     Inr (PlannedJob (c
       \<lparr>pj_permissions := intersect (pj_permissions c) (pj_permissions placeholder),
        pj_id := new_base_id @ suffix,
        pj_base_id := new_base_id,
        pj_name := pj_name placeholder @ '' / '' @ pj_name c,
        pj_needs := needs @ [gate_id I],
        pj_need_aliases := bt_or_inserts (bt_collect need_aliases)
          (map (\<lambda>dependency. (dependency, dependency)) (pj_needs placeholder)),
        pj_concurrency_scope_ids := invocation_scope_ids I @
          map (namespaced (iv_job_id I)) (pj_concurrency_scope_ids c),
        pj_concurrency_acquire := map (call_scope I) (pj_concurrency_acquire c),
        pj_concurrency_release := map (namespaced (iv_job_id I)) (pj_concurrency_release c),
        pj_reusable_input_scopes := iv_input_scopes I @ pj_reusable_input_scopes c,
        pj_reusable_secret_scopes := pj_reusable_secret_scopes placeholder @ [iv_secrets I] @
          pj_reusable_secret_scopes c\<rparr>) v)))))))"

definition always_condition :: string where
  "always_condition = ''${{ always() }}''"

definition result_job :: "invocation \<Rightarrow> (string \<times> string) list \<Rightarrow> planned_job" where
  "result_job I outputs = PlannedJob ((iv_placeholder I)
    \<lparr>pj_id := iv_job_id I,
     pj_base_id := iv_job_id I,
     pj_condition := Some always_condition,
     pj_needs := bt_values (public_aliases I),
     pj_need_aliases := public_aliases I,
     pj_outputs := [],
     pj_concurrency := None,
     pj_concurrency_scope_ids := invocation_scope_ids I,
     pj_concurrency_acquire := [],
     pj_concurrency_release := rev (invocation_scope_ids I)\<rparr>)
    (Some (ReusableResult (public_aliases I) outputs))"

definition expand_reusable_call ::
  "string \<Rightarrow> planned_job \<Rightarrow> execution_plan \<Rightarrow> (string \<times> planned_reusable_input) list
    \<Rightarrow> planned_reusable_secret_scope \<Rightarrow> (string \<times> string) list \<Rightarrow> failure + planned_job list"
where
  "expand_reusable_call job_id placeholder called_plan inputs secrets outputs =
    (let I = new_invocation job_id (job_core placeholder) called_plan inputs secrets in
     bindE (mapE (called_job I) (plan_jobs called_plan)) (\<lambda>called_jobs.
     Inr ([gate_job I] @ called_jobs @ [result_job I outputs])))"

section \<open>Matrices of calls\<close>

definition reusable_matrix_result :: "string \<Rightarrow> planned_job \<Rightarrow> string list \<Rightarrow> planned_job" where
  "reusable_matrix_result job_id placeholder invocations =
    (let c = job_core placeholder; n = length invocations in
     PlannedJob (c
       \<lparr>pj_id := job_id,
        pj_base_id := job_id,
        pj_condition := Some always_condition,
        pj_needs := invocations,
        pj_need_aliases := bt_collect (map (\<lambda>i. (i, i)) invocations),
        pj_matrix := [],
        pj_dynamic_matrix := None,
        pj_matrix_max_parallel := None,
        pj_strategy_job_index := None,
        pj_strategy_job_total := None,
        pj_outputs := [],
        pj_steps := [],
        pj_concurrency := None,
        pj_concurrency_scope_ids := [],
        pj_concurrency_acquire := [],
        pj_concurrency_release := []\<rparr>)
       (Some (ReusableMatrixResult invocations
         (max (min (or_default (pj_matrix_max_parallel c) n) n) 1) (pj_matrix_fail_fast c))))"

definition matrix_invocation :: "string \<Rightarrow> nat \<Rightarrow> string" where
  "matrix_invocation base_id index = base_id @ ''::matrix-'' @ show_nat (index + 1)"

text \<open>The loop over the instances of a matrix of calls, static or dynamic.\<close>

definition expand_invocations ::
  "string \<Rightarrow> planned_job list \<Rightarrow> execution_plan \<Rightarrow> (string \<times> planned_reusable_input) list
    \<Rightarrow> planned_reusable_secret_scope \<Rightarrow> (string \<times> string) list \<Rightarrow> failure + planned_job list"
where
  "expand_invocations base_id instances called_plan inputs secrets outputs =
    bindE (mapE (\<lambda>(index, instance).
        expand_reusable_call (matrix_invocation base_id index) instance called_plan inputs secrets outputs)
      (enumerate 0 instances)) (\<lambda>expanded. Inr (concat expanded))"

definition invocation_names :: "string \<Rightarrow> planned_job list \<Rightarrow> string list" where
  "invocation_names base_id instances = map (matrix_invocation base_id) [0..<length instances]"

definition expand_dynamic_reusable_call ::
  "planned_job \<Rightarrow> planned_job list \<Rightarrow> planned_dynamic_reusable_call \<Rightarrow> failure + planned_job list"
where
  "expand_dynamic_reusable_call template instances call =
    bindE (expand_invocations (planned_base_id template) instances (dc_called_plan call)
      (dc_inputs call) (dc_secrets call) (dc_outputs call)) (\<lambda>expanded.
    Inr (expanded @ [reusable_matrix_result (planned_base_id template) template
      (invocation_names (planned_base_id template) instances)]))"

section \<open>Linking a workflow\<close>

definition MAX_REUSABLE_WORKFLOW_LEVELS :: nat where
  "MAX_REUSABLE_WORKFLOW_LEVELS = 10"

definition MAX_UNIQUE_REUSABLE_WORKFLOWS :: nat where
  "MAX_UNIQUE_REUSABLE_WORKFLOWS = 50"

definition call_jobs :: "workflow \<Rightarrow> (string \<times> job) list" where
  "call_jobs workflow = filter (\<lambda>(_, job). job_uses job \<noteq> None) (wf_jobs workflow)"

definition placeholder_job :: "job \<Rightarrow> job" where
  "placeholder_job job = job
    \<lparr>job_runs_on := Some (YString ''macos-latest''), job_uses := None, job_with := [],
     job_secrets := None, job_steps := []\<rparr>"

definition placeholder_workflow :: "workflow \<Rightarrow> workflow" where
  "placeholder_workflow workflow = workflow
    \<lparr>wf_jobs := map (\<lambda>(job_id, job).
       (job_id, if job_uses job \<noteq> None then placeholder_job job else job)) (wf_jobs workflow)\<rparr>"

definition link_expansion ::
  "string \<Rightarrow> string \<Rightarrow> planned_job list \<Rightarrow> execution_plan \<Rightarrow> (string \<times> planned_reusable_input) list
    \<Rightarrow> planned_reusable_secret_scope \<Rightarrow> (string \<times> string) list \<Rightarrow> failure + planned_job list"
where
  "link_expansion workflow job_id instances called_plan inputs secrets outputs =
    (if list_ex (\<lambda>p. pj_dynamic_matrix (job_core p) \<noteq> None) instances then
       bindE (ensure (length instances = 1)
         (incompatible workflow job_id (OnLink DynamicCallTemplates))) (\<lambda>_.
       Inr [PlannedJob (job_core (hd instances)) (Some (ReusableDynamicCall
         (PlannedDynamicReusableCall called_plan inputs secrets outputs)))])
     else if length instances = 1 then
       expand_reusable_call job_id (hd instances) called_plan inputs secrets outputs
     else
       bindE (expand_invocations job_id instances called_plan inputs secrets outputs) (\<lambda>expanded.
       Inr (expanded @ [reusable_matrix_result job_id (hd instances)
         (invocation_names job_id instances)])))"

text \<open>The loop that puts the expansions in the place of the placeholders.\<close>

definition link_job ::
  "(string \<times> job) list \<Rightarrow> planned_job list \<times> string set \<times> (string \<times> planned_job list) list
    \<Rightarrow> planned_job \<Rightarrow> failure + planned_job list \<times> string set \<times> (string \<times> planned_job list) list"
where
  "link_job calls state job =
    (case state of (linked, replaced, expansions) \<Rightarrow>
     if bt_contains_key calls (planned_base_id job) then
       if planned_base_id job \<notin> replaced then
         bindE (ok_or (bt_get expansions (planned_base_id job)) Panic) (\<lambda>expansion.
         Inr (linked @ expansion, insert (planned_base_id job) replaced,
           bt_remove (planned_base_id job) expansions))
       else Inr state
     else Inr (linked @ [job], replaced, expansions))"

type_synonym link_state = "(string \<times> planned_job list) list \<times> string list"

text \<open>
  What the call loop does before it compiles the called workflow: \<open>prepare_call\<close> gives the
  path, the called workflow, the bound inputs and secrets and the contract's outputs, and
  the set of called workflows with the path added.
\<close>

record prepared_call =
  pr_path :: string
  pr_called :: workflow
  pr_inputs :: "(string \<times> planned_reusable_input) list"
  pr_secrets :: planned_reusable_secret_scope
  pr_outputs :: "(string \<times> string) list"
  pr_called_workflows :: "string list"

definition prepare_call ::
  "yaml_api \<Rightarrow> string \<Rightarrow> (string \<times> workflow) list \<Rightarrow> string list \<Rightarrow> nat \<Rightarrow> string list
    \<Rightarrow> string \<times> job \<Rightarrow> failure + prepared_call"
where
  "prepare_call Y name reusables call_stack level called_workflows entry =
    (case entry of (job_id, call) \<Rightarrow>
     bindE (ok_or (job_uses call) Panic) (\<lambda>uses.
     bindE (reusable_path name job_id uses reusables) (\<lambda>path.
     let called_workflows = bs_insert path called_workflows in
     bindE (ensure (length called_workflows \<le> MAX_UNIQUE_REUSABLE_WORKFLOWS)
       (incompatible name job_id (OnLink TooManyReusableWorkflows))) (\<lambda>_.
     bindE (ensure (level < MAX_REUSABLE_WORKFLOW_LEVELS)
       (incompatible name job_id (OnLink NestingTooDeep))) (\<lambda>_.
     bindE (ensure (path \<notin> set call_stack)
       (incompatible name job_id (OnLink (CallCycle (call_stack @ [path]))))) (\<lambda>_.
     bindE (ok_or (bt_get reusables path)
       (incompatible name job_id (OnLink (ReusableNotFound path)))) (\<lambda>called.
     bindE (reusable_contract Y name job_id called) (\<lambda>contract.
     bindE (bind_reusable_inputs Y name job_id call contract) (\<lambda>inputs.
     bindE (bind_reusable_secrets Y name job_id call contract) (\<lambda>secrets.
     Inr \<lparr>pr_path = path, pr_called = called, pr_inputs = inputs, pr_secrets = secrets,
       pr_outputs = rc_outputs contract, pr_called_workflows = called_workflows\<rparr>))))))))))"

lemma prepare_call_level:
  "prepare_call Y name reusables stack level called entry = Inr p \<Longrightarrow> level < MAX_REUSABLE_WORKFLOW_LEVELS"
  by (cases entry) (auto simp: prepare_call_def Let_def result_simps)

definition call_instances :: "execution_plan \<Rightarrow> string \<Rightarrow> failure + planned_job list" where
  "call_instances plan job_id =
    (let instances = filter (\<lambda>j. planned_base_id j = job_id) (plan_jobs plan) in
     if instances = [] then Inl Panic else Inr instances)"

function compile_linked_workflow ::
  "yaml_api \<Rightarrow> parser \<Rightarrow> workflow \<Rightarrow> string \<Rightarrow> (string \<times> workflow) list \<Rightarrow> string list
    \<Rightarrow> string list \<Rightarrow> nat \<Rightarrow> failure + execution_plan \<times> string list"
where
  "compile_linked_workflow Y parse workflow path reusables call_stack called_workflows level =
    (if call_jobs workflow = [] then
       bindE (compile Y parse workflow path) (\<lambda>plan. Inr (plan, called_workflows))
     else
       bindE (foldE (\<lambda>_ (job_id, call). validate_reusable_call_job (wf_name workflow) job_id call)
         () (call_jobs workflow)) (\<lambda>_.
       bindE (compile Y parse (placeholder_workflow workflow) path) (\<lambda>plan.
       bindE (foldE (\<lambda>state entry.
           bindE (call_instances plan (fst entry)) (\<lambda>instances.
           bindE (prepare_call Y (wf_name workflow) reusables call_stack level (snd state) entry) (\<lambda>p.
           bindE (compile_linked_workflow Y parse (pr_called p) (pr_path p) reusables
             (call_stack @ [pr_path p]) (pr_called_workflows p) (level + 1)) (\<lambda>r.
           bindE (ensure (plan_jobs (fst r) \<noteq> [])
             (incompatible (wf_name workflow) (fst entry) (OnLink ReusableWithoutJobs))) (\<lambda>_.
           bindE (link_expansion (wf_name workflow) (fst entry) instances (fst r)
             (pr_inputs p) (pr_secrets p) (pr_outputs p)) (\<lambda>expansion.
           Inr (bt_insert (fst entry) expansion (fst state), snd r)))))))
         ([], called_workflows) (call_jobs workflow)) (\<lambda>state.
       bindE (foldE (link_job (call_jobs workflow)) ([], {}, fst state) (plan_jobs plan)) (\<lambda>linked.
       bindE (validate_dependencies (plan_workflow_name plan) (fst linked)) (\<lambda>_.
       Inr (ExecutionPlan (plan_workflow_name plan) (plan_workflow_path plan)
         (plan_concurrency plan) (fst linked), snd state)))))))"
  by pat_completeness auto
termination
  by (relation "measure (\<lambda>(_, _, _, _, _, _, _, level). MAX_REUSABLE_WORKFLOW_LEVELS - level)")
    (auto dest!: prepare_call_level)

declare compile_linked_workflow.simps [simp del]

definition compile_with_reusables ::
  "yaml_api \<Rightarrow> parser \<Rightarrow> workflow \<Rightarrow> string \<Rightarrow> (string \<times> workflow) list \<Rightarrow> failure + execution_plan"
where
  "compile_with_reusables Y parse workflow path reusables =
    bindE (compile_linked_workflow Y parse workflow path reusables [] [] 1) (\<lambda>r. Inr (fst r))"

definition compile_with_local_reusables ::
  "yaml_api \<Rightarrow> parser \<Rightarrow> workflow \<Rightarrow> string \<Rightarrow> (string \<times> workflow) list \<Rightarrow> failure + execution_plan"
where
  "compile_with_local_reusables Y parse workflow path reusables =
    compile_with_reusables Y parse workflow path reusables"

section \<open>References between planned jobs\<close>

text \<open>
  The invariant that keeps the indexing of the linker in range: every id a job of a plan
  refers to is a base id of the plan, and a job's id extends its base id at a character
  boundary.
\<close>

fun virtual_targets :: "planned_virtual_job option \<Rightarrow> string list" where
  "virtual_targets (Some (ReusableResult jobs outputs)) = map snd jobs"
| "virtual_targets (Some (ReusableMatrixResult invocations m f)) = invocations"
| "virtual_targets _ = []"

definition job_refs :: "planned_job \<Rightarrow> string set" where
  "job_refs j = set (planned_needs j) \<union> snd ` set (pj_need_aliases (job_core j)) \<union>
    set (virtual_targets (virtual_job j))"

definition id_extends_base :: "planned_job \<Rightarrow> bool" where
  "id_extends_base j \<longleftrightarrow> (\<exists>suffix. planned_id j = planned_base_id j @ suffix \<and>
    (suffix = [] \<or> \<not> utf8_continuation (hd suffix)))"

definition closed_in :: "string set \<Rightarrow> planned_job \<Rightarrow> bool" where
  "closed_in B j \<longleftrightarrow> id_extends_base j \<and> job_refs j \<subseteq> B"

abbreviation base_ids :: "planned_job list \<Rightarrow> string set" where
  "base_ids jobs \<equiv> planned_base_id ` set jobs"

definition plan_closed :: "planned_job list \<Rightarrow> bool" where
  "plan_closed jobs \<longleftrightarrow> (\<forall>j\<in>set jobs. closed_in (base_ids jobs) j)"

lemma closed_in_mono: "closed_in B j \<Longrightarrow> B \<subseteq> C \<Longrightarrow> closed_in C j"
  by (auto simp: closed_in_def)

lemma id_extends_refl: "planned_id j = planned_base_id j \<Longrightarrow> id_extends_base j"
  by (auto simp: id_extends_base_def)

lemma slice_id:
  assumes "planned_id j = planned_base_id j @ suffix" "suffix = [] \<or> \<not> utf8_continuation (hd suffix)"
  shows "slice_from Panic (planned_id j) (length (planned_base_id j)) = Inr suffix"
  using assms by (cases suffix) (auto simp: slice_from_def is_char_boundary_def)

section \<open>An expanded call\<close>

lemma iv_aliases_get:
  assumes "I = new_invocation job_id p called_plan inputs secrets"
    and "k \<in> base_ids (plan_jobs called_plan)"
  shows "alias_of (iv_aliases I) k = Inr (namespaced job_id k)"
proof -
  have "bt_get (iv_aliases I) k = Some (namespaced job_id k)"
    using assms by (simp add: new_invocation_def Let_def map_of_map_keys [symmetric]
        map_of_map_restrict o_def)
  then show ?thesis by (simp add: alias_of_def ok_or_def)
qed

lemma mapE_Inr_map: "(\<And>x. x \<in> set xs \<Longrightarrow> f x = Inr (g x)) \<Longrightarrow> mapE f xs = Inr (map g xs)"
  by (induction xs) auto

lemma entries_extend: "set (bt_extend m xs) \<subseteq> set m \<union> set xs"
proof -
  have "set (fold (\<lambda>(k, v) m. bt_insert k v m) xs m) \<subseteq> set m \<union> set xs"
    by (induction xs arbitrary: m) (fastforce dest: set_bt_insert)+
  then show ?thesis by (simp add: bt_extend_def)
qed

lemma entries_collect: "set (bt_collect xs) \<subseteq> set xs"
  using entries_extend [of "[]" xs] by (simp add: bt_collect_def)

lemma entries_or_inserts: "set (bt_or_inserts m xs) \<subseteq> set m \<union> set xs"
proof -
  have step: "set (bt_or_insert k v m) \<subseteq> insert (k, v) (set m)" for k v and m :: "('a::linorder \<times> 'b) list"
    by (auto simp: bt_or_insert_def dest: set_bt_insert split: option.splits)
  have "set (fold (\<lambda>(k, v) m. bt_or_insert k v m) xs m) \<subseteq> set m \<union> set xs"
  proof (induction xs arbitrary: m)
    case (Cons x xs)
    then show ?case using step by (cases x) fastforce
  qed simp
  then show ?thesis by (simp add: bt_or_inserts_def)
qed

text \<open>What the jobs of an expanded call satisfy, given the plan of the called workflow.\<close>

definition called_job_ok :: "invocation \<Rightarrow> planned_job \<Rightarrow> planned_job \<Rightarrow> bool" where
  "called_job_ok I job job' \<longleftrightarrow>
    planned_base_id job' = namespaced (iv_job_id I) (planned_base_id job) \<and>
    id_extends_base job' \<and>
    job_refs job' \<subseteq> namespaced (iv_job_id I) ` job_refs job \<union> {gate_id I} \<union>
      set (pj_needs (iv_placeholder I)) \<and>
    gate_id I \<in> set (planned_needs job') \<and>
    pj_permissions (job_core job') =
      intersect (pj_permissions (job_core job)) (pj_permissions (iv_placeholder I))"

lemma call_virtual_job_ok:
  assumes "\<And>k. k \<in> set (virtual_targets v) \<Longrightarrow> alias_of aliases k = Inr (f k)"
  shows "\<exists>v'. call_virtual_job aliases v = Inr v' \<and> virtual_targets v' = map f (virtual_targets v)"
proof (cases v rule: virtual_targets.cases)
  case (1 jobs outputs)
  have "mapE (\<lambda>(key, dependency). bindE (alias_of aliases dependency) (\<lambda>dependency. Inr (key, dependency))) jobs =
      Inr (map (\<lambda>(key, dependency). (key, f dependency)) jobs)"
    using assms 1 by (intro mapE_Inr_map) (force simp: bindE_Inr)
  then show ?thesis using 1 by (auto simp: call_virtual_job_def)
next
  case (2 invocations m b)
  have "mapE (alias_of aliases) invocations = Inr (map f invocations)"
    using assms 2 by (intro mapE_Inr_map) simp
  then show ?thesis using 2 by (simp add: call_virtual_job_def)
qed (simp_all add: call_virtual_job_def)

lemma called_job_total:
  assumes I: "I = new_invocation job_id p called_plan inputs secrets"
    and closed: "closed_in (base_ids (plan_jobs called_plan)) job"
    and member: "planned_base_id job \<in> base_ids (plan_jobs called_plan)"
  shows "\<exists>job'. called_job I job = Inr job' \<and> called_job_ok I job job'"
proof -
  let ?ns = "namespaced job_id" and ?B = "base_ids (plan_jobs called_plan)"
  have id: "iv_job_id I = job_id" "iv_placeholder I = p" by (simp_all add: I new_invocation_def Let_def)
  have known: "alias_of (iv_aliases I) k = Inr (?ns k)" if "k \<in> ?B" for k
    using iv_aliases_get [OF I that] .
  from closed obtain suffix where suffix: "planned_id job = planned_base_id job @ suffix"
      "suffix = [] \<or> \<not> utf8_continuation (hd suffix)" and refs: "job_refs job \<subseteq> ?B"
    by (auto simp: closed_in_def id_extends_base_def)
  have needs: "mapE (alias_of (iv_aliases I)) (planned_needs job) = Inr (map ?ns (planned_needs job))"
    using refs known by (intro mapE_Inr_map) (auto simp: job_refs_def)
  have need_aliases: "mapE (\<lambda>(key, dependency).
        bindE (alias_of (iv_aliases I) dependency) (\<lambda>dependency. Inr (key, dependency)))
      (pj_need_aliases (job_core job)) =
      Inr (map (\<lambda>(key, dependency). (key, ?ns dependency)) (pj_need_aliases (job_core job)))"
  proof (rule mapE_Inr_map)
    fix e assume e: "e \<in> set (pj_need_aliases (job_core job))"
    obtain key d where kd: "e = (key, d)" by fastforce
    have "d \<in> job_refs job" using e kd by (force simp: job_refs_def)
    then have "d \<in> ?B" using refs by blast
    then show "(case e of (key, dependency) \<Rightarrow>
          bindE (alias_of (iv_aliases I) dependency) (\<lambda>dependency. Inr (key, dependency))) =
        Inr (case e of (key, dependency) \<Rightarrow> (key, ?ns dependency))"
      by (simp add: kd known)
  qed
  have targets: "set (virtual_targets (virtual_job job)) \<subseteq> ?B" using refs by (simp add: job_refs_def)
  obtain v where v: "call_virtual_job (iv_aliases I) (virtual_job job) = Inr v"
      "virtual_targets v = map ?ns (virtual_targets (virtual_job job))"
    using call_virtual_job_ok [of "virtual_job job" "iv_aliases I" ?ns, OF known] targets by blast
  let ?na = "bt_or_inserts (bt_collect (map (\<lambda>(key, dependency). (key, ?ns dependency))
      (pj_need_aliases (job_core job)))) (map (\<lambda>d. (d, d)) (pj_needs p))"
  have na: "snd ` set ?na \<subseteq> ?ns ` job_refs job \<union> set (pj_needs p)"
  proof -
    let ?m = "map (\<lambda>(key, dependency). (key, ?ns dependency)) (pj_need_aliases (job_core job))"
    have "set ?na \<subseteq> set ?m \<union> set (map (\<lambda>d. (d, d)) (pj_needs p))"
      using entries_or_inserts [of "bt_collect ?m" "map (\<lambda>d. (d, d)) (pj_needs p)"]
        entries_collect [of ?m] by blast
    then have "snd ` set ?na \<subseteq> snd ` set ?m \<union> snd ` set (map (\<lambda>d. (d, d)) (pj_needs p))"
      unfolding image_Un [symmetric] by (rule image_mono)
    moreover have "snd ` set ?m = ?ns ` snd ` set (pj_need_aliases (job_core job))"
      by (simp add: image_image case_prod_unfold)
    moreover have "snd ` set (map (\<lambda>d. (d, d)) (pj_needs p)) = set (pj_needs p)"
      by (simp add: image_image)
    moreover have "?ns ` snd ` set (pj_need_aliases (job_core job)) \<subseteq> ?ns ` job_refs job"
      unfolding job_refs_def by (intro image_mono) blast
    ultimately show ?thesis by blast
  qed
  define job' where "job' = (case called_job I job of Inr j \<Rightarrow> j | Inl _ \<Rightarrow> job)"
  have eq: "called_job I job = Inr job'"
    by (simp add: job'_def called_job_def Let_def known [OF member] slice_id [OF suffix] needs
        need_aliases v(1))
  have fields: "planned_base_id job' = ?ns (planned_base_id job)"
      "planned_id job' = ?ns (planned_base_id job) @ suffix"
      "planned_needs job' = map ?ns (planned_needs job) @ [gate_id I]"
      "pj_need_aliases (job_core job') = ?na" "virtual_job job' = v"
      "pj_permissions (job_core job') = intersect (pj_permissions (job_core job)) (pj_permissions p)"
    by (simp_all add: job'_def called_job_def Let_def known [OF member] slice_id [OF suffix] needs
        need_aliases v(1) id)
  have "set (planned_needs job') \<subseteq> ?ns ` job_refs job \<union> {gate_id I}"
    unfolding fields(3) job_refs_def by auto
  moreover have "set (virtual_targets (virtual_job job')) \<subseteq> ?ns ` job_refs job"
    unfolding fields(5) v(2) job_refs_def by auto
  moreover have "snd ` set (pj_need_aliases (job_core job')) \<subseteq> ?ns ` job_refs job \<union> set (pj_needs p)"
    unfolding fields(4) by (rule na)
  ultimately have "job_refs job' \<subseteq> ?ns ` job_refs job \<union> {gate_id I} \<union> set (pj_needs p)"
    unfolding job_refs_def [of job'] by blast
  moreover have "id_extends_base job'"
    unfolding id_extends_base_def fields(1,2) using suffix(2) by blast
  moreover have "gate_id I \<in> set (planned_needs job')" by (simp add: fields(3))
  ultimately show ?thesis
    using eq by (auto simp: called_job_ok_def fields(1,6) id)
qed

text \<open>What the jobs of an expanded call satisfy as a whole.\<close>

definition within_permissions :: "planned_permissions \<Rightarrow> planned_job \<Rightarrow> bool" where
  "within_permissions maximum j \<longleftrightarrow>
    (\<forall>n. access_level (pj_permissions (job_core j)) n \<le> access_level maximum n)"

definition expansion_ok :: "string \<Rightarrow> string set \<Rightarrow> planned_permissions \<Rightarrow> planned_job list \<Rightarrow> bool" where
  "expansion_ok job_id B maximum js \<longleftrightarrow> job_id \<in> base_ids js \<and>
    (\<forall>j\<in>set js. closed_in (B \<union> base_ids js) j \<and> within_permissions maximum j)"

lemma public_aliases_subset:
  assumes "I = new_invocation job_id p called_plan inputs secrets"
  shows "snd ` set (public_aliases I) \<subseteq> namespaced job_id ` base_ids (plan_jobs called_plan)"
  using assms by (auto simp: public_aliases_def new_invocation_def Let_def)

lemma mapE_total:
  "(\<And>x. x \<in> set xs \<Longrightarrow> \<exists>y. f x = Inr y \<and> P x y) \<Longrightarrow> \<exists>ys. mapE f xs = Inr ys \<and> list_all2 P xs ys"
proof (induction xs)
  case (Cons x xs)
  then obtain y ys where "f x = Inr y" "P x y" "mapE f xs = Inr ys" "list_all2 P xs ys"
    by (metis list.set_intros)
  then show ?case by simp
qed simp

lemma list_all2_image:
  "list_all2 (\<lambda>x y. g y = h x) xs ys \<Longrightarrow> g ` set ys = h ` set xs"
  by (induction xs ys rule: list_all2_induct) auto

lemma refs_step: "J \<subseteq> N \<union> {g} \<union> S \<Longrightarrow> N \<subseteq> M \<Longrightarrow> S \<subseteq> B \<Longrightarrow> J \<subseteq> B \<union> insert g (insert i M)"
  by blast

lemma expand_reusable_call_total:
  assumes called: "plan_closed (plan_jobs called_plan)"
    and p: "job_refs placeholder \<subseteq> B" "virtual_job placeholder = None"
  shows "\<exists>js. expand_reusable_call job_id placeholder called_plan inputs secrets outputs = Inr js \<and>
    expansion_ok job_id B (pj_permissions (job_core placeholder)) js \<and>
    (\<exists>gate called result. js = gate # called @ [result] \<and> planned_base_id result = job_id \<and>
      list_all2 (called_job_ok (new_invocation job_id (job_core placeholder) called_plan inputs secrets))
        (plan_jobs called_plan) called)"
proof -
  define I where "I = new_invocation job_id (job_core placeholder) called_plan inputs secrets"
  let ?ns = "namespaced job_id" and ?C = "base_ids (plan_jobs called_plan)"
  have id: "iv_job_id I = job_id" "iv_placeholder I = job_core placeholder"
    by (simp_all add: I_def new_invocation_def Let_def)
  have "\<exists>job'. called_job I job = Inr job' \<and> called_job_ok I job job'" if "job \<in> set (plan_jobs called_plan)" for job
    using called_job_total [OF I_def, of job] called that by (auto simp: plan_closed_def)
  then obtain cs where cs: "mapE (called_job I) (plan_jobs called_plan) = Inr cs"
      "list_all2 (called_job_ok I) (plan_jobs called_plan) cs"
    using mapE_total [of "plan_jobs called_plan" "called_job I" "called_job_ok I"] by blast
  let ?js = "gate_job I # cs @ [result_job I outputs]"
  have eq: "expand_reusable_call job_id placeholder called_plan inputs secrets outputs = Inr ?js"
    using cs(1) by (simp add: expand_reusable_call_def Let_def flip: I_def)
  have cs_base: "base_ids cs = ?ns ` ?C"
  proof -
    have "list_all2 (\<lambda>x y. planned_base_id y = ?ns (planned_base_id x)) (plan_jobs called_plan) cs"
      using cs(2) by (rule list_all2_mono) (simp add: called_job_ok_def id)
    from list_all2_image [OF this] show ?thesis by (simp add: image_image)
  qed
  have base: "base_ids ?js = insert (gate_id I) (insert job_id (?ns ` ?C))"
    using cs_base by (auto simp: gate_job_def result_job_def id)
  have p_needs: "set (pj_needs (job_core placeholder)) \<subseteq> B"
      "snd ` set (pj_need_aliases (job_core placeholder)) \<subseteq> B"
    using p(1) by (auto simp: job_refs_def)
  have gate: "closed_in (B \<union> base_ids ?js) (gate_job I) \<and>
      within_permissions (pj_permissions (job_core placeholder)) (gate_job I)"
    using p_needs
    by (auto simp: closed_in_def job_refs_def gate_job_def id within_permissions_def
        intro!: id_extends_refl)
  have result: "closed_in (B \<union> base_ids ?js) (result_job I outputs) \<and>
      within_permissions (pj_permissions (job_core placeholder)) (result_job I outputs)"
  proof -
    have "job_refs (result_job I outputs) = snd ` set (public_aliases I)"
      by (simp add: job_refs_def result_job_def)
    then have "job_refs (result_job I outputs) \<subseteq> B \<union> base_ids ?js"
      using public_aliases_subset [OF I_def] base by auto
    then show ?thesis
      by (auto simp: closed_in_def within_permissions_def result_job_def id intro!: id_extends_refl)
  qed
  have inner: "closed_in (B \<union> base_ids ?js) j \<and> within_permissions (pj_permissions (job_core placeholder)) j"
    if "j \<in> set cs" for j
  proof -
    from list_all2_source [OF cs(2) that] obtain job where job: "job \<in> set (plan_jobs called_plan)"
        "called_job_ok I job j" by blast
    have "job_refs job \<subseteq> ?C" using called job(1) by (auto simp: plan_closed_def closed_in_def)
    then have ns: "?ns ` job_refs job \<subseteq> ?ns ` ?C" by (rule image_mono)
    have refs: "job_refs j \<subseteq> ?ns ` job_refs job \<union> {gate_id I} \<union> set (planned_needs placeholder)"
      using job(2) by (simp add: called_job_ok_def id)
    have "job_refs j \<subseteq> B \<union> base_ids ?js"
      unfolding base by (rule refs_step [OF refs ns p_needs(1)])
    with job(2) show ?thesis
      by (auto simp: closed_in_def called_job_ok_def within_permissions_def id perms.limit_le)
  qed
  have "closed_in (B \<union> base_ids ?js) j \<and> within_permissions (pj_permissions (job_core placeholder)) j"
    if "j \<in> set ?js" for j
  proof -
    from that consider "j = gate_job I" | "j \<in> set cs" | "j = result_job I outputs" by auto
    then show ?thesis using gate result inner by cases blast+
  qed
  moreover have "job_id \<in> base_ids ?js" unfolding base by simp
  ultimately have "expansion_ok job_id B (pj_permissions (job_core placeholder)) ?js"
    unfolding expansion_ok_def by blast
  moreover have "planned_base_id (result_job I outputs) = job_id" by (simp add: result_job_def id)
  ultimately show ?thesis using eq cs(2) unfolding I_def by blast
qed

section \<open>An expanded matrix of calls\<close>

lemma closed_in_base_mono:
  "closed_in (B \<union> base_ids js) j \<Longrightarrow> base_ids js \<subseteq> C \<Longrightarrow> closed_in (B \<union> C) j"
  by (auto intro: closed_in_mono)

lemma matrix_result_fields:
  "planned_base_id (reusable_matrix_result job_id p names) = job_id"
  "planned_id (reusable_matrix_result job_id p names) = job_id"
  "pj_permissions (job_core (reusable_matrix_result job_id p names)) = pj_permissions (job_core p)"
  by (simp_all add: reusable_matrix_result_def Let_def)

lemma matrix_result_refs: "job_refs (reusable_matrix_result job_id p names) \<subseteq> set names"
proof -
  have "set (bt_collect (map (\<lambda>i. (i, i)) names)) \<subseteq> set (map (\<lambda>i. (i, i)) names)"
    by (rule entries_collect)
  then have "snd ` set (bt_collect (map (\<lambda>i. (i, i)) names)) \<subseteq> set names" by auto
  then show ?thesis by (simp add: job_refs_def reusable_matrix_result_def Let_def)
qed

lemma expand_invocations_total:
  assumes called: "plan_closed (plan_jobs called_plan)"
    and instances: "\<And>p. p \<in> set instances \<Longrightarrow> job_refs p \<subseteq> B \<and> virtual_job p = None \<and>
      within_permissions maximum p"
  shows "\<exists>js. expand_invocations base_id instances called_plan inputs secrets outputs = Inr js \<and>
    set (invocation_names base_id instances) \<subseteq> base_ids js \<and>
    (\<forall>j\<in>set js. closed_in (B \<union> base_ids js) j \<and> within_permissions maximum j)"
proof -
  let ?f = "\<lambda>(index, instance). expand_reusable_call (matrix_invocation base_id index) instance
    called_plan inputs secrets outputs"
  let ?P = "\<lambda>(index, instance) js. expansion_ok (matrix_invocation base_id index) B maximum js"
  have each: "\<exists>js. ?f e = Inr js \<and> ?P e js" if "e \<in> set (enumerate 0 instances)" for e
  proof -
    obtain i p where e: "e = (i, p)" by fastforce
    with that have p: "p \<in> set instances" by (auto simp: in_set_enumerate_eq)
    from expand_reusable_call_total [OF called, of p B "matrix_invocation base_id i" inputs secrets outputs]
      instances [OF p]
    obtain js where "?f e = Inr js"
        "expansion_ok (matrix_invocation base_id i) B (pj_permissions (job_core p)) js"
      unfolding e by auto
    moreover from this(2) instances [OF p] have "expansion_ok (matrix_invocation base_id i) B maximum js"
      unfolding expansion_ok_def within_permissions_def by (meson le_trans)
    ultimately show ?thesis unfolding e by auto
  qed
  from mapE_total [of "enumerate 0 instances" ?f ?P, OF each] obtain groups where
    g: "mapE ?f (enumerate 0 instances) = Inr groups" "list_all2 ?P (enumerate 0 instances) groups" by blast
  have member: "base_ids js \<subseteq> base_ids (concat groups)" if "js \<in> set groups" for js
    using that by auto
  have "matrix_invocation base_id i \<in> base_ids (concat groups)" if "i < length instances" for i
  proof -
    have "groups ! i \<in> set groups" "expansion_ok (matrix_invocation base_id i) B maximum (groups ! i)"
      using g(2) that by (auto simp: list_all2_conv_all_nth nth_enumerate_eq)
    then show ?thesis using member unfolding expansion_ok_def by blast
  qed
  moreover have "closed_in (B \<union> base_ids (concat groups)) j \<and> within_permissions maximum j"
    if "j \<in> set (concat groups)" for j
  proof -
    from that obtain js where js: "js \<in> set groups" "j \<in> set js" by auto
    from list_all2_source [OF g(2) js(1)] obtain e where "?P e js" by blast
    then obtain i where "expansion_ok (matrix_invocation base_id i) B maximum js" by (cases e) auto
    then show ?thesis using js closed_in_base_mono [OF _ member [OF js(1)]] unfolding expansion_ok_def by blast
  qed
  ultimately show ?thesis
    using g(1) by (intro exI [of _ "concat groups"]) (auto simp: expand_invocations_def invocation_names_def)
qed

lemma with_matrix_result:
  assumes js: "set names \<subseteq> base_ids js"
      "\<forall>j\<in>set js. closed_in (B \<union> base_ids js) j \<and> within_permissions maximum j"
    and p: "within_permissions maximum p"
  shows "expansion_ok job_id B maximum (js @ [reusable_matrix_result job_id p names])"
proof -
  let ?r = "reusable_matrix_result job_id p names"
  have base: "base_ids (js @ [?r]) = insert job_id (base_ids js)"
    by (simp add: matrix_result_fields)
  have "closed_in (B \<union> base_ids (js @ [?r])) ?r"
    using matrix_result_refs [of job_id p names] js(1) base
    by (auto simp: closed_in_def matrix_result_fields intro!: id_extends_refl)
  moreover have "within_permissions maximum ?r"
    using p by (simp add: within_permissions_def matrix_result_fields)
  moreover have "closed_in (B \<union> base_ids (js @ [?r])) j" if "j \<in> set js" for j
    using js(2) that base by (auto intro: closed_in_mono)
  ultimately show ?thesis
    unfolding expansion_ok_def using js(2) by (auto simp: matrix_result_fields)
qed

lemma link_expansion_ok:
  assumes called: "plan_closed (plan_jobs called_plan)"
    and ne: "instances \<noteq> []"
    and instances: "\<And>p. p \<in> set instances \<Longrightarrow> closed_in B p \<and> virtual_job p = None \<and>
      planned_base_id p = job_id \<and> within_permissions maximum p"
  shows "no_fault (link_expansion workflow job_id instances called_plan inputs secrets outputs)"
    and "link_expansion workflow job_id instances called_plan inputs secrets outputs = Inr js \<Longrightarrow>
      expansion_ok job_id B maximum js"
proof -
  obtain p rest where ps: "instances = p # rest" using ne by (cases instances) auto
  note p = instances [of p, unfolded ps, simplified]
  let ?run = "link_expansion workflow job_id instances called_plan inputs secrets outputs"
  have "no_fault ?run \<and> (\<forall>js. ?run = Inr js \<longrightarrow> expansion_ok job_id B maximum js)"
  proof (cases "list_ex (\<lambda>p. pj_dynamic_matrix (job_core p) \<noteq> None) instances")
    case True
    let ?t = "PlannedJob (job_core p) (Some (ReusableDynamicCall
         (PlannedDynamicReusableCall called_plan inputs secrets outputs)))"
    have "expansion_ok job_id B maximum [?t]"
      using p by (auto simp: expansion_ok_def closed_in_def id_extends_base_def job_refs_def
          within_permissions_def)
    with True ps show ?thesis
      by (auto simp: link_expansion_def bindE_Inr intro!: no_fault_bindE)
  next
    case static: False
    show ?thesis
    proof (cases rest)
      case Nil
      from expand_reusable_call_total [OF called, of p B job_id inputs secrets outputs] p
      obtain js where js: "expand_reusable_call job_id p called_plan inputs secrets outputs = Inr js"
        "expansion_ok job_id B (pj_permissions (job_core p)) js" by (auto simp: closed_in_def)
      have "expansion_ok job_id B maximum js"
        using js(2) p unfolding expansion_ok_def within_permissions_def by (meson le_trans)
      with js(1) static Nil ps show ?thesis by (simp add: link_expansion_def)
    next
      case (Cons q qs)
      obtain js where js: "expand_invocations job_id instances called_plan inputs secrets outputs = Inr js"
        "set (invocation_names job_id instances) \<subseteq> base_ids js"
        "\<forall>j\<in>set js. closed_in (B \<union> base_ids js) j \<and> within_permissions maximum j"
        using expand_invocations_total [OF called, of instances B maximum job_id inputs secrets outputs]
          instances by (auto simp: closed_in_def)
      from with_matrix_result [OF js(2,3), of p job_id] p js(1) static Cons ps show ?thesis
        by (simp add: link_expansion_def)
    qed
  qed
  then show "no_fault ?run" and "?run = Inr js \<Longrightarrow> expansion_ok job_id B maximum js" by blast+
qed

end
