(* ===== verification/Scheduler.thy ===== *)
theory Scheduler
  imports Agent_Base Link
begin

text \<open>
  The scheduler of a plan: \<open>execute_plan_inner\<close> in \<open>gitzero-agent/src/executor.rs\<close>, with the
  runtime state of matrices of reusable calls and the conclusions of jobs. The loop starts every
  base job whose needs have a conclusion and waits for one of the running ones. What a base
  job does is the event of a turn: which of the running futures ends, with which result, and
  what the cancellation flags are when the code reads them. So a theorem about all lists of
  events is one about all interleavings.
\<close>

section \<open>Conclusions\<close>

datatype job_conclusion = JobSuccess | JobFailure | JobTimedOut | JobCancelled | JobSkipped

fun as_github_result :: "job_conclusion \<Rightarrow> string" where
  "as_github_result JobSuccess = ''success''"
| "as_github_result JobFailure = ''failure''"
| "as_github_result JobTimedOut = ''failure''"
| "as_github_result JobCancelled = ''cancelled''"
| "as_github_result JobSkipped = ''skipped''"

definition aggregate_conclusions :: "job_conclusion list \<Rightarrow> job_conclusion" where
  "aggregate_conclusions conclusions =
    (if JobFailure \<in> set conclusions then JobFailure
     else if JobTimedOut \<in> set conclusions then JobTimedOut
     else if JobCancelled \<in> set conclusions then JobCancelled
     else if list_all (\<lambda>c. c = JobSkipped) conclusions then JobSkipped
     else JobSuccess)"

section \<open>Matrices of reusable calls\<close>

text \<open>\<open>mr_cancel\<close> is the value of the watch channel that the jobs of the group subscribe to.\<close>

record matrix_runtime =
  mr_invocations :: "string list"
  mr_max_parallel :: nat
  mr_fail_fast :: bool
  mr_active :: "string set"
  mr_started :: "string set"
  mr_failed :: bool
  mr_cancel :: bool

type_synonym matrix_groups = "(string \<times> matrix_runtime) list"

fun matrix_runtime_of :: "planned_job \<Rightarrow> (string \<times> matrix_runtime) option" where
  "matrix_runtime_of (PlannedJob c (Some (ReusableMatrixResult invocations max_parallel fail_fast))) =
    Some (pj_base_id c, \<lparr>mr_invocations = invocations, mr_max_parallel = max_parallel, mr_fail_fast = fail_fast,
      mr_active = {}, mr_started = {}, mr_failed = False, mr_cancel = False\<rparr>)"
| "matrix_runtime_of _ = None"

definition reusable_matrix_runtimes :: "planned_job list \<Rightarrow> matrix_groups" where
  "reusable_matrix_runtimes jobs = bt_collect (List.map_filter matrix_runtime_of jobs)"

abbreviation invocation_gate :: "string \<Rightarrow> string" where
  "invocation_gate invocation \<equiv> namespaced invocation ''gate''"

text \<open>\<open>base_id == invocation || base_id.strip_prefix(invocation).is_some_and(|s| s.starts_with("::"))\<close>\<close>

definition inside :: "string \<Rightarrow> string \<Rightarrow> bool" where
  "inside invocation base_id \<longleftrightarrow> base_id = invocation \<or>
    (case strip_prefix base_id invocation of Some suffix \<Rightarrow> starts_with suffix ''::'' | None \<Rightarrow> False)"

definition group_can_start :: "string \<Rightarrow> matrix_runtime \<Rightarrow> bool" where
  "group_can_start base_id g \<longleftrightarrow>
    (if base_id \<in> set (map invocation_gate (mr_invocations g))
     then \<not> mr_failed g \<and> card (mr_active g) < mr_max_parallel g else True)"

definition reusable_matrix_gate_can_start :: "matrix_groups \<Rightarrow> string \<Rightarrow> bool" where
  "reusable_matrix_gate_can_start groups base_id \<longleftrightarrow> list_all (\<lambda>(_, g). group_can_start base_id g) groups"

definition start_invocation :: "string \<Rightarrow> matrix_runtime \<Rightarrow> matrix_runtime" where
  "start_invocation base_id g =
    (case find (\<lambda>invocation. base_id = invocation_gate invocation) (mr_invocations g) of
      Some invocation \<Rightarrow> g\<lparr>mr_started := insert invocation (mr_started g), mr_active := insert invocation (mr_active g)\<rparr>
    | None \<Rightarrow> g)"

definition start_reusable_matrix_invocation :: "string \<Rightarrow> matrix_groups \<Rightarrow> matrix_groups" where
  "start_reusable_matrix_invocation base_id = map (\<lambda>(group_id, g). (group_id, start_invocation base_id g))"

text \<open>The groups whose channel a base job subscribes to.\<close>

definition reusable_matrix_cancellations :: "matrix_groups \<Rightarrow> string \<Rightarrow> string list" where
  "reusable_matrix_cancellations groups base_id =
    map fst (filter (\<lambda>(_, g). \<exists>invocation\<in>mr_active g. inside invocation base_id) groups)"

definition fails_group :: "string \<Rightarrow> job_conclusion \<Rightarrow> matrix_runtime \<Rightarrow> bool" where
  "fails_group base_id conclusion g \<longleftrightarrow> base_id \<in> set (mr_invocations g) \<and>
    (conclusion = JobFailure \<or> conclusion = JobTimedOut) \<and> mr_fail_fast g \<and> \<not> mr_failed g"

definition finish_invocation :: "string \<Rightarrow> job_conclusion \<Rightarrow> matrix_runtime \<Rightarrow> matrix_runtime" where
  "finish_invocation base_id conclusion g =
    (if base_id \<in> set (mr_invocations g) then
       let done = g\<lparr>mr_active := mr_active g - {base_id}\<rparr> in
       if fails_group base_id conclusion g then done\<lparr>mr_failed := True, mr_cancel := True\<rparr> else done
     else g)"

definition finish_reusable_matrix_invocation ::
  "string \<Rightarrow> job_conclusion \<Rightarrow> matrix_groups \<Rightarrow> string list \<times> matrix_groups"
where
  "finish_reusable_matrix_invocation base_id conclusion groups =
    (map fst (filter (\<lambda>(_, g). fails_group base_id conclusion g) groups),
     map (\<lambda>(group_id, g). (group_id, finish_invocation base_id conclusion g)) groups)"

section \<open>The state of the scheduler\<close>

text \<open>
  A running base job holds the jobs and the copies of the maps its future captured, and the
  groups whose cancellation it follows.
\<close>

record running_base =
  rb_base_id :: string
  rb_jobs :: "planned_job list"
  rb_cancellations :: "string list"
  rb_completed_bases :: "(string \<times> job_conclusion) list"
  rb_completed_outputs :: "(string \<times> (string \<times> string) list) list"
  rb_completion_order :: "string list"

record base_execution =
  be_base_id :: string
  be_conclusion :: job_conclusion
  be_completed_steps :: nat
  be_outputs :: "(string \<times> string) list"
  be_expanded_jobs :: "planned_job list"

record sched =
  sc_jobs :: "planned_job list"
  sc_base_order :: "string list"
  sc_seen :: "string set"
  sc_completed_bases :: "(string \<times> job_conclusion) list"
  sc_completed_outputs :: "(string \<times> (string \<times> string) list) list"
  sc_completion_order :: "string list"
  sc_pending :: "string set"
  sc_matrices :: matrix_groups
  sc_running :: "running_base list"
  sc_completed_steps :: nat
  sc_cancellation_error :: "agent_failure option"
  sc_skip_reports :: "(string \<times> string \<times> string) list"

definition see_base :: "string \<Rightarrow> string set \<times> string list \<Rightarrow> string set \<times> string list" where
  "see_base base_id state =
    (case state of (seen, order) \<Rightarrow>
     if base_id \<in> seen then (seen, order) else (insert base_id seen, order @ [base_id]))"

definition initial_sched :: "planned_job list \<Rightarrow> sched" where
  "initial_sched jobs =
    (case fold (\<lambda>j. see_base (planned_base_id j)) jobs ({}, []) of (seen, base_order) \<Rightarrow>
     \<lparr>sc_jobs = jobs, sc_base_order = base_order, sc_seen = seen, sc_completed_bases = [],
      sc_completed_outputs = [], sc_completion_order = [], sc_pending = set base_order,
      sc_matrices = reusable_matrix_runtimes jobs, sc_running = [], sc_completed_steps = 0,
      sc_cancellation_error = None, sc_skip_reports = []\<rparr>)"

definition unfinished :: "sched \<Rightarrow> bool" where
  "unfinished s \<longleftrightarrow> length (sc_completed_bases s) < length (sc_base_order s)"

section \<open>Starting the ready jobs\<close>

fun filterE :: "('a \<Rightarrow> 'e + bool) \<Rightarrow> 'a list \<Rightarrow> 'e + 'a list" where
  "filterE p [] = Inr []"
| "filterE p (x # xs) = bindE (p x) (\<lambda>b. bindE (filterE p xs) (\<lambda>ys. Inr (if b then x # ys else ys)))"

definition base_ready :: "sched \<Rightarrow> string \<Rightarrow> agent_failure + bool" where
  "base_ready s base_id =
    (if base_id \<in> sc_pending s \<and> reusable_matrix_gate_can_start (sc_matrices s) base_id then
       bindE (ok_or (find (\<lambda>j. planned_base_id j = base_id) (sc_jobs s)) AgentPanic) (\<lambda>j.
       Inr (list_all (\<lambda>dependency. bt_contains_key (sc_completed_bases s) dependency) (planned_needs j)))
     else Inr False)"

definition start_base :: "sched \<Rightarrow> string \<Rightarrow> sched" where
  "start_base s base_id =
    (if \<not> reusable_matrix_gate_can_start (sc_matrices s) base_id then s
     else
       let groups = start_reusable_matrix_invocation base_id (sc_matrices s) in
       s\<lparr>sc_pending := sc_pending s - {base_id},
         sc_matrices := groups,
         sc_running := sc_running s @
           [\<lparr>rb_base_id = base_id, rb_jobs = filter (\<lambda>j. planned_base_id j = base_id) (sc_jobs s),
             rb_cancellations = reusable_matrix_cancellations groups base_id,
             rb_completed_bases = sc_completed_bases s, rb_completed_outputs = sc_completed_outputs s,
             rb_completion_order = sc_completion_order s\<rparr>]\<rparr>)"

definition start_ready :: "bool \<Rightarrow> sched \<Rightarrow> agent_failure + sched" where
  "start_ready cancelled s =
    bindE (if cancelled then Inr [] else filterE (base_ready s) (sc_base_order s)) (\<lambda>ready.
    Inr (foldl start_base s ready))"

section \<open>The end of a base job\<close>

text \<open>
  One turn of the loop: the flag read before the ready jobs are computed, the future that
  ends, what \<open>execute_base_group\<close> returns in it, the flags its wrapper reads, the flag the loop
  reads afterwards, and whether the channel to the control plane is closed. The result of a
  template of dynamic calls is the list of instances of its matrix, which the code expands.
\<close>

record turn_event =
  ev_cancelled :: bool
  ev_choice :: nat
  ev_result :: "agent_failure + job_conclusion \<times> nat \<times> (string \<times> string) list"
  ev_instances :: "planned_job list option"
  ev_group_cancelled :: bool
  ev_cancelled_inside :: bool
  ev_cancelled_after :: bool
  ev_closed :: bool

fun dynamic_call :: "planned_job list \<Rightarrow> (planned_job \<times> planned_dynamic_reusable_call) option" where
  "dynamic_call (PlannedJob c (Some (ReusableDynamicCall call)) # jobs) =
    Some (PlannedJob c (Some (ReusableDynamicCall call)), call)"
| "dynamic_call _ = None"

definition group_result :: "turn_event \<Rightarrow> running_base \<Rightarrow> agent_failure + base_execution" where
  "group_result ev b =
    (case (dynamic_call (rb_jobs b), ev_instances ev) of
      (Some (template, call), Some instances) \<Rightarrow>
        (case expand_dynamic_reusable_call template instances call of
          Inl _ \<Rightarrow> Inl AgentPanic
        | Inr expanded \<Rightarrow> Inr \<lparr>be_base_id = rb_base_id b, be_conclusion = JobSuccess, be_completed_steps = 0,
            be_outputs = [], be_expanded_jobs = expanded\<rparr>)
    | _ \<Rightarrow> bindE (ev_result ev) (\<lambda>(conclusion, steps, outputs).
        Inr \<lparr>be_base_id = rb_base_id b, be_conclusion = conclusion, be_completed_steps = steps,
          be_outputs = outputs, be_expanded_jobs = []\<rparr>))"

text \<open>An error under a cancelled group is a cancelled job, unless the whole run is cancelled.\<close>

definition running_result :: "turn_event \<Rightarrow> running_base \<Rightarrow> agent_failure + base_execution" where
  "running_result ev b =
    (case group_result ev b of
      Inl (Bail e) \<Rightarrow>
        if ev_group_cancelled ev \<and> \<not> ev_cancelled_inside ev then
          Inr \<lparr>be_base_id = rb_base_id b, be_conclusion = JobCancelled, be_completed_steps = 0,
            be_outputs = [], be_expanded_jobs = []\<rparr>
        else Inl (Bail e)
    | r \<Rightarrow> r)"

definition insert_expansion :: "base_execution \<Rightarrow> sched \<Rightarrow> sched" where
  "insert_expansion e s =
    (let jobs = filter (\<lambda>j. planned_base_id j \<noteq> be_base_id e) (sc_jobs s) @ be_expanded_jobs e;
         bases = rev (remdups (rev (map planned_base_id (be_expanded_jobs e)))) in
     case fold see_base bases (sc_seen s, sc_base_order s) of (seen, base_order) \<Rightarrow>
     s\<lparr>sc_jobs := jobs, sc_seen := seen, sc_base_order := base_order,
       sc_pending := sc_pending s \<union> set bases,
       sc_matrices := bt_or_inserts (sc_matrices s) (reusable_matrix_runtimes jobs)\<rparr>)"

definition complete_base :: "string \<Rightarrow> job_conclusion \<Rightarrow> (string \<times> string) list \<Rightarrow> sched \<Rightarrow> sched" where
  "complete_base base_id conclusion outputs s =
    s\<lparr>sc_completed_outputs := bt_insert base_id outputs (sc_completed_outputs s),
      sc_completion_order := sc_completion_order s @ [base_id],
      sc_completed_bases := bt_insert base_id conclusion (sc_completed_bases s)\<rparr>"

definition skip_base :: "string \<Rightarrow> sched \<Rightarrow> sched" where
  "skip_base base_id s =
    (if base_id \<in> sc_pending s
     then complete_base base_id JobSkipped [] (s\<lparr>sc_pending := sc_pending s - {base_id}\<rparr>) else s)"

definition gate_report :: "string \<Rightarrow> nat \<Rightarrow> string \<Rightarrow> sched \<Rightarrow> (string \<times> string \<times> string) option" where
  "gate_report workflow_name plan_index gate s =
    (if gate \<in> sc_pending s then
       map_option (\<lambda>j. (show_nat plan_index @ ''/'' @ gate, workflow_name @ '' / '' @ pj_name (job_core j),
         ''Skipped by reusable-call matrix fail-fast.'')) (find (\<lambda>j. planned_base_id j = gate) (sc_jobs s))
     else None)"

definition skip_invocation ::
  "string \<Rightarrow> nat \<Rightarrow> bool \<Rightarrow> sched \<Rightarrow> string \<Rightarrow> agent_failure + sched"
where
  "skip_invocation workflow_name plan_index closed s invocation =
    bindE (case gate_report workflow_name plan_index (invocation_gate invocation) s of
        None \<Rightarrow> Inr s
      | Some report \<Rightarrow>
          if closed then Inl (Bail ''control plane event channel closed'')
          else Inr (s\<lparr>sc_skip_reports := sc_skip_reports s @ [report]\<rparr>)) (\<lambda>s.
    Inr (fold skip_base (filter (inside invocation) (sc_base_order s)) s))"

definition skip_group ::
  "string \<Rightarrow> nat \<Rightarrow> bool \<Rightarrow> sched \<Rightarrow> string \<Rightarrow> agent_failure + sched"
where
  "skip_group workflow_name plan_index closed s group_id =
    bindE (ok_or (bt_get (sc_matrices s) group_id) AgentPanic) (\<lambda>g.
    foldE (skip_invocation workflow_name plan_index closed) s
      (filter (\<lambda>invocation. invocation \<notin> mr_started g) (mr_invocations g)))"

definition finish_base ::
  "string \<Rightarrow> nat \<Rightarrow> bool \<Rightarrow> base_execution \<Rightarrow> sched \<Rightarrow> agent_failure + sched"
where
  "finish_base workflow_name plan_index closed e s =
    (if be_expanded_jobs e \<noteq> [] then Inr (insert_expansion e s)
     else
       let s = complete_base (be_base_id e) (be_conclusion e) (be_outputs e)
             (s\<lparr>sc_completed_steps := sc_completed_steps s + be_completed_steps e\<rparr>) in
       case finish_reusable_matrix_invocation (be_base_id e) (be_conclusion e) (sc_matrices s) of
         (failed_groups, groups) \<Rightarrow>
           foldE (skip_group workflow_name plan_index closed) (s\<lparr>sc_matrices := groups\<rparr>) failed_groups)"

section \<open>The loop\<close>

definition remove_nth :: "nat \<Rightarrow> 'a list \<Rightarrow> 'a list" where
  "remove_nth i xs = take i xs @ drop (Suc i) xs"

definition next_running ::
  "string \<Rightarrow> nat \<Rightarrow> turn_event \<Rightarrow> sched \<Rightarrow> agent_failure + sched"
where
  "next_running workflow_name plan_index ev s =
    (if sc_running s = [] then
       (case sc_cancellation_error s of
         Some error \<Rightarrow> Inl error
       | None \<Rightarrow> Inl (Bail (if ev_cancelled_after ev then ''run cancelled''
           else ''workflow job dependency graph could not make progress'')))
     else
       let i = ev_choice ev mod length (sc_running s);
           b = sc_running s ! i;
           s = s\<lparr>sc_running := remove_nth i (sc_running s)\<rparr> in
       case running_result ev b of
         Inr e \<Rightarrow> finish_base workflow_name plan_index (ev_closed ev) e s
       | Inl AgentPanic \<Rightarrow> Inl AgentPanic
       | Inl error \<Rightarrow>
           if ev_cancelled_after ev
           then Inr (s\<lparr>sc_cancellation_error :=
             Some (case sc_cancellation_error s of None \<Rightarrow> error | Some first \<Rightarrow> first)\<rparr>)
           else Inl error)"

definition turn :: "string \<Rightarrow> nat \<Rightarrow> turn_event \<Rightarrow> sched \<Rightarrow> agent_failure + sched" where
  "turn workflow_name plan_index ev s =
    bindE (start_ready (ev_cancelled ev) s) (next_running workflow_name plan_index ev)"

fun run_turns :: "string \<Rightarrow> nat \<Rightarrow> turn_event list \<Rightarrow> sched \<Rightarrow> agent_failure + sched" where
  "run_turns workflow_name plan_index [] s = Inr s"
| "run_turns workflow_name plan_index (ev # evs) s =
    (if unfinished s then bindE (turn workflow_name plan_index ev s) (run_turns workflow_name plan_index evs)
     else Inr s)"

record plan_execution =
  pe_completed_steps :: nat
  pe_failed_jobs :: "string list"
  pe_timed_out_jobs :: "string list"
  pe_cancelled_jobs :: "string list"

definition jobs_with :: "string \<Rightarrow> job_conclusion \<Rightarrow> sched \<Rightarrow> string list" where
  "jobs_with workflow_name conclusion s =
    map (\<lambda>(job, _). workflow_name @ '' / '' @ job)
      (filter (\<lambda>(job, c). c = conclusion \<and> \<not> contains_str job ''::'') (sc_completed_bases s))"

text \<open>\<open>remaining\<close>: the concurrency scopes still held when the loop ends, and their releases.\<close>

definition finish_plan :: "string \<Rightarrow> (agent_failure + unit) list \<Rightarrow> sched \<Rightarrow> agent_failure + plan_execution" where
  "finish_plan workflow_name remaining s =
    (if remaining \<noteq> [] then
       bindE (mapE (\<lambda>release. release) remaining) (\<lambda>_.
       Inl (Bail ''reusable workflow concurrency scopes did not reach their release gates''))
     else Inr \<lparr>pe_completed_steps = sc_completed_steps s, pe_failed_jobs = jobs_with workflow_name JobFailure s,
       pe_timed_out_jobs = jobs_with workflow_name JobTimedOut s,
       pe_cancelled_jobs = jobs_with workflow_name JobCancelled s\<rparr>)"

text \<open>\<open>None\<close>: the events end before the loop does.\<close>

definition execute_plan_inner ::
  "execution_plan \<Rightarrow> nat \<Rightarrow> turn_event list \<Rightarrow> (agent_failure + unit) list \<Rightarrow> agent_failure + plan_execution option"
where
  "execute_plan_inner plan plan_index events remaining =
    bindE (run_turns (plan_workflow_name plan) plan_index events (initial_sched (plan_jobs plan))) (\<lambda>s.
    if unfinished s then Inr None
    else bindE (finish_plan (plan_workflow_name plan) remaining s) (\<lambda>e. Inr (Some e)))"

section \<open>Names of nested calls\<close>

lemma inside_iff: "inside p b \<longleftrightarrow> b = p \<or> (\<exists>s. b = p @ ''::'' @ s)"
proof -
  have prefix: "strip_prefix (p @ r) p = Some r" for r by (simp add: strip_prefix_Some)
  show ?thesis by (auto simp: inside_def prefix strip_prefix_Some starts_with_iff split: option.splits)
qed

lemma inside_refl [simp]: "inside p p"
  by (simp add: inside_def)

lemma inside_gate [simp]: "inside p (invocation_gate p)"
  by (simp add: inside_iff namespaced_def)

lemma inside_trans: "inside p q \<Longrightarrow> inside q b \<Longrightarrow> inside p b"
  by (auto simp: inside_iff)

lemma inside_length: "inside p b \<Longrightarrow> b \<noteq> p \<Longrightarrow> length p < length b"
  by (auto simp: inside_iff)

lemma gate_not_invocation: "invocation_gate p \<noteq> p"
  by (simp add: namespaced_def)

section \<open>Plans that can be scheduled\<close>

text \<open>
  What the scheduler relies on in a plan: needs that are known and without a cycle, and
  matrices of calls that are nested by name. The base ids inside an invocation depend on its
  gate and on nothing outside it, invocations overlap only by nesting, and the invocations of
  one matrix lie in the same outer ones.
\<close>

definition all_invocations :: "planned_job list \<Rightarrow> string list" where
  "all_invocations jobs = concat (map (\<lambda>(_, g). mr_invocations g) (reusable_matrix_runtimes jobs))"

definition depends_inside :: "planned_job list \<Rightarrow> string \<Rightarrow> string \<Rightarrow> bool" where
  "depends_inside jobs invocation b \<longleftrightarrow>
    (case first_needs jobs b of Some needs \<Rightarrow> needs \<noteq> [] \<and> list_all (inside invocation) needs | None \<Rightarrow> False)"

definition siblings_nested :: "string \<Rightarrow> string list \<Rightarrow> bool" where
  "siblings_nested outer invocations \<longleftrightarrow>
    list_ex (\<lambda>i. inside outer i \<and> i \<noteq> outer) invocations \<longrightarrow>
    list_all (\<lambda>i. inside outer i \<and> i \<noteq> outer) invocations"

definition groups_nested :: "planned_job list \<Rightarrow> bool" where
  "groups_nested jobs \<longleftrightarrow>
    (let names = all_invocations jobs; bases = map planned_base_id jobs in
     list_all (\<lambda>(_, g). 1 \<le> mr_max_parallel g \<and> list_all (\<lambda>i. siblings_nested i (mr_invocations g)) names)
       (reusable_matrix_runtimes jobs) \<and>
     list_all (\<lambda>i. i \<in> set bases \<and> invocation_gate i \<in> set bases \<and> invocation_gate i \<notin> set names \<and>
       list_all (\<lambda>b. inside i b \<and> b \<noteq> invocation_gate i \<longrightarrow> depends_inside jobs i b) bases \<and>
       list_all (\<lambda>k. (inside k (invocation_gate i) \<longrightarrow> inside k i) \<and>
         list_all (\<lambda>b. inside i b \<and> inside k b \<longrightarrow> inside i k \<or> inside k i) bases) names) names)"

definition schedulable :: "planned_job list \<Rightarrow> bool" where
  "schedulable jobs \<longleftrightarrow> needs_known jobs \<and> needs_acyclic jobs \<and> groups_nested jobs"

definition no_dynamic_calls :: "planned_job list \<Rightarrow> bool" where
  "no_dynamic_calls jobs \<longleftrightarrow> list_all (\<lambda>j. dynamic_call [j] = None) jobs"

lemma groups_nestedD:
  assumes "groups_nested jobs"
  shows "(k, g) \<in> set (reusable_matrix_runtimes jobs) \<Longrightarrow> 1 \<le> mr_max_parallel g"
    and "(k, g) \<in> set (reusable_matrix_runtimes jobs) \<Longrightarrow> i \<in> set (all_invocations jobs) \<Longrightarrow>
      siblings_nested i (mr_invocations g)"
    and "i \<in> set (all_invocations jobs) \<Longrightarrow> i \<in> base_ids jobs"
    and "i \<in> set (all_invocations jobs) \<Longrightarrow> invocation_gate i \<in> base_ids jobs"
    and "i \<in> set (all_invocations jobs) \<Longrightarrow> invocation_gate i \<notin> set (all_invocations jobs)"
    and "i \<in> set (all_invocations jobs) \<Longrightarrow> b \<in> base_ids jobs \<Longrightarrow> inside i b \<Longrightarrow> b \<noteq> invocation_gate i \<Longrightarrow>
      depends_inside jobs i b"
    and "i \<in> set (all_invocations jobs) \<Longrightarrow> k' \<in> set (all_invocations jobs) \<Longrightarrow>
      inside k' (invocation_gate i) \<Longrightarrow> inside k' i"
    and "i \<in> set (all_invocations jobs) \<Longrightarrow> k' \<in> set (all_invocations jobs) \<Longrightarrow> b \<in> base_ids jobs \<Longrightarrow>
      inside i b \<Longrightarrow> inside k' b \<Longrightarrow> inside i k' \<or> inside k' i"
proof -
  let ?R = "reusable_matrix_runtimes jobs" and ?N = "all_invocations jobs"
  have R: "\<forall>(k, g)\<in>set ?R. 1 \<le> mr_max_parallel g \<and> (\<forall>i\<in>set ?N. siblings_nested i (mr_invocations g))"
    using assms unfolding groups_nested_def Let_def list_all_iff by blast
  have N: "i \<in> base_ids jobs \<and> invocation_gate i \<in> base_ids jobs \<and> invocation_gate i \<notin> set ?N \<and>
      (\<forall>b\<in>base_ids jobs. inside i b \<and> b \<noteq> invocation_gate i \<longrightarrow> depends_inside jobs i b) \<and>
      (\<forall>k\<in>set ?N. (inside k (invocation_gate i) \<longrightarrow> inside k i) \<and>
        (\<forall>b\<in>base_ids jobs. inside i b \<and> inside k b \<longrightarrow> inside i k \<or> inside k i))" if "i \<in> set ?N" for i
    using assms that unfolding groups_nested_def Let_def list_all_iff set_map by blast
  show "(k, g) \<in> set ?R \<Longrightarrow> 1 \<le> mr_max_parallel g"
    and "(k, g) \<in> set ?R \<Longrightarrow> i \<in> set ?N \<Longrightarrow> siblings_nested i (mr_invocations g)"
    using R by blast+
  show "i \<in> set ?N \<Longrightarrow> i \<in> base_ids jobs" "i \<in> set ?N \<Longrightarrow> invocation_gate i \<in> base_ids jobs"
    "i \<in> set ?N \<Longrightarrow> invocation_gate i \<notin> set ?N"
    "i \<in> set ?N \<Longrightarrow> b \<in> base_ids jobs \<Longrightarrow> inside i b \<Longrightarrow> b \<noteq> invocation_gate i \<Longrightarrow> depends_inside jobs i b"
    "i \<in> set ?N \<Longrightarrow> k' \<in> set ?N \<Longrightarrow> inside k' (invocation_gate i) \<Longrightarrow> inside k' i"
    "i \<in> set ?N \<Longrightarrow> k' \<in> set ?N \<Longrightarrow> b \<in> base_ids jobs \<Longrightarrow> inside i b \<Longrightarrow> inside k' b \<Longrightarrow> inside i k' \<or> inside k' i"
    using N [of i] by blast+
qed

lemma siblings_nestedD:
  "siblings_nested outer is \<Longrightarrow> i \<in> set is \<Longrightarrow> inside outer i \<Longrightarrow> i \<noteq> outer \<Longrightarrow> k \<in> set is \<Longrightarrow>
    inside outer k \<and> k \<noteq> outer"
  by (auto simp: siblings_nested_def list_ex_iff list_all_iff)

lemma find_first_needs:
  "find (\<lambda>j. planned_base_id j = b) jobs = Some j \<Longrightarrow> first_needs jobs b = Some (planned_needs j)"
  by (induction jobs) (auto simp: first_needs_def split: if_splits)

lemma find_base: "b \<in> base_ids jobs \<Longrightarrow> \<exists>j. find (\<lambda>j. planned_base_id j = b) jobs = Some j"
  by (induction jobs) auto

section \<open>The invariant of a matrix of calls\<close>

text \<open>
  Over the sets of running and concluded base ids: a started invocation has its gate running or
  concluded, an active one has no conclusion yet, nothing inside an invocation starts before
  its gate has concluded, and a gate that is not pending was started unless everything inside
  was skipped.
\<close>

definition group_inv :: "string set \<Rightarrow> string set \<Rightarrow> string set \<Rightarrow> matrix_runtime \<Rightarrow> bool" where
  "group_inv B run conc g \<longleftrightarrow>
    mr_active g \<subseteq> mr_started g \<and> mr_started g \<subseteq> set (mr_invocations g) \<and> mr_active g \<inter> conc = {} \<and>
    (\<forall>i\<in>mr_started g. invocation_gate i \<in> run \<union> conc) \<and>
    (\<forall>i\<in>set (mr_invocations g).
      (invocation_gate i \<in> run \<union> conc \<longrightarrow> i \<in> mr_started g \<or> {b \<in> B. inside i b} \<subseteq> conc) \<and>
      (\<forall>b\<in>run \<union> conc. inside i b \<and> b \<noteq> invocation_gate i \<longrightarrow> invocation_gate i \<in> conc))"

text \<open>A failed matrix has nothing left to do in the invocations it never started.\<close>

definition failed_skipped :: "string set \<Rightarrow> string set \<Rightarrow> matrix_runtime \<Rightarrow> bool" where
  "failed_skipped B conc g \<longleftrightarrow>
    (mr_failed g \<longrightarrow> (\<forall>i\<in>set (mr_invocations g) - mr_started g. {b \<in> B. inside i b} \<subseteq> conc))"

lemma group_invD:
  assumes "group_inv B run conc g"
  shows "mr_active g \<subseteq> mr_started g" "mr_started g \<subseteq> set (mr_invocations g)" "mr_active g \<inter> conc = {}"
    and "i \<in> mr_started g \<Longrightarrow> invocation_gate i \<in> run \<union> conc"
    and "i \<in> set (mr_invocations g) \<Longrightarrow> invocation_gate i \<in> run \<union> conc \<Longrightarrow>
      i \<notin> mr_started g \<Longrightarrow> {b \<in> B. inside i b} \<subseteq> conc"
    and "i \<in> set (mr_invocations g) \<Longrightarrow> b \<in> run \<union> conc \<Longrightarrow> inside i b \<Longrightarrow> b \<noteq> invocation_gate i \<Longrightarrow>
      invocation_gate i \<in> conc"
  using assms unfolding group_inv_def by blast+

lemma start_invocation_fields [simp]:
  "mr_invocations (start_invocation b g) = mr_invocations g"
  "mr_max_parallel (start_invocation b g) = mr_max_parallel g"
  "mr_failed (start_invocation b g) = mr_failed g"
  by (simp_all add: start_invocation_def split: option.splits)

lemma finish_invocation_fields [simp]:
  "mr_invocations (finish_invocation b c g) = mr_invocations g"
  "mr_max_parallel (finish_invocation b c g) = mr_max_parallel g"
  "mr_started (finish_invocation b c g) = mr_started g"
  "mr_failed (finish_invocation b c g) \<longleftrightarrow> mr_failed g \<or> fails_group b c g"
  by (auto simp: finish_invocation_def fails_group_def Let_def)

lemma gate_injective: "invocation_gate i = invocation_gate k \<longleftrightarrow> i = k"
  by (simp add: namespaced_def)

lemma start_invocation_sets:
  "mr_started (start_invocation b g) = mr_started g \<union> {i \<in> set (mr_invocations g). b = invocation_gate i}"
  "mr_active (start_invocation b g) = mr_active g \<union> {i \<in> set (mr_invocations g). b = invocation_gate i}"
  by (auto simp: start_invocation_def find_None_iff find_Some_iff gate_injective split: option.splits)

lemma finish_invocation_active:
  "mr_active (finish_invocation b c g) = (if b \<in> set (mr_invocations g) then mr_active g - {b} else mr_active g)"
  by (simp add: finish_invocation_def Let_def)

lemma group_inv_start:
  assumes inv: "group_inv B run conc g" and nested: "groups_nested jobs"
    and names: "set (mr_invocations g) \<subseteq> set (all_invocations jobs)"
    and b: "b \<in> base_ids jobs" "b \<notin> run \<union> conc" and needs: "first_needs jobs b = Some needs" "set needs \<subseteq> conc"
  shows "group_inv B (insert b run) conc (start_invocation b g)"
proof -
  have fresh: "i \<notin> conc" if "i \<in> set (mr_invocations g)" "b = invocation_gate i" for i
    using group_invD(6) [OF inv that(1), of i] that(2) b(2) gate_not_invocation [of i] by auto
  have behind: "invocation_gate i \<in> conc" if "i \<in> set (mr_invocations g)" "inside i b" "b \<noteq> invocation_gate i" for i
  proof -
    have "depends_inside jobs i b" using groups_nestedD(6) [OF nested] names that b(1) by blast
    then obtain n where "n \<in> set needs" "inside i n"
      using needs(1) by (cases needs) (auto simp: depends_inside_def)
    then show ?thesis using needs(2) group_invD(6) [OF inv that(1), of n] by blast
  qed
  show ?thesis
    unfolding group_inv_def start_invocation_sets start_invocation_fields
  proof (intro conjI ballI impI)
    fix i c assume "i \<in> set (mr_invocations g)" "c \<in> insert b run \<union> conc" "inside i c \<and> c \<noteq> invocation_gate i"
    then show "invocation_gate i \<in> conc" using behind [of i] group_invD(6) [OF inv, of i c] by blast
  qed (use group_invD(1-5) [OF inv] fresh in blast)+
qed

lemma group_inv_finish:
  assumes "group_inv B run conc g" "b \<in> run"
  shows "group_inv B (run - {b}) (insert b conc) (finish_invocation b c g)"
proof -
  have same: "(run - {b}) \<union> insert b conc = run \<union> conc" using assms(2) by blast
  have "mr_active g \<subseteq> set (mr_invocations g)" using group_invD(1,2) [OF assms(1)] by blast
  then have "mr_active (finish_invocation b c g) \<inter> insert b conc = {}"
    using group_invD(3) [OF assms(1)] by (auto simp: finish_invocation_active)
  moreover have "mr_active (finish_invocation b c g) \<subseteq> mr_active g" by (auto simp: finish_invocation_active)
  ultimately show ?thesis
    using assms(1) unfolding group_inv_def same finish_invocation_fields by blast
qed

text \<open>
  Skipping an invocation \<open>k\<close> that was not started, of a matrix one of whose invocations \<open>w\<close> has
  concluded: everything inside it concludes, and the other matrices keep their invariant.
\<close>

lemma skip_inside:
  assumes inv: "group_inv B run conc h" and k: "k \<in> set (mr_invocations h)" "k \<notin> mr_started h"
    and B: "B \<subseteq> pending \<union> run \<union> conc"
  shows "{b \<in> B. inside k b} \<subseteq> conc \<or> {b \<in> B. inside k b} \<subseteq> pending \<and> {b \<in> B. inside k b} \<inter> (run \<union> conc) = {}"
proof (cases "invocation_gate k \<in> run \<union> conc")
  case True
  then show ?thesis using group_invD(5) [OF inv k(1)] k(2) by blast
next
  case False
  then have "b \<notin> run \<union> conc" if "inside k b" for b using group_invD(6) [OF inv k(1), of b] that by blast
  then show ?thesis using B by blast
qed

lemma group_inv_skip:
  assumes inv: "group_inv B run conc g" and nested: "groups_nested jobs" and B: "B = base_ids jobs"
    and names: "set (mr_invocations g) \<subseteq> set (all_invocations jobs)"
    and h: "(key, h0) \<in> set (reusable_matrix_runtimes jobs)" "mr_invocations h = mr_invocations h0"
    and k: "k \<in> set (mr_invocations h)" and w: "w \<in> set (mr_invocations h)" "w \<in> conc"
    and sub: "run \<union> conc \<subseteq> B" and X: "X = {b \<in> B. inside k b}" "X \<inter> (run \<union> conc) = {}"
  shows "group_inv B run (conc \<union> X) g"
proof -
  have all: "k \<in> set (all_invocations jobs)" "w \<in> set (all_invocations jobs)"
    using h k w(1) by (auto simp: all_invocations_def)
  have started: "i \<notin> X" if "i \<in> mr_started g" for i
    using group_invD(4) [OF inv that] inside_trans [OF _ inside_gate, of k i] X sub by blast
  have gate: "invocation_gate i \<in> conc \<union> X"
    if i: "i \<in> set (mr_invocations g)" and b: "b \<in> X" "inside i b" for i b
  proof -
    have i': "i \<in> set (all_invocations jobs)" using i names by blast
    consider "inside k i" | "inside i k" "k \<noteq> i"
      using groups_nestedD(8) [OF nested i' all(1)] b X(1) B inside_refl by blast
    then show ?thesis
    proof cases
      case 1
      then have "inside k (invocation_gate i)" using inside_trans [OF _ inside_gate] by blast
      then show ?thesis using groups_nestedD(4) [OF nested i'] X(1) B by blast
    next
      case 2
      have "inside i w" using siblings_nestedD [OF groups_nestedD(2) [OF nested h(1) i'], of k w] 2 k w h(2) by simp
      moreover have "w \<noteq> invocation_gate i" using groups_nestedD(5) [OF nested i'] all(2) by blast
      ultimately show ?thesis using group_invD(6) [OF inv i, of w] w(2) by blast
    qed
  qed
  have nested_gate: "{b \<in> B. inside i b} \<subseteq> conc \<union> X" if "i \<in> set (mr_invocations g)" "invocation_gate i \<in> X" for i
  proof -
    have "inside k i" using groups_nestedD(7) [OF nested _ all(1), of i] that names X(1) by blast
    then show ?thesis using inside_trans X(1) by blast
  qed
  show ?thesis
    unfolding group_inv_def
  proof (intro conjI ballI impI)
    show "mr_active g \<inter> (conc \<union> X) = {}" using group_invD(1,3) [OF inv] started by blast
    fix i assume i: "i \<in> set (mr_invocations g)"
    show "i \<in> mr_started g \<or> {b \<in> B. inside i b} \<subseteq> conc \<union> X" if "invocation_gate i \<in> run \<union> (conc \<union> X)"
      using that group_invD(5) [OF inv i] nested_gate [OF i] by blast
    show "invocation_gate i \<in> conc \<union> X" if "b \<in> run \<union> (conc \<union> X)" "inside i b \<and> b \<noteq> invocation_gate i" for b
      using that gate [OF i] group_invD(6) [OF inv i, of b] by blast
  qed (use group_invD(1,2,4) [OF inv] in blast)+
qed

section \<open>The invariant of the scheduler\<close>

abbreviation concluded :: "sched \<Rightarrow> string set" where
  "concluded s \<equiv> fst ` set (sc_completed_bases s)"

abbreviation running_ids :: "sched \<Rightarrow> string set" where
  "running_ids s \<equiv> rb_base_id ` set (sc_running s)"

definition same_groups :: "matrix_groups \<Rightarrow> matrix_groups \<Rightarrow> bool" where
  "same_groups = list_all2 (\<lambda>(k, g) (k', g'). k = k' \<and> mr_invocations g = mr_invocations g' \<and>
    mr_max_parallel g = mr_max_parallel g')"

text \<open>What holds in every state, for a plan without dynamic calls.\<close>

definition sched_base :: "planned_job list \<Rightarrow> sched \<Rightarrow> bool" where
  "sched_base jobs s \<longleftrightarrow> sc_jobs s = jobs \<and> distinct (sc_base_order s) \<and> set (sc_base_order s) = base_ids jobs \<and>
    bt_wf (sc_completed_bases s) \<and> sc_pending s \<subseteq> base_ids jobs \<and> running_ids s \<subseteq> base_ids jobs \<and>
    concluded s \<subseteq> base_ids jobs \<and> distinct (map rb_base_id (sc_running s)) \<and>
    sc_pending s \<inter> (running_ids s \<union> concluded s) = {} \<and> running_ids s \<inter> concluded s = {} \<and>
    (\<forall>b\<in>set (sc_running s). rb_jobs b = filter (\<lambda>j. planned_base_id j = rb_base_id b) jobs) \<and>
    same_groups (reusable_matrix_runtimes jobs) (sc_matrices s)"

text \<open>What holds as long as no error of a cancelled run was swallowed.\<close>

definition sched_groups :: "planned_job list \<Rightarrow> sched \<Rightarrow> bool" where
  "sched_groups jobs s \<longleftrightarrow> base_ids jobs \<subseteq> sc_pending s \<union> running_ids s \<union> concluded s \<and>
    (\<forall>(k, g)\<in>set (sc_matrices s). group_inv (base_ids jobs) (running_ids s) (concluded s) g)"

definition sched_failed :: "planned_job list \<Rightarrow> sched \<Rightarrow> bool" where
  "sched_failed jobs s \<longleftrightarrow> (\<forall>(k, g)\<in>set (sc_matrices s). failed_skipped (base_ids jobs) (concluded s) g)"

definition sched_inv :: "planned_job list \<Rightarrow> sched \<Rightarrow> bool" where
  "sched_inv jobs s \<longleftrightarrow> sched_base jobs s \<and>
    (sc_cancellation_error s = None \<longrightarrow> sched_groups jobs s \<and> sched_failed jobs s)"

text \<open>Every turn uses up one of the jobs that are pending or running.\<close>

definition sched_measure :: "sched \<Rightarrow> nat" where
  "sched_measure s = card (sc_pending s) + length (sc_running s)"

lemma sched_baseD:
  assumes "sched_base jobs s"
  shows "sc_jobs s = jobs" "distinct (sc_base_order s)" "set (sc_base_order s) = base_ids jobs"
    "bt_wf (sc_completed_bases s)" "sc_pending s \<subseteq> base_ids jobs" "running_ids s \<subseteq> base_ids jobs"
    "concluded s \<subseteq> base_ids jobs" "distinct (map rb_base_id (sc_running s))"
    "sc_pending s \<inter> (running_ids s \<union> concluded s) = {}" "running_ids s \<inter> concluded s = {}"
    and "\<forall>b\<in>set (sc_running s). rb_jobs b = filter (\<lambda>j. planned_base_id j = rb_base_id b) jobs"
    and "same_groups (reusable_matrix_runtimes jobs) (sc_matrices s)"
  using assms unfolding sched_base_def by - (elim conjE, assumption)+

lemma sched_groupsD:
  assumes "sched_groups jobs s"
  shows "base_ids jobs \<subseteq> sc_pending s \<union> running_ids s \<union> concluded s"
    and "(k, g) \<in> set (sc_matrices s) \<Longrightarrow> group_inv (base_ids jobs) (running_ids s) (concluded s) g"
  using assms unfolding sched_groups_def by blast+

lemma same_groups_member:
  assumes "same_groups R G" "(k, g) \<in> set G"
  shows "\<exists>h. (k, h) \<in> set R \<and> mr_invocations g = mr_invocations h \<and> mr_max_parallel g = mr_max_parallel h"
  using assms unfolding same_groups_def by (induction rule: list_all2_induct) auto

lemma same_groups_map:
  assumes "same_groups R G" "\<And>g. mr_invocations (f g) = mr_invocations g" "\<And>g. mr_max_parallel (f g) = mr_max_parallel g"
  shows "same_groups R (map (\<lambda>(k, g). (k, f g)) G)"
  using assms(1) unfolding same_groups_def
  by (induction rule: list_all2_induct) (auto simp: assms(2,3))

lemma same_groups_names: "same_groups (reusable_matrix_runtimes jobs) G \<Longrightarrow> (k, g) \<in> set G \<Longrightarrow>
    set (mr_invocations g) \<subseteq> set (all_invocations jobs)"
  using same_groups_member by (fastforce simp: all_invocations_def)

lemma fold_see_base:
  assumes "distinct ys"
  shows "\<exists>zs. fold see_base xs (set ys, ys) = (set zs, zs) \<and> distinct zs \<and> set zs = set ys \<union> set xs"
  using assms
proof (induction xs arbitrary: ys)
  case (Cons x xs)
  show ?case
  proof (cases "x \<in> set ys")
    case True
    then show ?thesis using Cons.IH [OF Cons.prems] by (auto simp: see_base_def)
  next
    case False
    then obtain zs where "fold see_base xs (set (ys @ [x]), ys @ [x]) = (set zs, zs)" "distinct zs"
        "set zs = set (ys @ [x]) \<union> set xs"
      using Cons.IH [of "ys @ [x]"] Cons.prems by auto
    moreover have "see_base x (set ys, ys) = (set (ys @ [x]), ys @ [x])" using False by (simp add: see_base_def)
    ultimately show ?thesis by (intro exI [of _ zs]) simp
  qed
qed simp

lemma initial_sched_fields:
  "sc_jobs (initial_sched jobs) = jobs \<and> distinct (sc_base_order (initial_sched jobs)) \<and>
    set (sc_base_order (initial_sched jobs)) = base_ids jobs \<and> sc_pending (initial_sched jobs) = base_ids jobs \<and>
    sc_completed_bases (initial_sched jobs) = [] \<and> sc_running (initial_sched jobs) = [] \<and>
    sc_matrices (initial_sched jobs) = reusable_matrix_runtimes jobs \<and> sc_cancellation_error (initial_sched jobs) = None"
proof -
  obtain zs where "fold see_base (map planned_base_id jobs) ({}, []) = (set zs, zs)" "distinct zs" "set zs = base_ids jobs"
    using fold_see_base [of "[]" "map planned_base_id jobs"] by auto
  then show ?thesis by (simp add: initial_sched_def fold_map o_def)
qed

lemma runtimes_fresh: "(k, g) \<in> set (reusable_matrix_runtimes jobs) \<Longrightarrow>
    mr_active g = {} \<and> mr_started g = {} \<and> \<not> mr_failed g"
proof -
  assume "(k, g) \<in> set (reusable_matrix_runtimes jobs)"
  then have "(k, g) \<in> set (List.map_filter matrix_runtime_of jobs)"
    using entries_collect unfolding reusable_matrix_runtimes_def by blast
  then obtain j where "matrix_runtime_of j = Some (k, g)" by (auto simp: List.map_filter_def)
  then show ?thesis by (cases j rule: matrix_runtime_of.cases) auto
qed

lemma same_groups_refl: "same_groups G G"
  unfolding same_groups_def by (rule list.rel_refl) auto

lemma sched_inv_initial: "sched_inv jobs (initial_sched jobs)"
  using initial_sched_fields [of jobs]
  by (auto simp: sched_inv_def sched_base_def sched_groups_def sched_failed_def same_groups_refl
      group_inv_def failed_skipped_def dest: runtimes_fresh)

subsection \<open>Starting jobs\<close>

lemma filterE_spec:
  "(\<And>x. x \<in> set xs \<Longrightarrow> p x \<noteq> Inl e) \<Longrightarrow> filterE p xs \<noteq> Inl e"
  "filterE p xs = Inr ys \<Longrightarrow> ys = filter (\<lambda>x. p x = Inr True) xs"
  by (induction xs arbitrary: ys) (auto simp: result_simps)

definition can_begin :: "planned_job list \<Rightarrow> sched \<Rightarrow> string \<Rightarrow> bool" where
  "can_begin jobs s b \<longleftrightarrow> b \<in> sc_pending s \<and>
    (\<exists>needs. first_needs jobs b = Some needs \<and> set needs \<subseteq> concluded s)"

lemma pending_job:
  assumes "sched_base jobs s" "b \<in> sc_pending s"
  obtains j where "find (\<lambda>j. planned_base_id j = b) (sc_jobs s) = Some j" "first_needs jobs b = Some (planned_needs j)"
proof -
  have "sc_jobs s = jobs" "b \<in> base_ids jobs" using assms by (auto simp: sched_base_def)
  then show ?thesis using that find_base [of b jobs] find_first_needs by metis
qed

lemma base_ready_no_panic:
  assumes "sched_base jobs s"
  shows "base_ready s b \<noteq> Inl e"
proof (cases "b \<in> sc_pending s")
  case True
  from pending_job [OF assms this] obtain j where "find (\<lambda>j. planned_base_id j = b) (sc_jobs s) = Some j" .
  then show ?thesis by (simp add: base_ready_def ok_or_def)
qed (simp add: base_ready_def)

lemma base_ready_True:
  assumes "sched_base jobs s"
  shows "base_ready s b = Inr True \<longleftrightarrow> can_begin jobs s b \<and> reusable_matrix_gate_can_start (sc_matrices s) b"
proof (cases "b \<in> sc_pending s")
  case True
  from pending_job [OF assms this] obtain j
    where "find (\<lambda>j. planned_base_id j = b) (sc_jobs s) = Some j" "first_needs jobs b = Some (planned_needs j)" .
  then show ?thesis
    using True by (auto simp: base_ready_def ok_or_def can_begin_def list_all_iff bt_contains_key_def
        map_of_eq_None_iff subset_iff)
qed (simp add: base_ready_def can_begin_def)

lemma start_base_fields [simp]:
  "sc_jobs (start_base s b) = sc_jobs s" "sc_base_order (start_base s b) = sc_base_order s"
  "sc_completed_bases (start_base s b) = sc_completed_bases s"
  "sc_cancellation_error (start_base s b) = sc_cancellation_error s"
  by (simp_all add: start_base_def Let_def)

lemma start_base_sets:
  assumes "reusable_matrix_gate_can_start (sc_matrices s) b"
  shows "sc_pending (start_base s b) = sc_pending s - {b}"
    "map rb_base_id (sc_running (start_base s b)) = map rb_base_id (sc_running s) @ [b]"
    "sc_matrices (start_base s b) = start_reusable_matrix_invocation b (sc_matrices s)"
    "running_ids (start_base s b) = insert b (running_ids s)"
  using assms by (auto simp: start_base_def Let_def)

lemma start_base_base:
  assumes base: "sched_base jobs s" and b: "can_begin jobs s b"
    and can: "reusable_matrix_gate_can_start (sc_matrices s) b"
  shows "sched_base jobs (start_base s b)"
proof -
  note sets = start_base_sets [OF can] and D = sched_baseD [OF base]
  have member: "b \<in> sc_pending s" "b \<notin> running_ids s \<union> concluded s"
    using b D(9) unfolding can_begin_def by blast+
  have dist: "distinct (map rb_base_id (sc_running (start_base s b)))"
    unfolding sets(2) using D(8) member(2) by simp
  have captured: "\<forall>r\<in>set (sc_running (start_base s b)). rb_jobs r = filter (\<lambda>j. planned_base_id j = rb_base_id r) jobs"
  proof
    fix r assume r: "r \<in> set (sc_running (start_base s b))"
    show "rb_jobs r = filter (\<lambda>j. planned_base_id j = rb_base_id r) jobs"
    proof (cases "r \<in> set (sc_running s)")
      case False
      with r can show ?thesis by (simp add: start_base_def Let_def D(1))
    qed (rule bspec [OF D(11)])
  qed
  have groups: "same_groups (reusable_matrix_runtimes jobs) (start_reusable_matrix_invocation b (sc_matrices s))"
    unfolding start_reusable_matrix_invocation_def using D(12) by (rule same_groups_map) simp_all
  have sub: "insert b (running_ids s) \<subseteq> base_ids jobs" "sc_pending s - {b} \<subseteq> base_ids jobs"
    "(sc_pending s - {b}) \<inter> (insert b (running_ids s) \<union> concluded s) = {}"
    "insert b (running_ids s) \<inter> concluded s = {}"
    using D(5,6,9,10) member by blast+
  show ?thesis
    unfolding sched_base_def start_base_fields sets(1,3,4)
    by (intro conjI D(1-4,7) dist captured groups sub)
qed

lemma start_base_inv:
  assumes inv: "sched_inv jobs s" and b: "can_begin jobs s b" and nested: "groups_nested jobs"
  shows "sched_inv jobs (start_base s b)"
proof (cases "reusable_matrix_gate_can_start (sc_matrices s) b")
  case can: True
  note sets = start_base_sets [OF can]
  have base: "sched_base jobs s" using inv unfolding sched_inv_def by blast
  note D = sched_baseD [OF base]
  have member: "b \<in> base_ids jobs" "b \<notin> running_ids s \<union> concluded s"
    using b D(5,9) unfolding can_begin_def by blast+
  have "sched_groups jobs (start_base s b) \<and> sched_failed jobs (start_base s b)"
    if none: "sc_cancellation_error s = None"
  proof
    have old: "sched_groups jobs s" "sched_failed jobs s" using inv none unfolding sched_inv_def by blast+
    obtain needs where needs: "first_needs jobs b = Some needs" "set needs \<subseteq> concluded s"
      using b unfolding can_begin_def by blast
    have "group_inv (base_ids jobs) (insert b (running_ids s)) (concluded s) (start_invocation b g)"
      if "(k, g) \<in> set (sc_matrices s)" for k g
      by (rule group_inv_start [OF sched_groupsD(2) [OF old(1) that] nested same_groups_names [OF D(12) that] member needs])
    then show "sched_groups jobs (start_base s b)"
      using sched_groupsD(1) [OF old(1)]
      unfolding sched_groups_def sets(1,3,4) start_base_fields start_reusable_matrix_invocation_def by auto
    have "failed_skipped B c g \<Longrightarrow> failed_skipped B c (start_invocation b g)" for B c g
      unfolding failed_skipped_def start_invocation_sets start_invocation_fields by blast
    then show "sched_failed jobs (start_base s b)"
      using old(2) unfolding sched_failed_def sets(3) start_base_fields start_reusable_matrix_invocation_def by auto
  qed
  then show ?thesis using start_base_base [OF base b can] unfolding sched_inv_def start_base_fields by blast
qed (simp add: start_base_def inv)

lemma start_base_measure:
  assumes "b \<in> sc_pending s" "finite (sc_pending s)"
  shows "sched_measure (start_base s b) = sched_measure s"
  using assms card_Suc_Diff1 [of "sc_pending s" b] by (auto simp: start_base_def Let_def sched_measure_def)

lemma can_begin_start: "can_begin jobs s b \<Longrightarrow> b \<noteq> c \<Longrightarrow> can_begin jobs (start_base s c) b"
  by (auto simp: can_begin_def start_base_def Let_def)

lemma sched_pending_finite: "sched_inv jobs s \<Longrightarrow> finite (sc_pending s)"
  unfolding sched_inv_def sched_base_def by (metis finite_imageI finite_set finite_subset)

lemma start_all_inv:
  assumes "sched_inv jobs s" "groups_nested jobs" "distinct bs" "\<And>b. b \<in> set bs \<Longrightarrow> can_begin jobs s b"
  shows "sched_inv jobs (foldl start_base s bs) \<and> sched_measure (foldl start_base s bs) = sched_measure s \<and>
    sc_cancellation_error (foldl start_base s bs) = sc_cancellation_error s \<and>
    sc_completed_bases (foldl start_base s bs) = sc_completed_bases s"
  using assms(1,3,4)
proof (induction bs arbitrary: s)
  case (Cons b bs)
  have "sched_inv jobs (start_base s b)" using Cons.prems by (intro start_base_inv [OF _ _ assms(2)]) auto
  moreover have "\<And>c. c \<in> set bs \<Longrightarrow> can_begin jobs (start_base s b) c"
    using Cons.prems by (intro can_begin_start) auto
  moreover have "sched_measure (start_base s b) = sched_measure s"
    using Cons.prems sched_pending_finite by (intro start_base_measure) (auto simp: can_begin_def)
  ultimately show ?case using Cons.IH [of "start_base s b"] Cons.prems by simp
qed simp

lemma start_all_running: "sc_running (foldl start_base s bs) = [] \<Longrightarrow> sc_running s = []"
proof (induction bs arbitrary: s)
  case (Cons b bs)
  then have "sc_running (start_base s b) = []" by simp
  then show ?case by (simp add: start_base_def Let_def split: if_splits)
qed simp

text \<open>The state after the ready jobs have been started; \<open>ready\<close> are the ones that were.\<close>

lemma start_ready_inv:
  assumes inv: "sched_inv jobs s" and nested: "groups_nested jobs"
  obtains t where "start_ready c s = Inr t" "sched_inv jobs t" "sched_measure t = sched_measure s"
    "sc_cancellation_error t = sc_cancellation_error s" "sc_completed_bases t = sc_completed_bases s"
    "\<not> c \<and> sc_running t = [] \<longrightarrow> t = s \<and>
      (\<forall>b. can_begin jobs s b \<longrightarrow> \<not> reusable_matrix_gate_can_start (sc_matrices s) b)"
proof -
  have base: "sched_base jobs s" using inv unfolding sched_inv_def by blast
  define ready where "ready = (if c then [] else filter (\<lambda>b. base_ready s b = Inr True) (sc_base_order s))"
  have eq: "(if c then Inr [] else filterE (base_ready s) (sc_base_order s)) = Inr ready"
  proof (cases c)
    case False
    have "\<And>e. filterE (base_ready s) (sc_base_order s) \<noteq> Inl e"
      using filterE_spec(1) [OF base_ready_no_panic [OF base]] .
    then obtain r where "filterE (base_ready s) (sc_base_order s) = Inr r"
      by (cases "filterE (base_ready s) (sc_base_order s)") auto
    then show ?thesis using filterE_spec(2) [of "base_ready s"] False by (simp add: ready_def)
  qed (simp add: ready_def)
  have can: "can_begin jobs s b" "reusable_matrix_gate_can_start (sc_matrices s) b" if "b \<in> set ready" for b
    using that base_ready_True [OF base] by (auto simp: ready_def split: if_splits)
  have dist: "distinct ready" using sched_baseD(2) [OF base] by (simp add: ready_def)
  have all: "sched_inv jobs (foldl start_base s ready) \<and> sched_measure (foldl start_base s ready) = sched_measure s \<and>
    sc_cancellation_error (foldl start_base s ready) = sc_cancellation_error s \<and>
    sc_completed_bases (foldl start_base s ready) = sc_completed_bases s"
    by (rule start_all_inv [OF inv nested dist can(1)])
  show ?thesis
  proof (rule that)
    show "start_ready c s = Inr (foldl start_base s ready)" using eq by (simp add: start_ready_def)
    show "\<not> c \<and> sc_running (foldl start_base s ready) = [] \<longrightarrow> foldl start_base s ready = s \<and>
      (\<forall>b. can_begin jobs s b \<longrightarrow> \<not> reusable_matrix_gate_can_start (sc_matrices s) b)"
    proof
      assume idle: "\<not> c \<and> sc_running (foldl start_base s ready) = []"
      have "ready = []"
      proof (cases ready)
        case (Cons b bs)
        then have "sc_running (start_base s b) = []" using idle by (intro start_all_running [of "start_base s b" bs]) simp
        then show ?thesis using start_base_sets(2) [OF can(2), of b] Cons by simp
      qed simp
      moreover have "b \<in> set (sc_base_order s)" if "can_begin jobs s b" for b
        using that sched_baseD(3,5) [OF base] unfolding can_begin_def by blast
      ultimately show "foldl start_base s ready = s \<and>
          (\<forall>b. can_begin jobs s b \<longrightarrow> \<not> reusable_matrix_gate_can_start (sc_matrices s) b)"
        using idle base_ready_True [OF base] by (auto simp: ready_def filter_empty_conv)
    qed
  qed (use all in simp_all)
qed

end
