(* ===== verification/Linking.thy ===== *)
theory Linking
  imports Link
begin

text \<open>
  Properties of the linker. Compiled and linked plans are closed under references, so that
  the lookups of \<open>expand_reusable_call\<close> never miss; by induction over the nesting of calls,
  linking ends without a panic and the linked plan keeps the dependency order and the
  permissions of the callers.
\<close>

section \<open>Compiled plans are closed\<close>

text \<open>What a planned job keeps of the job of the file it is compiled from.\<close>

definition compiled_from :: "compile_env \<Rightarrow> string \<Rightarrow> job \<Rightarrow> planned_job \<Rightarrow> bool" where
  "compiled_from E job_id job j \<longleftrightarrow> planned_base_id j = job_id \<and> id_extends_base j \<and>
    planned_needs j = job_needs job \<and> job_refs j = set (job_needs job) \<and> virtual_job j = None \<and>
    planned_permissions (ce_api E) (ce_workflow_name E) (AtJob job_id) (job_permissions job)
      (ce_permissions E) = Inr (pj_permissions (job_core j))"

lemma compile_matrix_job_from:
  assumes "compile_matrix_job E job_id job m entry = Inr j"
  shows "compiled_from E job_id job j"
proof -
  obtain i matrix where entry: "entry = (i, matrix)" by fastforce
  have aliases: "snd ` set (bt_collect (map (\<lambda>d. (d, d)) needs)) \<subseteq> set needs" for needs :: "string list"
    using entries_collect [of "map (\<lambda>d. (d, d)) needs"] by auto
  have id: "planned_id j = planned_job_id job_id m i" "planned_base_id j = job_id"
      "planned_needs j = job_needs job" "virtual_job j = None"
      "pj_need_aliases (job_core j) = bt_collect (map (\<lambda>d. (d, d)) (job_needs job))"
      "planned_permissions (ce_api E) (ce_workflow_name E) (AtJob job_id) (job_permissions job)
        (ce_permissions E) = Inr (pj_permissions (job_core j))"
    using assms by (auto simp: entry compile_matrix_job_def result_simps)
  have "id_extends_base j"
    unfolding id_extends_base_def id(1,2) by (auto simp: planned_job_id_def utf8_continuation_def)
  moreover have "job_refs j = set (job_needs job)"
    unfolding job_refs_def using aliases [of "job_needs job"] by (auto simp: id)
  ultimately show ?thesis using id by (simp add: compiled_from_def)
qed

lemma compile_job_from:
  assumes "compile_job E (job_id, job) = Inr js" and "j \<in> set js"
  shows "compiled_from E job_id job j"
proof -
  from assms(1) obtain m where
    "list_all2 (\<lambda>x y. compile_matrix_job E job_id job m x = Inr y) (enumerate 0 (mp_combinations m)) js"
    by (auto simp: compile_job_def result_simps)
  from list_all2_source [OF this assms(2)] compile_matrix_job_from show ?thesis by blast
qed

lemma first_needs_uniform:
  assumes "j \<in> set jobs"
    and "\<And>i. i \<in> set jobs \<Longrightarrow> planned_base_id i = planned_base_id j \<Longrightarrow> planned_needs i = planned_needs j"
  shows "first_needs jobs (planned_base_id j) = Some (planned_needs j)"
proof -
  let ?m = "map (\<lambda>j. (planned_base_id j, planned_needs j)) jobs"
  have "map_of ?m (planned_base_id j) \<noteq> None"
    using assms(1) by (auto simp: map_of_eq_None_iff image_iff)
  then obtain needs where n: "map_of ?m (planned_base_id j) = Some needs" by blast
  with map_of_SomeD [OF n] assms(2) show ?thesis by (auto simp: first_needs_def)
qed

lemma compile_source:
  assumes "compile Y parse workflow path = Inr plan"
  shows "\<exists>E. \<forall>j\<in>set (plan_jobs plan). \<exists>job. (planned_base_id j, job) \<in> set (wf_jobs workflow) \<and>
    compiled_from E (planned_base_id j) job j"
proof -
  from compile_groups [OF assms] obtain E groups where g: "plan_jobs plan = concat groups"
    "list_all2 (\<lambda>entry js. compile_job E entry = Inr js) (wf_jobs workflow) groups" by blast
  have "\<exists>job. (planned_base_id j, job) \<in> set (wf_jobs workflow) \<and> compiled_from E (planned_base_id j) job j"
    if j: "j \<in> set (plan_jobs plan)" for j
  proof -
    from j g(1) obtain js where js: "js \<in> set groups" "j \<in> set js" by auto
    from list_all2_source [OF g(2) js(1)] obtain k job where
      e: "(k, job) \<in> set (wf_jobs workflow)" "compile_job E (k, job) = Inr js" by fastforce
    from compile_job_from [OF e(2) js(2)] e(1) show ?thesis by (auto simp: compiled_from_def)
  qed
  then show ?thesis by blast
qed

text \<open>The jobs of a compiled plan, and what instances of the same job share.\<close>

definition placeholders_ok :: "planned_job list \<Rightarrow> bool" where
  "placeholders_ok jobs \<longleftrightarrow>
    (\<forall>j\<in>set jobs. closed_in (base_ids jobs) j \<and> virtual_job j = None) \<and>
    (\<forall>i\<in>set jobs. \<forall>j\<in>set jobs. planned_base_id i = planned_base_id j \<longrightarrow>
      pj_permissions (job_core i) = pj_permissions (job_core j))"

lemma compile_placeholders_ok:
  assumes c: "compile Y parse workflow path = Inr plan" and wf: "bt_wf (wf_jobs workflow)"
  shows "placeholders_ok (plan_jobs plan)"
proof -
  let ?jobs = "plan_jobs plan"
  from compile_source [OF c] obtain E where src: "\<And>j. j \<in> set ?jobs \<Longrightarrow>
      \<exists>job. (planned_base_id j, job) \<in> set (wf_jobs workflow) \<and> compiled_from E (planned_base_id j) job j"
    by blast
  have same: "planned_needs i = planned_needs j \<and> pj_permissions (job_core i) = pj_permissions (job_core j)"
    if ij: "i \<in> set ?jobs" "j \<in> set ?jobs" "planned_base_id i = planned_base_id j" for i j
  proof -
    obtain job where "compiled_from E (planned_base_id i) job i" "compiled_from E (planned_base_id i) job j"
      using src [OF ij(1)] src [OF ij(2)] ij(3) eq_key_imp_eq_value [OF bt_wf_distinct [OF wf]] by metis
    then show ?thesis by (auto simp: compiled_from_def)
  qed
  have "closed_in (base_ids ?jobs) j \<and> virtual_job j = None" if j: "j \<in> set ?jobs" for j
  proof -
    have "first_needs ?jobs (planned_base_id j) = Some (planned_needs j)"
      using j same by (intro first_needs_uniform) blast+
    then have "set (planned_needs j) \<subseteq> base_ids ?jobs"
      using compile_jobs_ok [OF c] unfolding needs_known_def needs_edge_def list.set_map
      by (metis subsetI)
    with src [OF j] show ?thesis by (auto simp: closed_in_def compiled_from_def)
  qed
  with same show ?thesis unfolding placeholders_ok_def by blast
qed

section \<open>Call jobs have instances\<close>

text \<open>
  A static matrix may expand to no combination at all. The linker expects an instance of
  every call job, so the theorems ask that the matrices of call jobs are not empty.
\<close>

definition calls_have_instances :: "yaml_api \<Rightarrow> workflow \<Rightarrow> bool" where
  "calls_have_instances Y workflow \<longleftrightarrow> (\<forall>(job_id, job)\<in>set (call_jobs workflow).
    \<forall>name m. expand_matrix Y name job_id (job_strategy job) = Inr m \<longrightarrow> mp_combinations m \<noteq> [])"

lemma placeholder_workflow_simps [simp]:
  "map fst (wf_jobs (placeholder_workflow workflow)) = map fst (wf_jobs workflow)"
  "bt_wf (wf_jobs (placeholder_workflow workflow)) = bt_wf (wf_jobs workflow)"
  by (simp_all add: placeholder_workflow_def bt_wf_def case_prod_unfold comp_def)

lemma placeholder_strings_ok [simp]:
  "workflow_strings_ok (placeholder_workflow workflow) = workflow_strings_ok workflow"
proof -
  have "job_concurrency (if b then placeholder_job job else job) = job_concurrency job" for b job
    by (simp add: placeholder_job_def)
  then show ?thesis
    by (simp add: workflow_strings_ok_def placeholder_workflow_def case_prod_unfold)
qed

lemma placeholder_strategy [simp]: "job_strategy (placeholder_job job) = job_strategy job"
  by (simp add: placeholder_job_def)

lemma compile_job_length:
  "compile_job E (job_id, job) = Inr js \<Longrightarrow>
    \<exists>m. expand_matrix (ce_api E) (ce_workflow_name E) job_id (job_strategy job) = Inr m \<and>
      length js = length (mp_combinations m)"
  by (auto simp: compile_job_def result_simps dest!: list_all2_lengthD)

lemma list_all2_target: "list_all2 P xs ys \<Longrightarrow> x \<in> set xs \<Longrightarrow> \<exists>y\<in>set ys. P x y"
  by (induction xs ys rule: list_all2_induct) auto

lemma compile_call_instance:
  assumes c: "compile Y parse (placeholder_workflow workflow) path = Inr plan"
    and call: "(job_id, job) \<in> set (call_jobs workflow)" and ne: "calls_have_instances Y workflow"
  shows "\<exists>j\<in>set (plan_jobs plan). planned_base_id j = job_id"
proof -
  let ?e = "(job_id, placeholder_job job)"
  from call have e: "?e \<in> set (wf_jobs (placeholder_workflow workflow))"
    by (auto simp: call_jobs_def placeholder_workflow_def intro!: image_eqI [where x = "(job_id, job)"])
  from compile_groups [OF c] obtain E groups where g: "plan_jobs plan = concat groups"
    "list_all2 (\<lambda>entry js. compile_job E entry = Inr js) (wf_jobs (placeholder_workflow workflow)) groups"
    "ce_api E = Y" by blast
  from list_all2_target [OF g(2) e] obtain js where js: "js \<in> set groups" "compile_job E ?e = Inr js" by blast
  from compile_job_length [OF js(2)] obtain m where
    m: "expand_matrix Y (ce_workflow_name E) job_id (job_strategy job) = Inr m"
      "length js = length (mp_combinations m)" by (auto simp: g(3))
  have "mp_combinations m \<noteq> []"
    using bspec [OF ne [unfolded calls_have_instances_def] call] m(1) by blast
  with m(2) obtain j where "j \<in> set js" by (cases js) auto
  with compile_job_from [OF js(2) this] js(1) g(1) show ?thesis by (auto simp: compiled_from_def)
qed

section \<open>Preparing a call never panics\<close>

lemma no_fault_reusable_path [simp]: "no_fault (reusable_path w j uses reusables)"
  by (auto simp: reusable_path_def intro!: no_fault_bindE split: option.splits)

lemma no_fault_contract_parts [simp]:
  "no_fault (definition_name Y w j section key)"
  "no_fault (definition_mapping Y w j section name allowed v)"
  "no_fault (definition_required Y w j section name m)"
  "no_fault (section_definitions Y w j configuration section)"
  "no_fault (workflow_call_key Y w j called key)"
  by (auto simp: definition_name_def definition_mapping_def definition_required_def
      section_definitions_def workflow_call_key_def intro!: no_fault_bindE split: option.splits)

lemma no_fault_contract_entries [simp]:
  "no_fault (contract_secret Y w j secrets entry)"
  "no_fault (contract_input Y w j inputs entry)"
  "no_fault (contract_output Y w j outputs entry)"
  by (auto simp: contract_secret_def contract_input_def contract_output_def intro!: no_fault_bindE
      split: option.splits)

lemma no_fault_reusable_contract [simp]: "no_fault (reusable_contract Y w j workflow)"
  by (auto simp: reusable_contract_def intro!: no_fault_bindE no_fault_foldE [where P = "\<lambda>_. True"]
      split: sum.splits option.splits)

lemma no_fault_bind_reusable_inputs [simp]: "no_fault (bind_reusable_inputs Y w j call contract)"
proof -
  have "no_fault (bind_input Y w j call inputs entry)" for inputs entry
    by (cases entry) (auto simp: bind_input_def intro!: no_fault_bindE split: option.splits)
  then show ?thesis
    by (auto simp: bind_reusable_inputs_def intro!: no_fault_foldE [where P = "\<lambda>_. True"]
        split: option.splits)
qed

lemma no_fault_bind_reusable_secrets [simp]: "no_fault (bind_reusable_secrets Y w j call contract)"
proof -
  have "no_fault (bind_secret Y w j contract scope entry)" for scope entry
    by (auto simp: bind_secret_def intro!: no_fault_bindE)
  then show ?thesis
    by (auto simp: bind_reusable_secrets_def Let_def
        intro!: no_fault_bindE no_fault_foldE [where P = "\<lambda>_. True"]
        split: option.splits yaml_value.splits)
qed

lemma no_fault_validate_call [simp]: "no_fault (validate_reusable_call_job w j job)"
  by (auto simp: validate_reusable_call_job_def intro!: no_fault_bindE
      split: option.splits yaml_value.splits list.splits)

lemma no_fault_prepare_call:
  "job_uses call \<noteq> None \<Longrightarrow> no_fault (prepare_call Y name reusables stack level called (job_id, call))"
  by (auto simp: prepare_call_def Let_def ok_or_def [of "Some _"] intro!: no_fault_bindE)

lemma prepare_call_result:
  assumes "prepare_call Y name reusables stack level called (job_id, call) = Inr p"
  shows "pr_called p \<in> snd ` set reusables" "pr_called_workflows p = bs_insert (pr_path p) called"
    "length (pr_called_workflows p) \<le> MAX_UNIQUE_REUSABLE_WORKFLOWS"
    "level < MAX_REUSABLE_WORKFLOW_LEVELS" "pr_path p \<notin> set stack"
  using assms by (auto simp: prepare_call_def Let_def result_simps dest!: map_of_SomeD intro: rev_image_eqI)

section \<open>Replacing the placeholders\<close>

lemma link_jobs_total:
  assumes "\<And>k. k \<in> fst ` set calls \<Longrightarrow> k \<notin> replaced \<Longrightarrow> map_of expansions k = Some (e k)"
    and "\<And>k. k \<in> replaced \<Longrightarrow> set (e k) \<subseteq> set linked"
  shows "\<exists>linked' rest. foldE (link_job calls) (linked, replaced, expansions) jobs = Inr (linked', rest) \<and>
    set linked' = set linked \<union> (\<Union>j\<in>set jobs.
      if planned_base_id j \<in> fst ` set calls then set (e (planned_base_id j)) else {j})"
  using assms
proof (induction jobs arbitrary: linked replaced expansions)
  case (Cons j jobs)
  let ?k = "planned_base_id j"
  consider "?k \<notin> fst ` set calls" | "?k \<in> fst ` set calls" "?k \<in> replaced"
    | "?k \<in> fst ` set calls" "?k \<notin> replaced" by blast
  then show ?case
  proof cases
    case 1
    have "link_job calls (linked, replaced, expansions) j = Inr (linked @ [j], replaced, expansions)"
      using 1 by (simp add: link_job_def)
    moreover have "\<And>k. k \<in> replaced \<Longrightarrow> set (e k) \<subseteq> set (linked @ [j])"
      using Cons.prems(2) by auto
    ultimately obtain linked' rest where
      "foldE (link_job calls) (linked, replaced, expansions) (j # jobs) = Inr (linked', rest)"
      "set linked' = set (linked @ [j]) \<union> (\<Union>j\<in>set jobs.
        if planned_base_id j \<in> fst ` set calls then set (e (planned_base_id j)) else {j})"
      using Cons.IH [of replaced expansions "linked @ [j]", OF Cons.prems(1)] by auto
    then show ?thesis using 1 by auto
  next
    case 2
    have "link_job calls (linked, replaced, expansions) j = Inr (linked, replaced, expansions)"
      using 2 by (simp add: link_job_def)
    moreover obtain linked' rest where
      "foldE (link_job calls) (linked, replaced, expansions) jobs = Inr (linked', rest)"
      "set linked' = set linked \<union> (\<Union>j\<in>set jobs.
        if planned_base_id j \<in> fst ` set calls then set (e (planned_base_id j)) else {j})"
      using Cons.IH [of replaced expansions linked, OF Cons.prems] by blast
    ultimately show ?thesis using Cons.prems(2) [OF 2(2)] 2 by auto
  next
    case 3
    let ?s = "(linked @ e ?k, insert ?k replaced, bt_remove ?k expansions)"
    have step: "link_job calls (linked, replaced, expansions) j = Inr ?s"
      using 3 Cons.prems(1) [OF 3] by (simp add: link_job_def ok_or_def)
    have "map_of (bt_remove ?k expansions) k = Some (e k)"
      if "k \<in> fst ` set calls" "k \<notin> insert ?k replaced" for k
      using Cons.prems(1) that by (simp add: bt_get_remove)
    moreover have "set (e k) \<subseteq> set (linked @ e ?k)" if "k \<in> insert ?k replaced" for k
      using Cons.prems(2) that by auto
    ultimately obtain linked' rest where
      "foldE (link_job calls) ?s jobs = Inr (linked', rest)"
      "set linked' = set (linked @ e ?k) \<union> (\<Union>j\<in>set jobs.
        if planned_base_id j \<in> fst ` set calls then set (e (planned_base_id j)) else {j})"
      using Cons.IH [of "insert ?k replaced" "bt_remove ?k expansions" "linked @ e ?k"] by blast
    then show ?thesis using step 3 by auto
  qed
qed auto

section \<open>The linked plan\<close>

definition link_input_ok :: "yaml_api \<Rightarrow> workflow \<Rightarrow> bool" where
  "link_input_ok Y workflow \<longleftrightarrow> bt_wf (wf_jobs workflow) \<and> workflow_strings_ok workflow \<and>
    calls_have_instances Y workflow"

definition linked_plan_ok :: "planned_job list \<Rightarrow> bool" where
  "linked_plan_ok jobs \<longleftrightarrow> plan_closed jobs \<and> needs_known jobs \<and> needs_acyclic jobs"

text \<open>
  How a linked plan relates to the plan with placeholders: the jobs that are not calls are
  kept, every id stays defined, and a job that a call brought in has at most the
  permissions of the calling job.
\<close>

definition links :: "string set \<Rightarrow> planned_job list \<Rightarrow> planned_job list \<Rightarrow> bool" where
  "links calls placeholders jobs \<longleftrightarrow>
    {j \<in> set placeholders. planned_base_id j \<notin> calls} \<subseteq> set jobs \<and>
    base_ids placeholders \<subseteq> base_ids jobs \<and>
    (\<forall>j\<in>set jobs. j \<in> set placeholders \<and> planned_base_id j \<notin> calls \<or>
      (\<exists>p\<in>set placeholders. planned_base_id p \<in> calls \<and>
        within_permissions (pj_permissions (job_core p)) j))"

definition expansions_ok :: "planned_job list \<Rightarrow> (string \<times> planned_job list) list \<Rightarrow> bool" where
  "expansions_ok jobs expansions \<longleftrightarrow> bt_wf expansions \<and>
    (\<forall>(k, js)\<in>set expansions. \<exists>p\<in>set jobs. planned_base_id p = k \<and>
      expansion_ok k (base_ids jobs) (pj_permissions (job_core p)) js)"

lemma replaced_plan_ok:
  assumes jobs: "placeholders_ok jobs" and ex: "expansions_ok jobs expansions"
    and keys: "fst ` set calls \<subseteq> fst ` set expansions"
  shows "\<exists>linked rest. foldE (link_job calls) ([], {}, expansions) jobs = Inr (linked, rest) \<and>
    plan_closed linked \<and> links (fst ` set calls) jobs linked"
proof -
  define e where "e k = the (map_of expansions k)" for k
  have e: "map_of expansions k = Some (e k)" if "k \<in> fst ` set calls" for k
  proof -
    have "map_of expansions k \<noteq> None" using that keys unfolding map_of_eq_None_iff by blast
    then show ?thesis by (simp add: e_def)
  qed
  have e_ok: "\<exists>p\<in>set jobs. planned_base_id p = k \<and>
      expansion_ok k (base_ids jobs) (pj_permissions (job_core p)) (e k)" if "k \<in> fst ` set calls" for k
    using bspec [OF conjunct2 [OF ex [unfolded expansions_ok_def]] map_of_SomeD [OF e [OF that]]] by simp
  obtain linked rest where run: "foldE (link_job calls) ([], {}, expansions) jobs = Inr (linked, rest)"
    and set_linked: "set linked = (\<Union>j\<in>set jobs.
      if planned_base_id j \<in> fst ` set calls then set (e (planned_base_id j)) else {j})"
    using link_jobs_total [of calls "{}" expansions e "[]" jobs] e by auto
  have kept: "j \<in> set linked" if "j \<in> set jobs" "planned_base_id j \<notin> fst ` set calls" for j
    using that unfolding set_linked by auto
  have expanded: "set (e k) \<subseteq> set linked" if k: "k \<in> fst ` set calls" for k
  proof -
    obtain p where "p \<in> set jobs" "planned_base_id p = k" using e_ok [OF k] by blast
    then show ?thesis using k unfolding set_linked by auto
  qed
  have base: "base_ids jobs \<subseteq> base_ids linked"
  proof
    fix k assume "k \<in> base_ids jobs"
    then obtain j where j: "j \<in> set jobs" "k = planned_base_id j" by blast
    show "k \<in> base_ids linked"
    proof (cases "k \<in> fst ` set calls")
      case True
      then have "k \<in> base_ids (e k)" using e_ok by (auto simp: expansion_ok_def)
      then show ?thesis using expanded [OF True] by blast
    next
      case False
      then show ?thesis using kept j by blast
    qed
  qed
  have each: "closed_in (base_ids linked) j \<and>
      (j \<in> set jobs \<and> planned_base_id j \<notin> fst ` set calls \<or>
       (\<exists>p\<in>set jobs. planned_base_id p \<in> fst ` set calls \<and>
         within_permissions (pj_permissions (job_core p)) j))" if "j \<in> set linked" for j
  proof -
    from that obtain i where i: "i \<in> set jobs" and
      j: "j \<in> (if planned_base_id i \<in> fst ` set calls then set (e (planned_base_id i)) else {i})"
      unfolding set_linked by blast
    show ?thesis
    proof (cases "planned_base_id i \<in> fst ` set calls")
      case True
      let ?k = "planned_base_id i"
      obtain p where p: "p \<in> set jobs" "planned_base_id p = ?k"
        "expansion_ok ?k (base_ids jobs) (pj_permissions (job_core p)) (e ?k)" using e_ok [OF True] by blast
      have j': "closed_in (base_ids jobs \<union> base_ids (e ?k)) j" "within_permissions (pj_permissions (job_core p)) j"
        using p(3) j True by (auto simp: expansion_ok_def)
      have "base_ids jobs \<union> base_ids (e ?k) \<subseteq> base_ids linked"
        using base expanded [OF True] by blast
      from closed_in_mono [OF j'(1) this] j'(2) p True show ?thesis by metis
    next
      case False
      have "closed_in (base_ids jobs) i" using jobs i by (simp add: placeholders_ok_def)
      from closed_in_mono [OF this base] False i j show ?thesis by simp
    qed
  qed
  have "plan_closed linked" using each by (simp add: plan_closed_def)
  moreover have "links (fst ` set calls) jobs linked"
    unfolding links_def using kept base each by blast
  ultimately show ?thesis using run by blast
qed

lemma call_instances_ok:
  assumes "placeholders_ok (plan_jobs plan)" "\<exists>j\<in>set (plan_jobs plan). planned_base_id j = job_id"
    and called: "plan_closed (plan_jobs called_plan)"
  shows "\<exists>instances p. call_instances plan job_id = Inr instances \<and> p \<in> set (plan_jobs plan) \<and>
    planned_base_id p = job_id \<and>
    no_fault (link_expansion workflow job_id instances called_plan inputs secrets outputs) \<and>
    (\<forall>js. link_expansion workflow job_id instances called_plan inputs secrets outputs = Inr js \<longrightarrow>
      expansion_ok job_id (base_ids (plan_jobs plan)) (pj_permissions (job_core p)) js)"
proof -
  let ?i = "filter (\<lambda>j. planned_base_id j = job_id) (plan_jobs plan)"
  have ne: "?i \<noteq> []" using assms(2) by (auto simp: filter_empty_conv)
  then have p: "hd ?i \<in> set (plan_jobs plan)" "planned_base_id (hd ?i) = job_id"
    using hd_in_set [OF ne] by simp_all
  have "closed_in (base_ids (plan_jobs plan)) q \<and> virtual_job q = None \<and> planned_base_id q = job_id \<and>
      within_permissions (pj_permissions (job_core (hd ?i))) q" if q: "q \<in> set ?i" for q
  proof -
    have q': "q \<in> set (plan_jobs plan)" "planned_base_id q = job_id" using q by simp_all
    then have "closed_in (base_ids (plan_jobs plan)) q \<and> virtual_job q = None"
      using assms(1) unfolding placeholders_ok_def by blast
    moreover have "pj_permissions (job_core q) = pj_permissions (job_core (hd ?i))"
      using assms(1) p q' unfolding placeholders_ok_def by metis
    then have "within_permissions (pj_permissions (job_core (hd ?i))) q"
      by (simp only: within_permissions_def) simp
    ultimately show ?thesis using q'(2) by blast
  qed
  note ok = link_expansion_ok [OF called ne this]
  show ?thesis
    using p ne ok by (intro exI [of _ ?i] exI [of _ "hd ?i"]) (simp add: call_instances_def)
qed

lemma no_calls_placeholder: "call_jobs workflow = [] \<Longrightarrow> placeholder_workflow workflow = workflow"
proof -
  assume "call_jobs workflow = []"
  then have "map (\<lambda>(job_id, job). (job_id, if job_uses job \<noteq> None then placeholder_job job else job))
      (wf_jobs workflow) = wf_jobs workflow"
    by (intro map_idI) (auto simp: call_jobs_def filter_empty_conv)
  then show ?thesis by (simp add: placeholder_workflow_def)
qed

lemma compile_plan_closed:
  assumes "compile Y parse workflow path = Inr plan" "bt_wf (wf_jobs workflow)"
  shows "linked_plan_ok (plan_jobs plan)"
  using compile_placeholders_ok [OF assms] compile_jobs_ok [OF assms(1)]
  by (simp add: linked_plan_ok_def placeholders_ok_def plan_closed_def)

definition called_ok :: "string list \<Rightarrow> bool" where
  "called_ok called \<longleftrightarrow> bs_wf called \<and> length called \<le> MAX_UNIQUE_REUSABLE_WORKFLOWS"

definition link_result_ok ::
  "yaml_api \<Rightarrow> parser \<Rightarrow> workflow \<Rightarrow> string \<Rightarrow> execution_plan \<times> string list \<Rightarrow> bool"
where
  "link_result_ok Y parse workflow path r \<longleftrightarrow> linked_plan_ok (plan_jobs (fst r)) \<and> called_ok (snd r) \<and>
    (\<exists>plan. compile Y parse (placeholder_workflow workflow) path = Inr plan \<and>
      links (fst ` set (call_jobs workflow)) (plan_jobs plan) (plan_jobs (fst r)))"

lemma links_refl: "links {} jobs jobs"
  by (simp add: links_def)

text \<open>The body of the loop over the calls, with the recursive call as a parameter.\<close>

definition link_call ::
  "yaml_api \<Rightarrow> string \<Rightarrow> (string \<times> workflow) list \<Rightarrow> string list \<Rightarrow> nat \<Rightarrow> execution_plan
    \<Rightarrow> (prepared_call \<Rightarrow> failure + execution_plan \<times> string list)
    \<Rightarrow> link_state \<Rightarrow> string \<times> job \<Rightarrow> failure + link_state"
where
  "link_call Y name reusables call_stack level plan rec state entry =
    bindE (call_instances plan (fst entry)) (\<lambda>instances.
    bindE (prepare_call Y name reusables call_stack level (snd state) entry) (\<lambda>p.
    bindE (rec p) (\<lambda>r.
    bindE (ensure (plan_jobs (fst r) \<noteq> [])
      (incompatible name (fst entry) (OnLink ReusableWithoutJobs))) (\<lambda>_.
    bindE (link_expansion name (fst entry) instances (fst r)
      (pr_inputs p) (pr_secrets p) (pr_outputs p)) (\<lambda>expansion.
    Inr (bt_insert (fst entry) expansion (fst state), snd r))))))"

lemma link_call_ok:
  assumes jobs: "placeholders_ok (plan_jobs plan)"
    and call: "job_uses (snd entry) \<noteq> None" "\<exists>j\<in>set (plan_jobs plan). planned_base_id j = fst entry"
    and state: "expansions_ok (plan_jobs plan) (fst state)" "called_ok (snd state)"
    and rec: "\<And>p. prepare_call Y name reusables stack level (snd state) entry = Inr p \<Longrightarrow>
      called_ok (pr_called_workflows p) \<Longrightarrow>
      no_fault (rec p) \<and> (\<forall>r. rec p = Inr r \<longrightarrow> plan_closed (plan_jobs (fst r)) \<and> called_ok (snd r))"
  shows "no_fault (link_call Y name reusables stack level plan rec state entry)"
    and "link_call Y name reusables stack level plan rec state entry = Inr state' \<Longrightarrow>
      (expansions_ok (plan_jobs plan) (fst state') \<and> called_ok (snd state')) \<and>
      fst ` set (fst state') = insert (fst entry) (fst ` set (fst state))"
proof -
  obtain job_id job where entry: "entry = (job_id, job)" by fastforce
  let ?prepare = "prepare_call Y name reusables stack level (snd state) entry"
  have called: "called_ok (pr_called_workflows p)" if "?prepare = Inr p" for p
    using prepare_call_result [OF that [unfolded entry]] state(2) by (simp add: called_ok_def bs_wf_insert)
  have rec': "no_fault (rec p)" "\<And>r. rec p = Inr r \<Longrightarrow> plan_closed (plan_jobs (fst r)) \<and> called_ok (snd r)"
    if "?prepare = Inr p" for p
    using rec [OF that called [OF that]] by blast+
  have prepare: "no_fault ?prepare" using no_fault_prepare_call call(1) by (simp add: entry)
  show "no_fault (link_call Y name reusables stack level plan rec state entry)"
    unfolding link_call_def
  proof (intro no_fault_bindE no_fault_ensure no_fault_Inr prepare rec'(1))
    show "no_fault (call_instances plan (fst entry))"
      using call(2) by (auto simp: call_instances_def Let_def filter_empty_conv)
  next
    fix instances p r u
    assume "call_instances plan (fst entry) = Inr instances" "?prepare = Inr p" "rec p = Inr r"
    then show "no_fault (link_expansion name (fst entry) instances (fst r) (pr_inputs p) (pr_secrets p)
        (pr_outputs p))"
      using call_instances_ok [OF jobs call(2), of "fst r" name "pr_inputs p" "pr_secrets p" "pr_outputs p"]
        rec'(2) by fastforce
  qed
  assume "link_call Y name reusables stack level plan rec state entry = Inr state'"
  then obtain instances p r js where run: "call_instances plan (fst entry) = Inr instances"
      "?prepare = Inr p" "rec p = Inr r"
      "link_expansion name (fst entry) instances (fst r) (pr_inputs p) (pr_secrets p) (pr_outputs p) = Inr js"
    and state': "state' = (bt_insert (fst entry) js (fst state), snd r)"
    by (auto simp: link_call_def result_simps)
  from call_instances_ok [OF jobs call(2), of "fst r" name "pr_inputs p" "pr_secrets p" "pr_outputs p"]
    rec'(2) [OF run(2,3)] run(1,4)
  obtain q where q: "q \<in> set (plan_jobs plan)" "planned_base_id q = fst entry"
    "expansion_ok (fst entry) (base_ids (plan_jobs plan)) (pj_permissions (job_core q)) js" by auto
  have "expansions_ok (plan_jobs plan) (fst state')"
    unfolding expansions_ok_def
  proof (intro conjI ballI)
    show "bt_wf (fst state')" using state(1) by (simp add: state' expansions_ok_def bt_wf_insert)
    fix e assume "e \<in> set (fst state')"
    then have "e = (fst entry, js) \<or> e \<in> set (fst state)"
      using set_bt_insert [of e "fst entry" js "fst state"] by (auto simp: state')
    then show "case e of (k, js) \<Rightarrow> \<exists>p\<in>set (plan_jobs plan). planned_base_id p = k \<and>
        expansion_ok k (base_ids (plan_jobs plan)) (pj_permissions (job_core p)) js"
      using q state(1) by (auto simp: expansions_ok_def)
  qed
  then show "(expansions_ok (plan_jobs plan) (fst state') \<and> called_ok (snd state')) \<and>
      fst ` set (fst state') = insert (fst entry) (fst ` set (fst state))"
    using rec'(2) [OF run(2,3)] by (simp add: state')
qed

lemma compile_linked_workflow_calls:
  assumes "call_jobs workflow \<noteq> []"
  shows "compile_linked_workflow Y parse workflow path reusables stack called level =
    bindE (foldE (\<lambda>_ (job_id, call). validate_reusable_call_job (wf_name workflow) job_id call)
      () (call_jobs workflow)) (\<lambda>_.
    bindE (compile Y parse (placeholder_workflow workflow) path) (\<lambda>plan.
    bindE (foldE (link_call Y (wf_name workflow) reusables stack level plan (\<lambda>p.
        compile_linked_workflow Y parse (pr_called p) (pr_path p) reusables (stack @ [pr_path p])
          (pr_called_workflows p) (level + 1))) ([], called) (call_jobs workflow)) (\<lambda>state.
    bindE (foldE (link_job (call_jobs workflow)) ([], {}, fst state) (plan_jobs plan)) (\<lambda>linked.
    bindE (validate_dependencies (plan_workflow_name plan) (fst linked)) (\<lambda>_.
    Inr (ExecutionPlan (plan_workflow_name plan) (plan_workflow_path plan)
      (plan_concurrency plan) (fst linked), snd state))))))"
  unfolding link_call_def using assms
  by (subst compile_linked_workflow.simps) simp

lemma link_calls_ok:
  assumes jobs: "placeholders_ok (plan_jobs plan)" and called: "called_ok called"
    and calls: "\<And>entry. entry \<in> set calls \<Longrightarrow> job_uses (snd entry) \<noteq> None \<and>
      (\<exists>j\<in>set (plan_jobs plan). planned_base_id j = fst entry)"
    and rec: "\<And>(state :: link_state) entry p. entry \<in> set calls \<Longrightarrow>
      prepare_call Y name reusables stack level (snd state) entry = Inr p \<Longrightarrow>
      called_ok (pr_called_workflows p) \<Longrightarrow>
      no_fault (rec p) \<and> (\<forall>r. rec p = Inr r \<longrightarrow> plan_closed (plan_jobs (fst r)) \<and> called_ok (snd r))"
  shows "no_fault (foldE (link_call Y name reusables stack level plan rec) ([], called) calls)"
    and "foldE (link_call Y name reusables stack level plan rec) ([], called) calls = Inr state \<Longrightarrow>
      expansions_ok (plan_jobs plan) (fst state) \<and> called_ok (snd state) \<and>
      fst ` set calls \<subseteq> fst ` set (fst state)"
proof -
  let ?P = "\<lambda>state. expansions_ok (plan_jobs plan) (fst state) \<and> called_ok (snd state)"
  have init: "?P ([], called)" using called by (simp add: expansions_ok_def)
  note step = link_call_ok [OF jobs, where rec = rec and Y = Y and name = name and reusables = reusables
      and stack = stack and level = level]
  have fault: "no_fault (link_call Y name reusables stack level plan rec s x)"
    if "x \<in> set calls" "?P s" for s x
    using calls [OF that(1)] that(2) by (intro step(1) rec [OF that(1), of s]) auto
  have moves: "?P s' \<and> fst ` set (fst s') = insert (fst x) (fst ` set (fst s))"
    if "x \<in> set calls" "?P s" "link_call Y name reusables stack level plan rec s x = Inr s'" for s x s'
    using calls [OF that(1)] that(2,3) by (intro step(2) rec [OF that(1), of s]) auto
  show "no_fault (foldE (link_call Y name reusables stack level plan rec) ([], called) calls)"
    using init fault moves by (intro no_fault_foldE [where P = ?P]) blast+
  assume run: "foldE (link_call Y name reusables stack level plan rec) ([], called) calls = Inr state"
  have "?P state \<and> (\<forall>x\<in>set calls. fst x \<in> fst ` set (fst state))"
    using foldE_reaches [OF run, of ?P "\<lambda>x s. fst x \<in> fst ` set (fst s)"] init moves by blast
  then show "expansions_ok (plan_jobs plan) (fst state) \<and> called_ok (snd state) \<and>
      fst ` set calls \<subseteq> fst ` set (fst state)" by blast
qed

lemma compile_linked_ok:
  assumes "link_input_ok Y workflow" "\<forall>w\<in>snd ` set reusables. link_input_ok Y w" "called_ok called"
  shows "no_fault (compile_linked_workflow Y parse workflow path reusables stack called level) \<and>
    (\<forall>r. compile_linked_workflow Y parse workflow path reusables stack called level = Inr r \<longrightarrow>
      link_result_ok Y parse workflow path r)"
  using assms
proof (induction Y parse workflow path reusables stack called level rule: compile_linked_workflow.induct)
  case (1 Y parse workflow path reusables stack called level)
  let ?run = "compile_linked_workflow Y parse workflow path reusables stack called level"
  let ?calls = "call_jobs workflow" and ?root = "placeholder_workflow workflow"
  have root: "bt_wf (wf_jobs ?root)" "workflow_strings_ok ?root" "calls_have_instances Y workflow"
    using "1.prems"(1) by (simp_all add: link_input_ok_def)
  show ?case
  proof (cases "?calls = []")
    case True
    then show ?thesis
      using root "1.prems"(3) compile_plan_closed [OF _ root(1)] no_fault_compile [OF root(2)]
      by (auto simp: compile_linked_workflow.simps [of Y parse workflow] no_calls_placeholder result_simps
          link_result_ok_def links_refl intro!: no_fault_bindE)
  next
    case calls: False
    let ?rec = "\<lambda>p. compile_linked_workflow Y parse (pr_called p) (pr_path p) reusables
      (stack @ [pr_path p]) (pr_called_workflows p) (level + 1)"
    let ?loop = "\<lambda>plan. foldE (link_call Y (wf_name workflow) reusables stack level plan ?rec)
      ([], called) ?calls"
    have loop: "no_fault (?loop plan) \<and> (\<forall>state. ?loop plan = Inr state \<longrightarrow>
        expansions_ok (plan_jobs plan) (fst state) \<and> called_ok (snd state) \<and>
        fst ` set ?calls \<subseteq> fst ` set (fst state))"
      if v: "foldE (\<lambda>_ (job_id, call). validate_reusable_call_job (wf_name workflow) job_id call) ()
          ?calls = Inr u" and plan: "compile Y parse ?root path = Inr plan" for plan u
    proof -
      have entry: "job_uses (snd e) \<noteq> None \<and> (\<exists>j\<in>set (plan_jobs plan). planned_base_id j = fst e)"
        if "e \<in> set ?calls" for e
        using compile_call_instance [OF plan, of "fst e" "snd e"] root(3) that
        by (auto simp: call_jobs_def)
      have rec: "no_fault (?rec p) \<and> (\<forall>r. ?rec p = Inr r \<longrightarrow> plan_closed (plan_jobs (fst r)) \<and> called_ok (snd r))"
        if e: "e \<in> set ?calls"
          and p: "prepare_call Y (wf_name workflow) reusables stack level (snd state) e = Inr p"
          and c: "called_ok (pr_called_workflows p)" for state :: link_state and e p
      proof -
        have "pr_called p \<in> snd ` set reusables"
          using prepare_call_result(1) [of Y "wf_name workflow" reusables stack level "snd state" "fst e" "snd e" p] p
          by simp
        then have "link_input_ok Y (pr_called p)" using "1.prems"(2) by blast
        moreover obtain instances where "call_instances plan (fst e) = Inr instances"
          using entry [OF e] by (auto simp: call_instances_def Let_def filter_empty_conv)
        ultimately show ?thesis
          using "1.IH" [OF calls v plan e _ p _ "1.prems"(2) c]
          by (auto simp: link_result_ok_def linked_plan_ok_def)
      qed
      note jobs = compile_placeholders_ok [OF plan root(1)]
      have "no_fault (?loop plan)"
        by (rule link_calls_ok(1) [OF jobs "1.prems"(3)]) (fact entry, fact rec)
      moreover have "expansions_ok (plan_jobs plan) (fst state) \<and> called_ok (snd state) \<and>
          fst ` set ?calls \<subseteq> fst ` set (fst state)" if "?loop plan = Inr state" for state
        by (rule link_calls_ok(2) [OF jobs "1.prems"(3) _ _ that]) (fact entry, fact rec)
      ultimately show ?thesis by blast
    qed
    have replace: "\<exists>linked. foldE (link_job ?calls) ([], {}, fst state) (plan_jobs plan) = Inr linked \<and>
        plan_closed (fst linked) \<and> links (fst ` set ?calls) (plan_jobs plan) (fst linked)"
      if "compile Y parse ?root path = Inr plan" "expansions_ok (plan_jobs plan) (fst state)"
        "fst ` set ?calls \<subseteq> fst ` set (fst state)" for plan state
      using replaced_plan_ok [OF compile_placeholders_ok [OF that(1) root(1)] that(2,3)] by force
    have fault: "no_fault (foldE (link_job ?calls) ([], {}, fst state) (plan_jobs plan))"
      if "compile Y parse ?root path = Inr plan" "?loop plan = Inr state"
        "foldE (\<lambda>_ (job_id, call). validate_reusable_call_job (wf_name workflow) job_id call) ()
          ?calls = Inr u" for plan state u
    proof -
      have "expansions_ok (plan_jobs plan) (fst state)" "fst ` set ?calls \<subseteq> fst ` set (fst state)"
        using loop [OF that(3,1)] that(2) by blast+
      from replace [OF that(1) this] show ?thesis by auto
    qed
    have "no_fault ?run"
      unfolding compile_linked_workflow_calls [OF calls]
    proof (intro no_fault_bindE no_fault_compile [OF root(2)] no_fault_validate_dependencies no_fault_Inr)
      show "no_fault (foldE (\<lambda>_ (job_id, call). validate_reusable_call_job (wf_name workflow) job_id call)
          () ?calls)"
        by (rule no_fault_foldE [where P = "\<lambda>_. True"]) (simp_all add: case_prod_unfold)
    qed (use loop fault in blast)+
    moreover have "link_result_ok Y parse workflow path r" if "?run = Inr r" for r
    proof -
      from that obtain u plan state linked where run:
        "foldE (\<lambda>_ (job_id, call). validate_reusable_call_job (wf_name workflow) job_id call) () ?calls = Inr u"
        "compile Y parse ?root path = Inr plan" "?loop plan = Inr state"
        "foldE (link_job ?calls) ([], {}, fst state) (plan_jobs plan) = Inr linked"
        "validate_dependencies (plan_workflow_name plan) (fst linked) = Inr ()"
        and r: "plan_jobs (fst r) = fst linked" "snd r = snd state"
        unfolding compile_linked_workflow_calls [OF calls] by (auto simp: bindE_Inr)
      have state: "expansions_ok (plan_jobs plan) (fst state)" "called_ok (snd state)"
          "fst ` set ?calls \<subseteq> fst ` set (fst state)" using loop [OF run(1,2)] run(3) by blast+
      from replace [OF run(2) state(1,3)] run(4) validate_dependencies_sound [OF run(5)] run(2) state(2) r
      show ?thesis by (auto simp: link_result_ok_def linked_plan_ok_def)
    qed
    ultimately show ?thesis by blast
  qed
qed

section \<open>Example workflows\<close>

definition sample_call_job :: "string list \<Rightarrow> yaml_value option \<Rightarrow> job" where
  "sample_call_job needs strategy = (sample_file_job needs strategy)
    \<lparr>job_runs_on := None, job_steps := [], job_uses := Some ''./.github/workflows/deploy.yml''\<rparr>"

definition calling_workflow :: workflow where
  "calling_workflow = sample_workflow
    [(''build'', sample_file_job [] None), (''ship'', sample_call_job [''build''] (Some sample_strategy))]"

definition called_workflow :: workflow where
  "called_workflow = (sample_workflow [(''deploy'', sample_file_job [] None)])
    \<lparr>wf_trigger := YString ''workflow_call''\<rparr>"

definition sample_reusables :: "(string \<times> workflow) list" where
  "sample_reusables = [(''.github/workflows/deploy.yml'', called_workflow)]"

lemma calling_workflow_links:
  "\<exists>plan. compile_with_reusables plain_yaml (parse_source toy_api) calling_workflow ''ci.yml'' sample_reusables =
      Inr plan \<and>
    map planned_id (plan_jobs plan) =
      [''build'', ''ship::matrix-1::gate'', ''ship::matrix-1::deploy'', ''ship::matrix-1'',
       ''ship::matrix-2::gate'', ''ship::matrix-2::deploy'', ''ship::matrix-2'', ''ship'']"
proof -
  have "case compile_with_reusables plain_yaml (parse_source toy_api) calling_workflow ''ci.yml''
      sample_reusables of
      Inl _ \<Rightarrow> False
    | Inr plan \<Rightarrow> map planned_id (plan_jobs plan) =
      [''build'', ''ship::matrix-1::gate'', ''ship::matrix-1::deploy'', ''ship::matrix-1'',
       ''ship::matrix-2::gate'', ''ship::matrix-2::deploy'', ''ship::matrix-2'', ''ship'']"
    by code_simp
  then show ?thesis by (auto split: sum.splits)
qed

definition empty_matrix_workflow :: workflow where
  "empty_matrix_workflow = sample_workflow
    [(''ship'', sample_call_job [] (Some (YMapping [(YString ''matrix'',
      YMapping [(YString ''os'', YSequence [YString ''a'']),
        (YString ''exclude'', YSequence [YMapping [(YString ''os'', YString ''a'')]])])])))]"

lemma sample_inputs_ok:
  "link_input_ok plain_yaml calling_workflow" "\<forall>w\<in>snd ` set sample_reusables. link_input_ok plain_yaml w"
proof -
  have instances: "calls_have_instances plain_yaml calling_workflow"
  proof -
    have calls: "call_jobs calling_workflow = [(''ship'', sample_call_job [''build''] (Some sample_strategy))]"
      by (simp add: call_jobs_def calling_workflow_def sample_workflow_def sample_call_job_def sample_file_job_def)
    have "mp_combinations m \<noteq> []"
      if "expand_matrix plain_yaml name ''ship'' (Some sample_strategy) = Inr m" for name m
    proof -
      have "case expand_matrix plain_yaml name ''ship'' (Some sample_strategy) of
          Inl _ \<Rightarrow> True | Inr m \<Rightarrow> mp_combinations m \<noteq> []" by code_simp
      with that show ?thesis by simp
    qed
    then show ?thesis
      by (simp add: calls_have_instances_def calls sample_call_job_def sample_file_job_def)
  qed
  have "bt_wf (wf_jobs calling_workflow)" "workflow_strings_ok calling_workflow" by code_simp+
  with instances show "link_input_ok plain_yaml calling_workflow" by (simp add: link_input_ok_def)
  have "bt_wf (wf_jobs called_workflow)" "workflow_strings_ok called_workflow" by code_simp+
  moreover have "call_jobs called_workflow = []"
    by (simp add: call_jobs_def called_workflow_def sample_workflow_def sample_file_job_def)
  ultimately show "\<forall>w\<in>snd ` set sample_reusables. link_input_ok plain_yaml w"
    by (simp add: sample_reusables_def link_input_ok_def calls_have_instances_def)
qed

section \<open>Properties of the linker\<close>

lemma compile_with_reusables_ok:
  assumes "link_input_ok Y workflow" "\<forall>w\<in>snd ` set reusables. link_input_ok Y w"
  shows "no_fault (compile_with_reusables Y parse workflow path reusables)"
    and "compile_with_reusables Y parse workflow path reusables = Inr plan \<Longrightarrow>
      linked_plan_ok (plan_jobs plan) \<and>
      (\<exists>p. compile Y parse (placeholder_workflow workflow) path = Inr p \<and>
        links (fst ` set (call_jobs workflow)) (plan_jobs p) (plan_jobs plan))"
proof -
  have "called_ok []" by (simp add: called_ok_def bs_wf_def)
  note ok = compile_linked_ok [OF assms this, of parse path "[]" 1]
  then show "no_fault (compile_with_reusables Y parse workflow path reusables)"
    unfolding compile_with_reusables_def by (auto intro: no_fault_bindE)
  assume "compile_with_reusables Y parse workflow path reusables = Inr plan"
  with ok show "linked_plan_ok (plan_jobs plan) \<and>
      (\<exists>p. compile Y parse (placeholder_workflow workflow) path = Inr p \<and>
        links (fst ` set (call_jobs workflow)) (plan_jobs p) (plan_jobs plan))"
    by (auto simp: compile_with_reusables_def bindE_Inr link_result_ok_def)
qed





text \<open>
  The expansion of one call succeeds on every closed plan and consists of a gate, one
  job per job of the called plan, and a result under the id of the call. Each called job
  needs the gate and intersects its permissions with those of the calling job, and all
  references stay within the expansion and the dependencies of the calling job.
\<close>

theorem expand_reusable_call_safe:
  assumes "plan_closed (plan_jobs called_plan)" and "virtual_job placeholder = None"
  shows "\<exists>gate called result.
    expand_reusable_call job_id placeholder called_plan inputs secrets outputs = Inr (gate # called @ [result]) \<and>
    expansion_ok job_id (job_refs placeholder) (pj_permissions (job_core placeholder)) (gate # called @ [result]) \<and>
    planned_base_id result = job_id \<and>
    list_all2 (called_job_ok (new_invocation job_id (job_core placeholder) called_plan inputs secrets))
      (plan_jobs called_plan) called"
proof -
  from expand_reusable_call_total [OF assms(1) subset_refl assms(2), of job_id inputs secrets outputs]
  show ?thesis by metis
qed

theorem expand_reusable_call_safe_witness:
  "\<exists>plan gate called result. compile plain_yaml (parse_source toy_api) two_job_workflow ''ci.yml'' = Inr plan \<and>
    length called = 3 \<and>
    expand_reusable_call ''call'' (sample_job ''call'' []) plan [] \<lparr>rss_inherit = False, rss_mappings = [],
      rss_required = []\<rparr> [] = Inr (gate # called @ [result])"
proof -
  obtain plan where plan: "compile plain_yaml (parse_source toy_api) two_job_workflow ''ci.yml'' = Inr plan"
      "length (map planned_id (plan_jobs plan)) = 3"
    using two_job_workflow_compiles by force
  have "bt_wf (wf_jobs two_job_workflow)" by code_simp
  then have closed: "plan_closed (plan_jobs plan)"
    using compile_plan_closed [OF plan(1)] by (simp add: linked_plan_ok_def)
  have "virtual_job (sample_job ''call'' []) = None" by (simp add: sample_job_def)
  from expand_reusable_call_safe [OF closed this] plan show ?thesis
    by (fastforce dest: list_all2_lengthD)
qed


section \<open>Bounds on the nesting of calls\<close>

text \<open>The workflows a linked workflow calls are known, not on the call stack, and recorded.\<close>

definition calls_bounded ::
  "workflow \<Rightarrow> (string \<times> workflow) list \<Rightarrow> string list \<Rightarrow> nat \<Rightarrow> bool"
where
  "calls_bounded workflow reusables stack level \<longleftrightarrow>
    (\<forall>(job_id, call)\<in>set (call_jobs workflow). level < MAX_REUSABLE_WORKFLOW_LEVELS \<and>
      (\<exists>uses path. job_uses call = Some uses \<and>
        reusable_path (wf_name workflow) job_id uses reusables = Inr path \<and>
        path \<notin> set stack \<and> path \<in> fst ` set reusables))"

lemma prepare_call_bounded:
  assumes "prepare_call Y name reusables stack level called (job_id, call) = Inr p"
  shows "level < MAX_REUSABLE_WORKFLOW_LEVELS \<and> (\<exists>uses path. job_uses call = Some uses \<and>
    reusable_path name job_id uses reusables = Inr path \<and> path \<notin> set stack \<and> path \<in> fst ` set reusables)"
proof -
  have "\<And>k v. map_of reusables k = Some v \<Longrightarrow> k \<in> fst ` set reusables"
    by (force dest: map_of_SomeD)
  with assms show ?thesis by (auto simp: prepare_call_def Let_def result_simps)
qed

lemma compile_linked_bounded:
  assumes "compile_linked_workflow Y parse workflow path reusables stack called level = Inr r"
  shows "calls_bounded workflow reusables stack level"
proof (cases "call_jobs workflow = []")
  case calls: False
  let ?rec = "\<lambda>p. compile_linked_workflow Y parse (pr_called p) (pr_path p) reusables
    (stack @ [pr_path p]) (pr_called_workflows p) (level + 1)"
  from assms obtain plan state where loop:
    "foldE (link_call Y (wf_name workflow) reusables stack level plan ?rec) ([], called) (call_jobs workflow) =
      Inr state"
    unfolding compile_linked_workflow_calls [OF calls] by (auto simp: bindE_Inr)
  let ?Q = "\<lambda>x (_ :: link_state). \<exists>called p. prepare_call Y (wf_name workflow) reusables stack level called x = Inr p"
  have "True \<and> (\<forall>x\<in>set (call_jobs workflow). ?Q x state)"
    by (rule foldE_reaches [OF loop]) (auto simp: link_call_def bindE_Inr)
  then show ?thesis
    unfolding calls_bounded_def using prepare_call_bounded by fastforce
qed (simp add: calls_bounded_def)

lemma called_workflows_bounded:
  assumes "compile_linked_workflow Y parse workflow path reusables stack called level = Inr r" "called_ok called"
  shows "called_ok (snd r) \<and> set called \<subseteq> set (snd r)"
  using assms
proof (induction Y parse workflow path reusables stack called level arbitrary: r
    rule: compile_linked_workflow.induct)
  case (1 Y parse workflow path reusables stack called level)
  show ?case
  proof (cases "call_jobs workflow = []")
    case True
    with "1.prems" show ?thesis
      by (auto simp: compile_linked_workflow.simps [of Y parse workflow] result_simps)
  next
    case calls: False
    let ?rec = "\<lambda>p. compile_linked_workflow Y parse (pr_called p) (pr_path p) reusables
      (stack @ [pr_path p]) (pr_called_workflows p) (level + 1)"
    from "1.prems"(1) obtain u plan state where run:
      "foldE (\<lambda>_ (job_id, call). validate_reusable_call_job (wf_name workflow) job_id call) ()
        (call_jobs workflow) = Inr u" "compile Y parse (placeholder_workflow workflow) path = Inr plan"
      and loop: "foldE (link_call Y (wf_name workflow) reusables stack level plan ?rec) ([], called)
        (call_jobs workflow) = Inr state" and r: "snd r = snd state"
      unfolding compile_linked_workflow_calls [OF calls] by (auto simp: bindE_Inr)
    let ?P = "\<lambda>s :: link_state. called_ok (snd s) \<and> set called \<subseteq> set (snd s)"
    have "?P state"
    proof (rule foldE_invariant [OF loop, where P = ?P])
      show "?P ([], called)" using "1.prems"(2) by simp
    next
      fix s x s' assume x: "x \<in> set (call_jobs workflow)" and s: "?P s"
        and "link_call Y (wf_name workflow) reusables stack level plan ?rec s x = Inr s'"
      then obtain i p q where step: "call_instances plan (fst x) = Inr i"
        "prepare_call Y (wf_name workflow) reusables stack level (snd s) x = Inr p"
        "?rec p = Inr q" "snd s' = snd q"
        by (auto simp: link_call_def bindE_Inr)
      note p = prepare_call_result [of Y "wf_name workflow" reusables stack level "snd s" "fst x" "snd x" p,
          simplified, OF step(2)]
      have "called_ok (pr_called_workflows p)" "set (snd s) \<subseteq> set (pr_called_workflows p)"
        using p(2,3) s by (auto simp: called_ok_def bs_wf_insert)
      with "1.IH" [OF calls run(1,2) x step(1,2,3)] s step(4) show "?P s'" by auto
    qed
    then show ?thesis by (simp add: r)
  qed
qed

text \<open>
  C26. Linking that succeeds respects the limits of the code: a workflow at the tenth level
  has no calls, every call names a resolved workflow that is not already on the call stack,
  and the set of workflows called so far stays sorted, without duplicates and at most 50
  long, growing from call to call.
\<close>

theorem linking_bounded:
  assumes "compile_linked_workflow Y parse workflow path reusables stack called level = Inr (plan, called')"
    and "called_ok called"
  shows "calls_bounded workflow reusables stack level \<and>
    (level \<ge> MAX_REUSABLE_WORKFLOW_LEVELS \<longrightarrow> call_jobs workflow = []) \<and>
    called_ok called' \<and> set called \<subseteq> set called'"
proof -
  have b: "calls_bounded workflow reusables stack level" using compile_linked_bounded [OF assms(1)] .
  then have "level \<ge> MAX_REUSABLE_WORKFLOW_LEVELS \<longrightarrow> call_jobs workflow = []"
    by (cases "call_jobs workflow") (auto simp: calls_bounded_def)
  with b called_workflows_bounded [OF assms] show ?thesis by simp
qed

theorem linking_bounded_witness:
  "\<exists>plan called. compile_linked_workflow plain_yaml (parse_source toy_api) calling_workflow ''ci.yml''
      sample_reusables [] [] 1 = Inr (plan, called) \<and>
    calls_bounded calling_workflow sample_reusables [] 1 \<and> called_ok called"
proof -
  obtain plan called where run: "compile_linked_workflow plain_yaml (parse_source toy_api) calling_workflow
      ''ci.yml'' sample_reusables [] [] 1 = Inr (plan, called)"
    using calling_workflow_links by (auto simp: compile_with_reusables_def bindE_Inr)
  have "called_ok []" by (simp add: called_ok_def bs_wf_def)
  from linking_bounded [OF run this] run show ?thesis by blast
qed

section \<open>Dynamic matrices of calls\<close>

text \<open>
  At run time a dynamic matrix of calls expands, for every list of instances of the
  template, without a panic into jobs that refer only to each other and to the template's
  dependencies, within the template's permissions, with the matrix result under the
  template's base id.
\<close>

theorem expand_dynamic_reusable_call_safe:
  assumes "plan_closed (plan_jobs (dc_called_plan call))"
    and "\<forall>p\<in>set instances. job_refs p \<subseteq> B \<and> virtual_job p = None \<and>
      within_permissions (pj_permissions (job_core template)) p"
  shows "\<exists>js. expand_dynamic_reusable_call template instances call = Inr js \<and>
    expansion_ok (planned_base_id template) B (pj_permissions (job_core template)) js"
proof -
  let ?b = "planned_base_id template" and ?max = "pj_permissions (job_core template)"
  obtain js where js: "expand_invocations ?b instances (dc_called_plan call) (dc_inputs call) (dc_secrets call)
      (dc_outputs call) = Inr js"
      "set (invocation_names ?b instances) \<subseteq> base_ids js"
      "\<forall>j\<in>set js. closed_in (B \<union> base_ids js) j \<and> within_permissions ?max j"
    using expand_invocations_total [OF assms(1), of instances B ?max] assms(2) by blast
  have "within_permissions ?max template" by (simp add: within_permissions_def)
  from with_matrix_result [OF js(2,3) this, of ?b] js(1) show ?thesis
    by (simp add: expand_dynamic_reusable_call_def)
qed

theorem expand_dynamic_reusable_call_safe_witness:
  "\<exists>js. expand_dynamic_reusable_call (sample_job ''call'' []) [sample_job ''call'' [], sample_job ''call'' []]
      (PlannedDynamicReusableCall (ExecutionPlan ''w'' ''w.yml'' None [sample_job ''a'' []]) []
        \<lparr>rss_inherit = False, rss_mappings = [], rss_required = []\<rparr> []) = Inr js \<and>
    expansion_ok ''call'' {} (pj_permissions (job_core (sample_job ''call'' []))) js"
proof -
  have refs: "job_refs (sample_job name []) = {}" "virtual_job (sample_job name []) = None" for name
    by (simp_all add: job_refs_def sample_job_def)
  have "plan_closed [sample_job ''a'' []]"
    by (simp add: plan_closed_def closed_in_def refs id_extends_refl)
  then show ?thesis
    using expand_dynamic_reusable_call_safe [of "PlannedDynamicReusableCall (ExecutionPlan ''w'' ''w.yml'' None
        [sample_job ''a'' []]) [] \<lparr>rss_inherit = False, rss_mappings = [], rss_required = []\<rparr> []"
        "[sample_job ''call'' [], sample_job ''call'' []]" "{}" "sample_job ''call'' []"]
    by (simp add: refs within_permissions_def)
qed

end
