(* ===== verification/Scheduling.thy ===== *)
theory Scheduling
  imports Scheduler Linking
begin

text \<open>
  The scheduler makes progress: the state after every turn keeps the invariant of
  \<open>Scheduler\<close>, a plan without a cycle is never stuck, and the loop ends.
\<close>

section \<open>The end of a job\<close>

lemma skip_bases:
  "sc_pending (fold skip_base bs s) = sc_pending s - set bs"
  "concluded (fold skip_base bs s) = concluded s \<union> (sc_pending s \<inter> set bs)"
  "sc_running (fold skip_base bs s) = sc_running s" "sc_jobs (fold skip_base bs s) = sc_jobs s"
  "sc_base_order (fold skip_base bs s) = sc_base_order s" "sc_matrices (fold skip_base bs s) = sc_matrices s"
  "sc_cancellation_error (fold skip_base bs s) = sc_cancellation_error s"
  "bt_wf (sc_completed_bases s) \<Longrightarrow> bt_wf (sc_completed_bases (fold skip_base bs s))"
proof (induction bs arbitrary: s)
  case (Cons b bs)
  {
    case 1
    show ?case using Cons.IH(1) [of "skip_base b s"] by (auto simp: skip_base_def complete_base_def)
  next
    case 2
    show ?case
      using Cons.IH(2) [of "skip_base b s"] by (auto simp: skip_base_def complete_base_def)
  next
    case 3
    show ?case using Cons.IH(3) [of "skip_base b s"] by (simp add: skip_base_def complete_base_def)
  next
    case 4
    show ?case using Cons.IH(4) [of "skip_base b s"] by (simp add: skip_base_def complete_base_def)
  next
    case 5
    show ?case using Cons.IH(5) [of "skip_base b s"] by (simp add: skip_base_def complete_base_def)
  next
    case 6
    show ?case using Cons.IH(6) [of "skip_base b s"] by (simp add: skip_base_def complete_base_def)
  next
    case 7
    show ?case using Cons.IH(7) [of "skip_base b s"] by (simp add: skip_base_def complete_base_def)
  next
    case 8
    then show ?case using Cons.IH(8) [of "skip_base b s"] by (simp add: skip_base_def complete_base_def bt_wf_insert)
  }
qed simp_all

text \<open>
  The states between a conclusion and the end of the skipping it causes: matrices, running jobs
  and errors are those of the beginning, and the conclusion \<open>w\<close> stays.
\<close>

definition skipping :: "planned_job list \<Rightarrow> string \<Rightarrow> sched \<Rightarrow> sched \<Rightarrow> bool" where
  "skipping jobs w s0 s \<longleftrightarrow> sched_base jobs s \<and> (sc_cancellation_error s0 = None \<longrightarrow> sched_groups jobs s) \<and>
    sc_matrices s = sc_matrices s0 \<and> sc_running s = sc_running s0 \<and>
    sc_cancellation_error s = sc_cancellation_error s0 \<and> w \<in> concluded s \<and> sc_pending s \<subseteq> sc_pending s0"

lemma skip_invocation_Inr:
  assumes "skip_invocation name i closed s k = Inr t"
  obtains r where "t = fold skip_base (filter (inside k) (sc_base_order s)) (s\<lparr>sc_skip_reports := r\<rparr>)"
proof (cases "gate_report name i (invocation_gate k) s")
  case None
  then show ?thesis using assms that [of "sc_skip_reports s"] by (simp add: skip_invocation_def)
next
  case (Some report)
  then show ?thesis
    using assms that [of "sc_skip_reports s @ [report]"] by (simp add: skip_invocation_def split: if_splits)
qed

lemma skip_invocation_no_panic: "skip_invocation name i closed s k \<noteq> Inl AgentPanic"
  by (auto simp: skip_invocation_def result_simps split: option.splits if_splits)

lemma skip_invocation_skipping:
  assumes s: "skipping jobs w s0 s" and nested: "groups_nested jobs"
    and h: "(key, h) \<in> set (sc_matrices s0)" "k \<in> set (mr_invocations h)" "k \<notin> mr_started h" "w \<in> set (mr_invocations h)"
    and t: "skip_invocation name i closed s k = Inr t"
  shows "skipping jobs w s0 t \<and> concluded s \<subseteq> concluded t \<and>
    (sc_cancellation_error s0 = None \<longrightarrow> {b \<in> base_ids jobs. inside k b} \<subseteq> concluded t)"
proof -
  define X where "X = {b \<in> base_ids jobs. inside k b}"
  obtain r where r: "t = fold skip_base (filter (inside k) (sc_base_order s)) (s\<lparr>sc_skip_reports := r\<rparr>)"
    using skip_invocation_Inr [OF t] by blast
  have base: "sched_base jobs s" and frame: "sc_matrices s = sc_matrices s0" "sc_running s = sc_running s0"
      "sc_cancellation_error s = sc_cancellation_error s0" "w \<in> concluded s" "sc_pending s \<subseteq> sc_pending s0"
    and groups: "sc_cancellation_error s0 = None \<Longrightarrow> sched_groups jobs s"
    using s unfolding skipping_def by (elim conjE; blast)+
  note D = sched_baseD [OF base]
  have X: "set (filter (inside k) (sc_base_order s)) = X" using D(3) by (auto simp: X_def)
  have t_sets: "sc_pending t = sc_pending s - X" "concluded t = concluded s \<union> (sc_pending s \<inter> X)"
    and t_frame: "sc_running t = sc_running s" "sc_jobs t = sc_jobs s" "sc_base_order t = sc_base_order s"
      "sc_matrices t = sc_matrices s" "sc_cancellation_error t = sc_cancellation_error s"
    unfolding r skip_bases X by simp_all
  have wf: "bt_wf (sc_completed_bases t)" unfolding r by (rule skip_bases(8)) (use D(4) in simp)
  have t_base: "sched_base jobs t"
    unfolding sched_base_def t_frame t_sets
  proof (intro conjI D(1-3,6,8,11,12) wf)
    show "sc_pending s - X \<subseteq> base_ids jobs" "concluded s \<union> sc_pending s \<inter> X \<subseteq> base_ids jobs"
      "(sc_pending s - X) \<inter> (running_ids s \<union> (concluded s \<union> sc_pending s \<inter> X)) = {}"
      "running_ids s \<inter> (concluded s \<union> sc_pending s \<inter> X) = {}"
      using D(5,7,9,10) by blast+
  qed
  have "sched_groups jobs t \<and> X \<subseteq> concluded t" if none: "sc_cancellation_error s0 = None"
  proof -
    note G = groups [OF none]
    have h_inv: "group_inv (base_ids jobs) (running_ids s) (concluded s) h"
      using sched_groupsD(2) [OF G] h(1) frame(1) by simp
    have either: "X \<subseteq> concluded s \<or> X \<subseteq> sc_pending s \<and> X \<inter> (running_ids s \<union> concluded s) = {}"
      unfolding X_def using skip_inside [OF h_inv h(2,3) sched_groupsD(1) [OF G]] .
    then have X_done: "X \<subseteq> concluded t" unfolding t_sets by blast
    obtain h0 where h0: "(key, h0) \<in> set (reusable_matrix_runtimes jobs)" "mr_invocations h = mr_invocations h0"
      using same_groups_member [OF D(12)] h(1) frame(1) by metis
    have "group_inv (base_ids jobs) (running_ids s) (concluded t) g" if g: "(key', g) \<in> set (sc_matrices s)" for key' g
    proof (cases "X \<subseteq> concluded s")
      case True
      then have "concluded t = concluded s" unfolding t_sets using D(9) by blast
      then show ?thesis using sched_groupsD(2) [OF G g] by simp
    next
      case False
      then have part: "X \<subseteq> sc_pending s" "X \<inter> (running_ids s \<union> concluded s) = {}" using either by blast+
      then have "concluded t = concluded s \<union> X" unfolding t_sets by blast
      moreover have "running_ids s \<union> concluded s \<subseteq> base_ids jobs" using D(6,7) by blast
      ultimately show ?thesis
        using group_inv_skip [OF sched_groupsD(2) [OF G g] nested refl same_groups_names [OF D(12) g] h0 h(2,4) frame(4)
          _ X_def part(2)] by simp
    qed
    moreover have "base_ids jobs \<subseteq> sc_pending t \<union> running_ids t \<union> concluded t"
      using sched_groupsD(1) [OF G] unfolding t_sets t_frame by blast
    ultimately show ?thesis using X_done unfolding sched_groups_def t_frame by auto
  qed
  then show ?thesis
    using t_base frame unfolding skipping_def t_frame t_sets X_def [symmetric] by auto
qed

lemma skip_group_skipping:
  assumes s: "skipping jobs w s0 s" and nested: "groups_nested jobs"
    and h: "(key, h) \<in> set (sc_matrices s0)" "bt_get (sc_matrices s0) key = Some h" "w \<in> set (mr_invocations h)"
    and t: "skip_group name i closed s key = Inr t"
  shows "skipping jobs w s0 t \<and> concluded s \<subseteq> concluded t \<and>
    (sc_cancellation_error s0 = None \<longrightarrow>
      (\<forall>k\<in>set (mr_invocations h) - mr_started h. {b \<in> base_ids jobs. inside k b} \<subseteq> concluded t))"
proof -
  let ?ks = "filter (\<lambda>k. k \<notin> mr_started h) (mr_invocations h)"
  let ?P = "\<lambda>t. skipping jobs w s0 t \<and> concluded s \<subseteq> concluded t"
  let ?Q = "\<lambda>k t. sc_cancellation_error s0 = None \<longrightarrow> {b \<in> base_ids jobs. inside k b} \<subseteq> concluded t"
  have "bt_get (sc_matrices s) key = Some h" using s h(2) by (simp add: skipping_def)
  then have run: "foldE (skip_invocation name i closed) s ?ks = Inr t"
    using t by (simp add: skip_group_def ok_or_def)
  have "?P t \<and> (\<forall>k\<in>set ?ks. ?Q k t)"
  proof (rule foldE_reaches [OF run, of ?P ?Q])
    fix u k u' assume "k \<in> set ?ks" "?P u" "skip_invocation name i closed u k = Inr u'"
    then show "?P u' \<and> ?Q k u'" using skip_invocation_skipping [of jobs w s0 u key h k name i closed u'] nested h by auto
  next
    fix u k k' u' assume "k \<in> set ?ks" "?P u" "?Q k' u" "skip_invocation name i closed u k = Inr u'"
    then have "concluded u \<subseteq> concluded u'"
      using skip_invocation_skipping [of jobs w s0 u key h k name i closed u'] nested h by auto
    then show "?Q k' u'" using \<open>?Q k' u\<close> by (meson order_trans)
  qed (use s in simp)
  then show ?thesis by auto
qed

text \<open>The end of a job that ran: its conclusion, then the skipping of the matrices it failed.\<close>

lemma finish_groups_get:
  "map_of (map (\<lambda>(k, g). (k, f g)) G) k = map_option f (map_of G k)"
  by (induction G) auto

lemma runtimes_keys: "distinct (map fst (reusable_matrix_runtimes jobs))"
  unfolding reusable_matrix_runtimes_def by (rule bt_wf_distinct) simp

lemma same_groups_keys: "same_groups R G \<Longrightarrow> map fst R = map fst G"
  unfolding same_groups_def by (induction rule: list_all2_induct) auto

lemma complete_base_fields [simp]:
  "sc_jobs (complete_base b c v s) = sc_jobs s" "sc_base_order (complete_base b c v s) = sc_base_order s"
  "sc_pending (complete_base b c v s) = sc_pending s" "sc_running (complete_base b c v s) = sc_running s"
  "sc_matrices (complete_base b c v s) = sc_matrices s"
  "sc_cancellation_error (complete_base b c v s) = sc_cancellation_error s"
  "concluded (complete_base b c v s) = insert b (concluded s)"
  by (simp_all add: complete_base_def)

lemma remove_nth_ids:
  assumes "i < length bs" "distinct (map rb_base_id bs)"
  shows "rb_base_id ` set (remove_nth i bs) = rb_base_id ` set bs - {rb_base_id (bs ! i)}"
    "distinct (map rb_base_id (remove_nth i bs))" "set (remove_nth i bs) \<subseteq> set bs"
    "length (remove_nth i bs) = length bs - 1"
proof -
  have split: "bs = take i bs @ bs ! i # drop (Suc i) bs" using assms(1) by (rule id_take_nth_drop)
  have "distinct (map rb_base_id (take i bs @ bs ! i # drop (Suc i) bs))" using assms(2) split by simp
  moreover have "rb_base_id ` set bs = rb_base_id ` set (take i bs @ bs ! i # drop (Suc i) bs)" using split by simp
  ultimately show "rb_base_id ` set (remove_nth i bs) = rb_base_id ` set bs - {rb_base_id (bs ! i)}"
    "distinct (map rb_base_id (remove_nth i bs))"
    by (simp_all add: remove_nth_def image_Un)
  show "set (remove_nth i bs) \<subseteq> set bs" by (auto simp: remove_nth_def dest: in_set_takeD in_set_dropD)
  show "length (remove_nth i bs) = length bs - 1" using assms(1) by (simp add: remove_nth_def)
qed

text \<open>The state in which the skipping starts.\<close>

lemma conclude_base:
  assumes inv: "sched_inv jobs s" and i: "i < length (sc_running s)"
    and b: "b = rb_base_id (sc_running s ! i)"
    and s0: "s0 = (complete_base b c v (s\<lparr>sc_running := remove_nth i (sc_running s), sc_completed_steps := n\<rparr>))
      \<lparr>sc_matrices := map (\<lambda>(k, g). (k, finish_invocation b c g)) (sc_matrices s)\<rparr>"
  shows "skipping jobs b s0 s0"
proof -
  have base: "sched_base jobs s" using inv unfolding sched_inv_def by blast
  note D = sched_baseD [OF base] and R = remove_nth_ids [OF i D(8)]
  have b_in: "b \<in> running_ids s" using i b by simp
  have f: "sc_jobs s0 = sc_jobs s" "sc_base_order s0 = sc_base_order s" "sc_pending s0 = sc_pending s"
    "sc_running s0 = remove_nth i (sc_running s)" "concluded s0 = insert b (concluded s)"
    "sc_matrices s0 = map (\<lambda>(k, g). (k, finish_invocation b c g)) (sc_matrices s)"
    "sc_cancellation_error s0 = sc_cancellation_error s"
    "sc_completed_bases s0 = bt_insert b c (sc_completed_bases s)"
    unfolding s0 by (simp_all add: complete_base_def)
  have ids: "running_ids s0 = running_ids s - {b}" unfolding f(4) R(1) b ..
  have "sched_base jobs s0"
    unfolding sched_base_def ids unfolding f(1-7)
  proof (intro conjI D(1-3))
    show "bt_wf (sc_completed_bases s0)" unfolding f(8) by (rule bt_wf_insert [OF D(4)])
    show "sc_pending s \<subseteq> base_ids jobs" "running_ids s - {b} \<subseteq> base_ids jobs"
      "insert b (concluded s) \<subseteq> base_ids jobs"
      "sc_pending s \<inter> ((running_ids s - {b}) \<union> insert b (concluded s)) = {}"
      "(running_ids s - {b}) \<inter> insert b (concluded s) = {}"
      using D(5-7,9,10) b_in by blast+
    show "\<forall>b\<in>set (remove_nth i (sc_running s)). rb_jobs b = filter (\<lambda>j. planned_base_id j = rb_base_id b) jobs"
      using D(11) R(3) by blast
    show "same_groups (reusable_matrix_runtimes jobs) (map (\<lambda>(k, g). (k, finish_invocation b c g)) (sc_matrices s))"
      by (rule same_groups_map [OF D(12)]) simp_all
  qed (rule R(2))
  moreover have "sched_groups jobs s0" if "sc_cancellation_error s0 = None"
  proof -
    have G: "sched_groups jobs s" using inv that unfolding sched_inv_def f by blast
    have "group_inv (base_ids jobs) (running_ids s0) (concluded s0) (finish_invocation b c g)"
      if "(k, g) \<in> set (sc_matrices s)" for k g
      unfolding ids f(5) by (rule group_inv_finish [OF sched_groupsD(2) [OF G that] b_in])
    moreover have "base_ids jobs \<subseteq> sc_pending s0 \<union> running_ids s0 \<union> concluded s0"
      using sched_groupsD(1) [OF G] unfolding ids f(3,5) by blast
    ultimately show ?thesis unfolding sched_groups_def f(6) by auto
  qed
  ultimately show ?thesis by (simp add: skipping_def f(5))
qed

text \<open>Skipping all the matrices that a conclusion failed restores the invariant.\<close>

lemma skip_groups_inv:
  assumes s0: "skipping jobs b s0 s0" and nested: "groups_nested jobs"
    and failed: "\<And>k g. sc_cancellation_error s0 = None \<Longrightarrow> (k, g) \<in> set (sc_matrices s0) \<Longrightarrow>
      k \<notin> set failed_groups \<Longrightarrow> failed_skipped (base_ids jobs) (concluded s0) g"
    and members: "\<And>k. k \<in> set failed_groups \<Longrightarrow> \<exists>g. (k, g) \<in> set (sc_matrices s0) \<and> b \<in> set (mr_invocations g)"
  shows "foldE (skip_group name i closed) s0 failed_groups \<noteq> Inl AgentPanic"
    and "foldE (skip_group name i closed) s0 failed_groups = Inr t \<Longrightarrow>
      sched_inv jobs t \<and> sc_running t = sc_running s0 \<and> sc_pending t \<subseteq> sc_pending s0 \<and>
      sc_cancellation_error t = sc_cancellation_error s0"
proof -
  have dist: "distinct (map fst (sc_matrices s0))"
    using runtimes_keys [of jobs] same_groups_keys sched_baseD(12) s0 unfolding skipping_def by metis
  have get: "\<exists>g. (k, g) \<in> set (sc_matrices s0) \<and> bt_get (sc_matrices s0) k = Some g \<and> b \<in> set (mr_invocations g)"
    if "k \<in> set failed_groups" for k
    using members [OF that] dist by auto
  let ?P = "\<lambda>t. skipping jobs b s0 t \<and> concluded s0 \<subseteq> concluded t"
  let ?Q = "\<lambda>k t. sc_cancellation_error s0 = None \<longrightarrow>
    (\<forall>g. (k, g) \<in> set (sc_matrices s0) \<longrightarrow> failed_skipped (base_ids jobs) (concluded t) g)"
  have step: "?P u' \<and> ?Q k u' \<and> concluded u \<subseteq> concluded u'"
    if k: "k \<in> set failed_groups" and u: "?P u" "skip_group name i closed u k = Inr u'" for u k u'
  proof -
    obtain g where g: "(k, g) \<in> set (sc_matrices s0)" "bt_get (sc_matrices s0) k = Some g" "b \<in> set (mr_invocations g)"
      using get [OF k] by blast
    have "g' = g" if "(k, g') \<in> set (sc_matrices s0)" for g'
      using map_of_is_SomeI [OF dist that] g(2) by simp
    then show ?thesis
      using skip_group_skipping [OF conjunct1 [OF u(1)] nested g u(2)] u(1) unfolding failed_skipped_def by blast
  qed
  have safe: "skip_group name i closed u k \<noteq> Inl AgentPanic" if k: "k \<in> set failed_groups" and u: "?P u" for k u
  proof -
    obtain g where "bt_get (sc_matrices u) k = Some g" using get [OF k] u by (auto simp: skipping_def)
    then show ?thesis
      using foldE_Inl_invariant [of "skip_invocation name i closed" u _ AgentPanic "\<lambda>_. True"] skip_invocation_no_panic
      by (auto simp: skip_group_def ok_or_def)
  qed
  show "foldE (skip_group name i closed) s0 failed_groups \<noteq> Inl AgentPanic"
  proof
    assume "foldE (skip_group name i closed) s0 failed_groups = Inl AgentPanic"
    then have "\<exists>k\<in>set failed_groups. \<exists>u. ?P u \<and> skip_group name i closed u k = Inl AgentPanic"
    proof (rule foldE_Inl_invariant)
      show "?P s0" using s0 by simp
      fix u k u' assume "k \<in> set failed_groups" "?P u" "skip_group name i closed u k = Inr u'"
      then show "?P u'" by (rule step [THEN conjunct1])
    qed
    then show False using safe by blast
  qed
  assume t: "foldE (skip_group name i closed) s0 failed_groups = Inr t"
  have "?P t \<and> (\<forall>k\<in>set failed_groups. ?Q k t)"
  proof (rule foldE_reaches [OF t, of ?P ?Q])
    fix u k k' u' assume a: "k \<in> set failed_groups" "?P u" "?Q k' u" "skip_group name i closed u k = Inr u'"
    have "concluded u \<subseteq> concluded u'" using step [OF a(1,2,4)] by blast
    then show "?Q k' u'" using a(3) unfolding failed_skipped_def by blast
  next
    fix u k u' assume a: "k \<in> set failed_groups" "?P u" "skip_group name i closed u k = Inr u'"
    show "?P u' \<and> ?Q k u'"
      by (rule conjI [OF step [OF a, THEN conjunct1] step [OF a, THEN conjunct2, THEN conjunct1]])
  qed (use s0 in simp)
  then have P: "skipping jobs b s0 t" "concluded s0 \<subseteq> concluded t" and Q: "\<And>k. k \<in> set failed_groups \<Longrightarrow> ?Q k t"
    by blast+
  have "sched_failed jobs t" if none: "sc_cancellation_error s0 = None"
    unfolding sched_failed_def
  proof (intro ballI, clarify)
    fix k g assume "(k, g) \<in> set (sc_matrices t)"
    then have g: "(k, g) \<in> set (sc_matrices s0)" using P(1) by (simp add: skipping_def)
    show "failed_skipped (base_ids jobs) (concluded t) g"
    proof (cases "k \<in> set failed_groups")
      case True
      then show ?thesis using Q none g by blast
    next
      case False
      then show ?thesis using failed [OF none g] P(2) unfolding failed_skipped_def by blast
    qed
  qed
  then show "sched_inv jobs t \<and> sc_running t = sc_running s0 \<and> sc_pending t \<subseteq> sc_pending s0 \<and>
      sc_cancellation_error t = sc_cancellation_error s0"
    using P(1) unfolding skipping_def sched_inv_def by auto
qed

section \<open>A turn of the loop\<close>

abbreviation no_progress :: agent_failure where
  "no_progress \<equiv> Bail ''workflow job dependency graph could not make progress''"

text \<open>
  Jobs neither panic nor report the scheduler's own error, and the cancellation of a run is
  never taken back.
\<close>

definition event_ok :: "turn_event \<Rightarrow> bool" where
  "event_ok ev \<longleftrightarrow> ev_result ev \<noteq> Inl AgentPanic \<and> ev_result ev \<noteq> Inl no_progress \<and>
    (ev_cancelled ev \<longrightarrow> ev_cancelled_after ev)"

text \<open>Neither a panic nor the scheduler's own error is ever remembered.\<close>

definition error_kept :: "sched \<Rightarrow> bool" where
  "error_kept s \<longleftrightarrow> sc_cancellation_error s \<noteq> Some AgentPanic \<and> sc_cancellation_error s \<noteq> Some no_progress"

lemma static_result:
  assumes "no_dynamic_calls jobs" "rb_jobs b = filter P jobs"
  shows "running_result ev b = Inr e \<Longrightarrow> be_base_id e = rb_base_id b \<and> be_expanded_jobs e = []"
    and "running_result ev b = Inl AgentPanic \<Longrightarrow> ev_result ev = Inl AgentPanic"
    and "ev_result ev = Inr r \<Longrightarrow> \<exists>e. running_result ev b = Inr e"
    and "running_result ev b = Inl x \<Longrightarrow> ev_result ev = Inl x"
proof -
  have "dynamic_call (rb_jobs b) = None"
  proof (cases "rb_jobs b")
    case (Cons j js)
    then have "j \<in> set jobs" using assms(2) by (metis filter_is_subset list.set_intros(1) subset_iff)
    then have "dynamic_call [j] = None" using assms(1) by (simp add: no_dynamic_calls_def list_all_iff)
    then show ?thesis unfolding Cons by (cases "[j]" rule: dynamic_call.cases) auto
  qed simp
  then have g: "group_result ev b = bindE (ev_result ev) (\<lambda>(conclusion, steps, outputs).
        Inr \<lparr>be_base_id = rb_base_id b, be_conclusion = conclusion, be_completed_steps = steps,
          be_outputs = outputs, be_expanded_jobs = []\<rparr>)"
    by (simp add: group_result_def)
  show "running_result ev b = Inr e \<Longrightarrow> be_base_id e = rb_base_id b \<and> be_expanded_jobs e = []"
    "running_result ev b = Inl AgentPanic \<Longrightarrow> ev_result ev = Inl AgentPanic"
    "ev_result ev = Inr r \<Longrightarrow> \<exists>e. running_result ev b = Inr e"
    "running_result ev b = Inl x \<Longrightarrow> ev_result ev = Inl x"
    unfolding running_result_def g
    by (cases "ev_result ev"; auto split: sum.splits agent_failure.splits if_splits prod.splits)+
qed

lemma finish_base_inv:
  assumes inv: "sched_inv jobs s" and nested: "groups_nested jobs" and i: "i < length (sc_running s)"
    and e: "be_base_id e = rb_base_id (sc_running s ! i)" "be_expanded_jobs e = []"
  shows "finish_base name n closed e (s\<lparr>sc_running := remove_nth i (sc_running s)\<rparr>) \<noteq> Inl AgentPanic"
    and "finish_base name n closed e (s\<lparr>sc_running := remove_nth i (sc_running s)\<rparr>) = Inr t \<Longrightarrow>
      sched_inv jobs t \<and> sc_running t = remove_nth i (sc_running s) \<and> sc_pending t \<subseteq> sc_pending s \<and>
      sc_cancellation_error t = sc_cancellation_error s"
proof -
  let ?b = "be_base_id e" and ?c = "be_conclusion e"
  define s0 where "s0 = (complete_base ?b ?c (be_outputs e)
      (s\<lparr>sc_running := remove_nth i (sc_running s), sc_completed_steps := sc_completed_steps s + be_completed_steps e\<rparr>))
      \<lparr>sc_matrices := map (\<lambda>(k, g). (k, finish_invocation ?b ?c g)) (sc_matrices s)\<rparr>"
  define failed_groups where "failed_groups = map fst (filter (\<lambda>(_, g). fails_group ?b ?c g) (sc_matrices s))"
  have eq: "finish_base name n closed e (s\<lparr>sc_running := remove_nth i (sc_running s)\<rparr>) =
      foldE (skip_group name n closed) s0 failed_groups"
    by (simp add: finish_base_def Let_def e(2) finish_reusable_matrix_invocation_def s0_def failed_groups_def)
  have f: "sc_running s0 = remove_nth i (sc_running s)" "sc_pending s0 = sc_pending s"
    "sc_cancellation_error s0 = sc_cancellation_error s"
    "sc_matrices s0 = map (\<lambda>(k, g). (k, finish_invocation ?b ?c g)) (sc_matrices s)"
    "concluded s0 = insert ?b (concluded s)"
    by (simp_all add: s0_def complete_base_def)
  have skip: "skipping jobs ?b s0 s0" by (rule conclude_base [OF inv i e(1) s0_def])
  have kept: "failed_skipped (base_ids jobs) (concluded s0) g'"
    if none: "sc_cancellation_error s0 = None" and g': "(k, g') \<in> set (sc_matrices s0)" "k \<notin> set failed_groups" for k g'
  proof -
    obtain g where g: "(k, g) \<in> set (sc_matrices s)" "g' = finish_invocation ?b ?c g" using g'(1) f(4) by auto
    have "\<not> fails_group ?b ?c g" using g'(2) g(1) by (force simp: failed_groups_def)
    moreover have "failed_skipped (base_ids jobs) (concluded s) g"
      using inv none g(1) unfolding sched_inv_def sched_failed_def f(3) by blast
    ultimately show ?thesis unfolding failed_skipped_def g(2) f(5) finish_invocation_fields by blast
  qed
  have members: "\<exists>g. (k, g) \<in> set (sc_matrices s0) \<and> ?b \<in> set (mr_invocations g)" if k: "k \<in> set failed_groups" for k
  proof -
    obtain g where "(k, g) \<in> set (sc_matrices s)" "?b \<in> set (mr_invocations g)"
      using k by (auto simp: failed_groups_def fails_group_def)
    then show ?thesis unfolding f(4) by (intro exI [of _ "finish_invocation ?b ?c g"]) force
  qed
  show "finish_base name n closed e (s\<lparr>sc_running := remove_nth i (sc_running s)\<rparr>) \<noteq> Inl AgentPanic"
    unfolding eq by (rule skip_groups_inv(1) [OF skip nested]) (rule kept, assumption+, rule members, assumption)
  assume "finish_base name n closed e (s\<lparr>sc_running := remove_nth i (sc_running s)\<rparr>) = Inr t"
  then have "foldE (skip_group name n closed) s0 failed_groups = Inr t" unfolding eq .
  then show "sched_inv jobs t \<and> sc_running t = remove_nth i (sc_running s) \<and> sc_pending t \<subseteq> sc_pending s \<and>
      sc_cancellation_error t = sc_cancellation_error s"
    unfolding f(1-3) [symmetric]
    by (intro skip_groups_inv(2) [OF skip nested]) (rule kept, assumption+, rule members, assumption+)
qed

text \<open>Only a closed channel makes the bookkeeping fail.\<close>

abbreviation channel_closed :: string where
  "channel_closed \<equiv> ''control plane event channel closed''"

lemma skip_open: "skip_group name n closed s k = Inl (Bail m) \<Longrightarrow> closed \<and> m = channel_closed"
proof -
  assume "skip_group name n closed s k = Inl (Bail m)"
  then obtain ks where "foldE (skip_invocation name n closed) s ks = Inl (Bail m)"
    by (auto simp: skip_group_def result_simps)
  then have "\<exists>x\<in>set ks. \<exists>u. True \<and> skip_invocation name n closed u x = Inl (Bail m)"
    by (rule foldE_Inl_invariant) simp_all
  then show "closed \<and> m = channel_closed"
    by (auto simp: skip_invocation_def result_simps split: option.splits if_splits)
qed

lemma finish_base_open:
  "finish_base name n closed e s = Inl (Bail m) \<Longrightarrow> be_expanded_jobs e = [] \<Longrightarrow> closed \<and> m = channel_closed"
proof -
  assume "finish_base name n closed e s = Inl (Bail m)" "be_expanded_jobs e = []"
  then obtain u ks where "foldE (skip_group name n closed) u ks = Inl (Bail m)"
    by (auto simp: finish_base_def Let_def split: prod.splits)
  then have "\<exists>x\<in>set ks. \<exists>u. True \<and> skip_group name n closed u x = Inl (Bail m)"
    by (rule foldE_Inl_invariant) simp_all
  then show "closed \<and> m = channel_closed" using skip_open by blast
qed

lemma next_running_inv:
  assumes inv: "sched_inv jobs s" and nested: "groups_nested jobs" and static: "no_dynamic_calls jobs"
    and running: "sc_running s \<noteq> []"
  shows "next_running name n ev s = Inl AgentPanic \<Longrightarrow> ev_result ev = Inl AgentPanic"
    and "next_running name n ev s = Inr t \<Longrightarrow> sched_inv jobs t \<and> sched_measure t < sched_measure s \<and>
      (ev_result ev = Inr r \<longrightarrow> sc_cancellation_error t = sc_cancellation_error s)"
    and "next_running name n ev s = Inl (Bail m) \<Longrightarrow> ev_result ev = Inl (Bail m) \<or> ev_closed ev \<and> m = channel_closed"
    and "next_running name n ev s = Inr t \<Longrightarrow> error_kept s \<Longrightarrow> event_ok ev \<Longrightarrow> error_kept t"
proof -
  define i where "i = ev_choice ev mod length (sc_running s)"
  have i: "i < length (sc_running s)" using running by (simp add: i_def)
  let ?b = "sc_running s ! i" and ?s = "s\<lparr>sc_running := remove_nth i (sc_running s)\<rparr>"
  have base: "sched_base jobs s" using inv unfolding sched_inv_def by blast
  have rb: "rb_jobs ?b = filter (\<lambda>j. planned_base_id j = rb_base_id ?b) jobs"
    using sched_baseD(11) [OF base] i by simp
  note R = static_result [OF static rb] and ids = remove_nth_ids [OF i sched_baseD(8) [OF base]]
  have eq: "next_running name n ev s = (case running_result ev ?b of
         Inr e \<Rightarrow> finish_base name n (ev_closed ev) e ?s
       | Inl AgentPanic \<Rightarrow> Inl AgentPanic
       | Inl error \<Rightarrow> if ev_cancelled_after ev
           then Inr (?s\<lparr>sc_cancellation_error := Some (case sc_cancellation_error s of None \<Rightarrow> error | Some first \<Rightarrow> first)\<rparr>)
           else Inl error)"
    using running by (simp add: next_running_def Let_def i_def split: sum.split agent_failure.split)
  have less: "sched_measure t < sched_measure s" if "sc_running t = remove_nth i (sc_running s)" "sc_pending t \<subseteq> sc_pending s" for t
    using ids(4) i card_mono [OF sched_pending_finite [OF inv] that(2)] that(1) by (simp add: sched_measure_def)
  have lost: "sched_inv jobs (?s\<lparr>sc_cancellation_error := Some x\<rparr>)" for x
  proof -
    note D = sched_baseD [OF base]
    define u where "u = ?s\<lparr>sc_cancellation_error := Some x\<rparr>"
    have f: "sc_jobs u = sc_jobs s" "sc_base_order u = sc_base_order s" "sc_completed_bases u = sc_completed_bases s"
      "sc_pending u = sc_pending s" "sc_matrices u = sc_matrices s" "sc_running u = remove_nth i (sc_running s)"
      by (simp_all add: u_def)
    have ids': "running_ids u = running_ids s - {rb_base_id ?b}" unfolding f(6) ids(1) ..
    have "sched_base jobs u"
      unfolding sched_base_def ids' unfolding f
    proof (intro conjI D(1-5,7,12) ids(2))
      show "running_ids s - {rb_base_id ?b} \<subseteq> base_ids jobs"
        "sc_pending s \<inter> (running_ids s - {rb_base_id ?b} \<union> concluded s) = {}"
        "(running_ids s - {rb_base_id ?b}) \<inter> concluded s = {}"
        using D(6,9,10) by blast+
      show "\<forall>b\<in>set (remove_nth i (sc_running s)). rb_jobs b = filter (\<lambda>j. planned_base_id j = rb_base_id b) jobs"
        using D(11) ids(3) by blast
    qed
    moreover have "sc_cancellation_error u \<noteq> None" by (simp add: u_def)
    ultimately show ?thesis by (simp add: sched_inv_def u_def)
  qed
  show "next_running name n ev s = Inl AgentPanic \<Longrightarrow> ev_result ev = Inl AgentPanic"
    using R(1,2) finish_base_inv(1) [OF inv nested i]
    by (cases "running_result ev ?b") (auto simp: eq split: agent_failure.splits if_splits)
  show "next_running name n ev s = Inr t \<Longrightarrow> sched_inv jobs t \<and> sched_measure t < sched_measure s \<and>
      (ev_result ev = Inr r \<longrightarrow> sc_cancellation_error t = sc_cancellation_error s)"
  proof (cases "running_result ev ?b")
    case (Inl x)
    have x: "ev_result ev \<noteq> Inr r"
    proof
      assume "ev_result ev = Inr r"
      from R(3) [OF this] Inl show False by simp
    qed
    assume "next_running name n ev s = Inr t"
    then have t: "t = ?s\<lparr>sc_cancellation_error := Some (case sc_cancellation_error s of None \<Rightarrow> x | Some first \<Rightarrow> first)\<rparr>"
      using Inl by (auto simp: eq split: agent_failure.splits if_splits)
    then have "sched_measure t < sched_measure s" by (intro less) simp_all
    then show ?thesis using lost x t by simp
  next
    case (Inr e)
    assume "next_running name n ev s = Inr t"
    then have "finish_base name n (ev_closed ev) e ?s = Inr t" using Inr by (simp add: eq)
    then show ?thesis using finish_base_inv(2) [OF inv nested i] R(1) [OF Inr] less by blast
  qed
  show "next_running name n ev s = Inl (Bail m) \<Longrightarrow> ev_result ev = Inl (Bail m) \<or> ev_closed ev \<and> m = channel_closed"
  proof (cases "running_result ev ?b")
    case (Inl x)
    assume "next_running name n ev s = Inl (Bail m)"
    then have "x = Bail m" using Inl by (auto simp: eq split: agent_failure.splits if_splits)
    then show ?thesis using R(4) [OF Inl] by simp
  next
    case (Inr e)
    assume "next_running name n ev s = Inl (Bail m)"
    then have "finish_base name n (ev_closed ev) e ?s = Inl (Bail m)" using Inr by (simp add: eq)
    then show ?thesis using finish_base_open R(1) [OF Inr] by blast
  qed
  show "next_running name n ev s = Inr t \<Longrightarrow> error_kept s \<Longrightarrow> event_ok ev \<Longrightarrow> error_kept t"
  proof (cases "running_result ev ?b")
    case (Inl x)
    assume a: "next_running name n ev s = Inr t" "error_kept s" "event_ok ev"
    have "x \<noteq> AgentPanic" "x \<noteq> no_progress" using a(3) R(4) [OF Inl] by (auto simp: event_ok_def)
    then show ?thesis using a Inl
      by (auto simp: eq error_kept_def split: agent_failure.splits if_splits option.splits)
  next
    case (Inr e)
    assume a: "next_running name n ev s = Inr t" "error_kept s"
    then have "finish_base name n (ev_closed ev) e ?s = Inr t" using Inr by (simp add: eq)
    then have "sc_cancellation_error t = sc_cancellation_error s"
      using finish_base_inv(2) [OF inv nested i] R(1) [OF Inr] by blast
    then show ?thesis using a(2) by (simp add: error_kept_def)
  qed
qed

section \<open>Progress\<close>

text \<open>
  The heart of the argument. If nothing runs and nothing can start, every job whose needs have
  concluded is a gate held back by the limit of its matrix. Take an active invocation of such a
  matrix with the longest name: it has not concluded, so some job inside it, behind its gate, has
  all its needs concluded and is held back too; but then the matrix of that gate lies inside the
  invocation and has an active invocation with a longer name.
\<close>

definition blocked_gate :: "matrix_groups \<Rightarrow> string \<Rightarrow> bool" where
  "blocked_gate G b \<longleftrightarrow> \<not> reusable_matrix_gate_can_start G b"

lemma blocked_gateD:
  assumes "sched_groups jobs s" "sched_failed jobs s" "sched_base jobs s" "groups_nested jobs"
    and "sc_running s = []" "b \<in> sc_pending s" "blocked_gate (sc_matrices s) b"
  obtains k g i a where "(k, g) \<in> set (sc_matrices s)" "i \<in> set (mr_invocations g)" "b = invocation_gate i"
    "a \<in> mr_active g"
proof -
  note D = sched_baseD [OF assms(3)]
  obtain k g where g: "(k, g) \<in> set (sc_matrices s)" "\<not> group_can_start b g"
    using assms(7) by (auto simp: blocked_gate_def reusable_matrix_gate_can_start_def list_all_iff)
  then obtain i where i: "i \<in> set (mr_invocations g)" "b = invocation_gate i"
    and cases: "mr_failed g \<or> mr_max_parallel g \<le> card (mr_active g)"
    by (auto simp: group_can_start_def split: if_splits)
  have b: "b \<notin> running_ids s \<union> concluded s" "b \<in> base_ids jobs" using assms(6) D(5,9) by blast+
  have "\<not> mr_failed g"
  proof
    assume failed: "mr_failed g"
    have "i \<notin> mr_started g" using group_invD(4) [OF sched_groupsD(2) [OF assms(1) g(1)], of i] b(1) unfolding i(2) by argo
    then have "{b \<in> base_ids jobs. inside i b} \<subseteq> concluded s"
      using assms(2) g(1) i(1) failed unfolding sched_failed_def failed_skipped_def by blast
    moreover have "b \<in> {b \<in> base_ids jobs. inside i b}" using b(2) i(2) by simp
    ultimately show False using b(1) by blast
  qed
  moreover obtain h where "(k, h) \<in> set (reusable_matrix_runtimes jobs)" "mr_max_parallel g = mr_max_parallel h"
    using same_groups_member [OF D(12) g(1)] by blast
  then have "1 \<le> mr_max_parallel g" using groups_nestedD(1) [OF assms(4)] by metis
  ultimately have "mr_active g \<noteq> {}" using cases by auto
  then show ?thesis using that g(1) i by blast
qed

lemma ready_inside:
  assumes inv: "sched_base jobs s" "sched_groups jobs s" and plan: "schedulable jobs"
    and idle: "sc_running s = []" and g: "(k, g) \<in> set (sc_matrices s)" "a \<in> mr_active g"
  obtains z where "can_begin jobs s z" "inside a z" "z \<noteq> invocation_gate a"
proof -
  note D = sched_baseD [OF inv(1)] and G = sched_groupsD [OF inv(2)]
  have nested: "groups_nested jobs" and acyclic: "\<And>a. \<not> (needs_edge jobs)\<^sup>+\<^sup>+ a a" and known: "needs_known jobs"
    using plan by (auto simp: schedulable_def needs_acyclic_def)
  note I = group_invD [OF G(2) [OF g(1)]]
  have a: "a \<in> set (mr_invocations g)" "a \<notin> concluded s" using I(1-3) g(2) by blast+
  then have a': "a \<in> set (all_invocations jobs)" using same_groups_names [OF D(12) g(1)] by blast
  have gate: "invocation_gate a \<in> concluded s" using I(1,4) g(2) idle by auto
  define Z where "Z = {z \<in> sc_pending s. inside a z \<and> z \<noteq> invocation_gate a}"
  have "a \<in> sc_pending s" using G(1) groups_nestedD(3) [OF nested a'] a(2) idle by auto
  then have "a \<in> Z" using gate_not_invocation [of a] by (simp add: Z_def)
  then have "Z \<noteq> {}" by blast
  moreover have "finite Z"
    by (rule finite_subset [of _ "base_ids jobs"]) (use D(5) in \<open>auto simp: Z_def\<close>)
  ultimately obtain z where z: "z \<in> Z" "\<And>n. needs_edge jobs z n \<Longrightarrow> n \<notin> Z"
    using acyclic_minimal [of Z "needs_edge jobs"] acyclic by blast
  have zs: "z \<in> sc_pending s" "inside a z" "z \<noteq> invocation_gate a" "z \<in> base_ids jobs"
    using z(1) D(5) by (auto simp: Z_def)
  then have "depends_inside jobs a z" using groups_nestedD(6) [OF nested a'] by blast
  then obtain needs where needs: "first_needs jobs z = Some needs" "list_all (inside a) needs"
    by (auto simp: depends_inside_def split: option.splits)
  have "n \<in> concluded s" if n: "n \<in> set needs" for n
  proof -
    have edge: "needs_edge jobs z n" using needs(1) n by (auto simp: needs_edge_def)
    then have "n \<in> base_ids jobs" using known by (auto simp: needs_known_def)
    moreover have "n \<notin> Z" using z(2) edge by blast
    moreover have "inside a n" using needs(2) n by (simp add: list_all_iff)
    ultimately have "n \<in> base_ids jobs" "n \<notin> sc_pending s \<or> n = invocation_gate a" unfolding Z_def by simp_all
    moreover have "base_ids jobs \<subseteq> sc_pending s \<union> concluded s" using G(1) idle by simp
    ultimately show ?thesis using gate by (elim disjE) (simp_all add: subset_iff, metis Un_iff)
  qed
  then have "can_begin jobs s z" using zs(1) needs(1) by (auto simp: can_begin_def)
  then show ?thesis using that zs(2,3) by blast
qed

lemma never_stuck:
  assumes inv: "sched_base jobs s" "sched_groups jobs s" "sched_failed jobs s" and plan: "schedulable jobs"
    and idle: "sc_running s = []" and left: "\<not> base_ids jobs \<subseteq> concluded s"
  shows "\<exists>b. can_begin jobs s b \<and> reusable_matrix_gate_can_start (sc_matrices s) b"
proof (rule ccontr)
  assume "\<not> ?thesis"
  then have blocked: "blocked_gate (sc_matrices s) b" if "can_begin jobs s b" for b
    using that by (auto simp: blocked_gate_def)
  note D = sched_baseD [OF inv(1)] and G = sched_groupsD [OF inv(2)]
  have nested: "groups_nested jobs" and known: "needs_known jobs" and acyclic: "\<And>a. \<not> (needs_edge jobs)\<^sup>+\<^sup>+ a a"
    using plan by (auto simp: schedulable_def needs_acyclic_def)
  define Y where "Y = {a. \<exists>k g i. (k, g) \<in> set (sc_matrices s) \<and> a \<in> mr_active g \<and> i \<in> set (mr_invocations g) \<and>
    can_begin jobs s (invocation_gate i)}"
  have Y_intro: "\<exists>k g i. (k, g) \<in> set (sc_matrices s) \<and> i \<in> set (mr_invocations g) \<and> b = invocation_gate i \<and>
      mr_active g \<subseteq> Y \<and> mr_active g \<noteq> {}" if b: "can_begin jobs s b" for b
  proof -
    have "b \<in> sc_pending s" using b by (simp add: can_begin_def)
    from blocked_gateD [OF inv(2,3,1) nested idle this blocked [OF b]] obtain k g i a
      where g: "(k, g) \<in> set (sc_matrices s)" "i \<in> set (mr_invocations g)" "b = invocation_gate i" "a \<in> mr_active g" .
    then have "mr_active g \<subseteq> Y" using b unfolding Y_def by blast
    then show ?thesis using g by blast
  qed
  obtain b where "can_begin jobs s b"
  proof -
    have "finite (sc_pending s)" using D(5) by (metis finite_imageI finite_set finite_subset)
    moreover have "sc_pending s \<noteq> {}" using left G(1) idle by auto
    ultimately obtain b where b: "b \<in> sc_pending s" "\<And>n. needs_edge jobs b n \<Longrightarrow> n \<notin> sc_pending s"
      using acyclic_minimal [of "sc_pending s" "needs_edge jobs"] acyclic by blast
    obtain j where j: "first_needs jobs b = Some (planned_needs j)" using pending_job [OF inv(1) b(1)] by blast
    have "n \<in> concluded s" if "n \<in> set (planned_needs j)" for n
    proof -
      have edge: "needs_edge jobs b n" using j that by (auto simp: needs_edge_def)
      then have "n \<in> base_ids jobs" using known by (auto simp: needs_known_def)
      then show ?thesis using b(2) [OF edge] G(1) idle by auto
    qed
    then show ?thesis using that [of b] b(1) j by (auto simp: can_begin_def)
  qed
  then have "Y \<noteq> {}" using Y_intro by blast
  moreover have "finite Y"
  proof (rule finite_subset)
    show "Y \<subseteq> (\<Union>(k, g)\<in>set (sc_matrices s). set (mr_invocations g))"
    proof
      fix a assume "a \<in> Y"
      then obtain k g where g: "(k, g) \<in> set (sc_matrices s)" "a \<in> mr_active g" unfolding Y_def by blast
      then have "a \<in> set (mr_invocations g)" using group_invD(1,2) [OF G(2) [OF g(1)]] by blast
      then show "a \<in> (\<Union>(k, g)\<in>set (sc_matrices s). set (mr_invocations g))" using g(1) by auto
    qed
  qed auto
  ultimately obtain a where a: "a \<in> Y" "\<And>a'. a' \<in> Y \<Longrightarrow> length a' \<le> length a"
    using Max_in [of "length ` Y"] Max_ge [of "length ` Y"] by fastforce
  then obtain k g where g: "(k, g) \<in> set (sc_matrices s)" "a \<in> mr_active g" by (auto simp: Y_def)
  obtain z where z: "can_begin jobs s z" "inside a z" "z \<noteq> invocation_gate a"
    by (rule ready_inside [OF inv(1,2) plan idle g])
  obtain k' g' i where g': "(k', g') \<in> set (sc_matrices s)" "i \<in> set (mr_invocations g')" "z = invocation_gate i"
      "mr_active g' \<subseteq> Y" "mr_active g' \<noteq> {}"
    using Y_intro [OF z(1)] by blast
  then obtain a' where a': "a' \<in> mr_active g'" by blast
  obtain h where h: "(k', h) \<in> set (reusable_matrix_runtimes jobs)" "mr_invocations g' = mr_invocations h"
    using same_groups_member [OF D(12) g'(1)] by blast
  have names: "i \<in> set (all_invocations jobs)" "a \<in> set (all_invocations jobs)"
    using same_groups_names [OF D(12)] g'(1,2) g group_invD(1,2) [OF G(2) [OF g(1)]] by blast+
  have "inside a i" using groups_nestedD(7) [OF nested names] z(2) g'(3) by simp
  moreover have "i \<noteq> a" using z(3) g'(3) by auto
  moreover have "a' \<in> set (mr_invocations g')" using group_invD(1,2) [OF G(2) [OF g'(1)]] a' by blast
  ultimately have "inside a a' \<and> a' \<noteq> a"
    using siblings_nestedD [OF groups_nestedD(2) [OF nested h(1) names(2)], of i a'] g'(2) h(2) by simp
  then have "length a < length a'" using inside_length by blast
  then show False using a(2) a' g'(4) by fastforce
qed

section \<open>Runs\<close>

text \<open>Every event is a success, and neither a cancellation nor a closed channel interferes.\<close>

definition smooth :: "turn_event \<Rightarrow> bool" where
  "smooth ev \<longleftrightarrow> \<not> ev_cancelled ev \<and> \<not> ev_closed ev \<and> (\<exists>r. ev_result ev = Inr r)"

lemma unfinished_iff:
  assumes "sched_base jobs s"
  shows "unfinished s \<longleftrightarrow> \<not> base_ids jobs \<subseteq> concluded s"
proof -
  note D = sched_baseD [OF assms]
  have "length (sc_completed_bases s) = card (concluded s)"
    using bt_wf_distinct [OF D(4)] by (metis distinct_card length_map list.set_map)
  moreover have "length (sc_base_order s) = card (base_ids jobs)" using D(2,3) distinct_card by metis
  moreover have "card (concluded s) < card (base_ids jobs) \<longleftrightarrow> concluded s \<noteq> base_ids jobs"
    using D(7) psubset_card_mono [of "base_ids jobs" "concluded s"] by auto
  ultimately show ?thesis using D(7) unfolding unfinished_def by auto
qed

lemma idle_error:
  "sc_running s = [] \<Longrightarrow> \<exists>e. next_running name n ev s = Inl e"
  by (simp add: next_running_def split: option.split)

lemma turn_inv:
  assumes inv: "sched_inv jobs s" and plan: "schedulable jobs" and static: "no_dynamic_calls jobs" and left: "unfinished s"
  shows "turn name n ev s = Inr t \<Longrightarrow> sched_inv jobs t \<and> sched_measure t < sched_measure s"
    and "error_kept s \<Longrightarrow> event_ok ev \<Longrightarrow> turn name n ev s = Inr t \<Longrightarrow> error_kept t"
    and "error_kept s \<Longrightarrow> event_ok ev \<Longrightarrow> turn name n ev s \<noteq> Inl AgentPanic \<and> turn name n ev s \<noteq> Inl no_progress"
    and "smooth ev \<Longrightarrow> sc_cancellation_error s = None \<Longrightarrow>
      \<exists>t. turn name n ev s = Inr t \<and> sc_cancellation_error t = None"
proof -
  have nested: "groups_nested jobs" using plan by (simp add: schedulable_def)
  obtain u where u: "start_ready (ev_cancelled ev) s = Inr u" "sched_inv jobs u" "sched_measure u = sched_measure s"
    "sc_cancellation_error u = sc_cancellation_error s" "sc_completed_bases u = sc_completed_bases s"
    "\<not> ev_cancelled ev \<and> sc_running u = [] \<longrightarrow> u = s \<and>
      (\<forall>b. can_begin jobs s b \<longrightarrow> \<not> reusable_matrix_gate_can_start (sc_matrices s) b)"
    by (rule start_ready_inv [OF inv nested, where c = "ev_cancelled ev"])
  have eq: "turn name n ev s = next_running name n ev u" by (simp add: turn_def u(1))
  have base: "sched_base jobs s" using inv unfolding sched_inv_def by blast
  have busy: "sc_running u \<noteq> []" if "\<not> ev_cancelled ev" "sc_cancellation_error s = None"
  proof
    assume idle: "sc_running u = []"
    then have us: "u = s" "\<forall>b. can_begin jobs s b \<longrightarrow> \<not> reusable_matrix_gate_can_start (sc_matrices s) b"
      using u(6) that(1) by blast+
    have "sched_groups jobs s" "sched_failed jobs s" using inv that(2) unfolding sched_inv_def by blast+
    then show False using never_stuck [OF base _ _ plan] idle us left unfinished_iff [OF base] by blast
  qed
  note N = next_running_inv [OF u(2) nested static]
  show "turn name n ev s = Inr t \<Longrightarrow> sched_inv jobs t \<and> sched_measure t < sched_measure s"
    using N(2) [of name n ev t] idle_error [of u name n ev] unfolding eq u(3) by force
  show "error_kept s \<Longrightarrow> event_ok ev \<Longrightarrow> turn name n ev s = Inr t \<Longrightarrow> error_kept t"
    using N(4) [of name n ev t] idle_error [of u name n ev] u(4) unfolding eq error_kept_def by force
  show "turn name n ev s \<noteq> Inl AgentPanic \<and> turn name n ev s \<noteq> Inl no_progress"
    if ok: "error_kept s" "event_ok ev"
  proof (cases "sc_running u = []")
    case True
    have "ev_cancelled_after ev" if "sc_cancellation_error s = None"
      using busy that True ok(2) by (auto simp: event_ok_def)
    then show ?thesis using True ok(1) u(4) by (auto simp: eq next_running_def error_kept_def split: option.split)
  next
    case False
    then show ?thesis using N(1,3) [OF False, of name n ev] ok(2) unfolding eq event_ok_def by auto
  qed
  show "\<exists>t. turn name n ev s = Inr t \<and> sc_cancellation_error t = None"
    if ok: "smooth ev" "sc_cancellation_error s = None"
  proof -
    obtain r where r: "ev_result ev = Inr r" "\<not> ev_closed ev" "\<not> ev_cancelled ev" using ok(1) by (auto simp: smooth_def)
    have run: "sc_running u \<noteq> []" using busy ok(2) r(3) by blast
    have "next_running name n ev u \<noteq> Inl e" for e
      using N(1,3) [OF run, of name n ev] r(1,2) by (cases e) auto
    then obtain t where t: "next_running name n ev u = Inr t" by (cases "next_running name n ev u") auto
    then show ?thesis using N(2) [OF run t, of r] r(1) u(4) ok(2) unfolding eq by simp
  qed
qed

lemma run_turns_inv:
  assumes "sched_inv jobs s" "schedulable jobs" "no_dynamic_calls jobs"
  shows "run_turns name n evs s = Inr t \<Longrightarrow> sched_inv jobs t \<and> (unfinished t \<longrightarrow> sched_measure t + length evs \<le> sched_measure s)"
    and "error_kept s \<Longrightarrow> list_all event_ok evs \<Longrightarrow>
      run_turns name n evs s \<noteq> Inl AgentPanic \<and> run_turns name n evs s \<noteq> Inl no_progress"
    and "sc_cancellation_error s = None \<Longrightarrow> list_all smooth evs \<Longrightarrow>
      \<exists>t. run_turns name n evs s = Inr t \<and> sc_cancellation_error t = None"
  using assms(1)
proof (induction evs arbitrary: s)
  case (Cons ev evs)
  note T = turn_inv [OF _ assms(2,3), where name = name and n = n and ev = ev]
  {
    case 1
    show ?case
    proof (cases "unfinished s")
      case True
      then obtain u where u: "turn name n ev s = Inr u" "run_turns name n evs u = Inr t" using 1(1) by (auto simp: result_simps)
      then show ?thesis using T(1) [OF 1(2) True u(1)] Cons.IH(1) [OF u(2)] by force
    qed (use 1 in auto)
  next
    case 2
    show ?case
    proof (cases "unfinished s")
      case True
      note T3 = T(3) [OF 2(3) True 2(1)]
      show ?thesis
      proof (cases "turn name n ev s")
        case (Inl e)
        then show ?thesis using T3 True 2(2) by simp
      next
        case (Inr u)
        then show ?thesis
          using Cons.IH(2) [of u] T(1,2) [OF 2(3) True] 2(1,2) Inr True by simp
      qed
    qed simp
  next
    case 3
    show ?case
    proof (cases "unfinished s")
      case True
      then obtain u where u: "turn name n ev s = Inr u" "sc_cancellation_error u = None"
        using T(4) [OF 3(3) True] 3(1,2) by auto
      then show ?thesis using Cons.IH(3) [of u] T(1) [OF 3(3) True u(1)] 3(2) True by simp
    qed (use 3 in simp)
  }
qed auto

lemma initial_measure: "sched_measure (initial_sched jobs) = card (base_ids jobs)"
  using initial_sched_fields [of jobs] by (simp add: sched_measure_def)

lemma initial_error: "error_kept (initial_sched jobs)" "sc_cancellation_error (initial_sched jobs) = None"
  using initial_sched_fields [of jobs] by (simp_all add: error_kept_def)

lemma idle_finished:
  assumes "sched_inv jobs t" "sc_cancellation_error t = None" "sched_measure t = 0"
  shows "\<not> unfinished t"
proof -
  have base: "sched_base jobs t" "sched_groups jobs t" using assms(1,2) unfolding sched_inv_def by blast+
  have "sc_pending t = {}" "sc_running t = []"
    using assms(3) sched_pending_finite [OF assms(1)] by (simp_all add: sched_measure_def)
  then show ?thesis using unfinished_iff [OF base(1)] sched_groupsD(1) [OF base(2)] by simp
qed

lemma smooth_run_finishes:
  assumes plan: "schedulable jobs" "no_dynamic_calls jobs" and events: "list_all smooth events" "card (base_ids jobs) \<le> length events"
  obtains t where "run_turns name n events (initial_sched jobs) = Inr t" "\<not> unfinished t" "concluded t = base_ids jobs"
proof -
  note I = sched_inv_initial [of jobs]
  obtain t where t: "run_turns name n events (initial_sched jobs) = Inr t" "sc_cancellation_error t = None"
    using run_turns_inv(3) [OF I plan initial_error(2) events(1)] by blast
  have inv: "sched_inv jobs t" and bound: "unfinished t \<Longrightarrow> sched_measure t + length events \<le> card (base_ids jobs)"
    using run_turns_inv(1) [OF I plan t(1)] initial_measure [of jobs] by auto
  have "\<not> unfinished t"
  proof
    assume "unfinished t"
    then have "sched_measure t = 0" using bound events(2) by simp
    then show False using idle_finished [OF inv t(2)] \<open>unfinished t\<close> by blast
  qed
  moreover have base: "sched_base jobs t" using inv unfolding sched_inv_def by blast
  ultimately have "concluded t = base_ids jobs" using unfinished_iff [OF base] sched_baseD(7) [OF base] by blast
  then show ?thesis using that t(1) \<open>\<not> unfinished t\<close> by blast
qed

section \<open>Properties\<close>

definition sample_event :: "job_conclusion \<Rightarrow> turn_event" where
  "sample_event c = \<lparr>ev_cancelled = False, ev_choice = 0, ev_result = Inr (c, 1, []), ev_instances = None,
    ev_group_cancelled = False, ev_cancelled_inside = False, ev_cancelled_after = False, ev_closed = False\<rparr>"

definition linked_sample :: execution_plan where
  "linked_sample = (case compile_with_reusables plain_yaml (parse_source toy_api) calling_workflow ''ci.yml'' sample_reusables of
    Inr plan \<Rightarrow> plan | Inl _ \<Rightarrow> ExecutionPlan [] [] None [])"

lemma linked_sample_schedulable:
  "schedulable (plan_jobs linked_sample)" "no_dynamic_calls (plan_jobs linked_sample)"
  "card (base_ids (plan_jobs linked_sample)) = 8"
proof -
  have "validate_dependencies ''ci'' (plan_jobs linked_sample) = Inr ()" by code_simp
  moreover have "groups_nested (plan_jobs linked_sample)" by code_simp
  ultimately show "schedulable (plan_jobs linked_sample)"
    using validate_dependencies_sound by (auto simp: schedulable_def)
  show "no_dynamic_calls (plan_jobs linked_sample)" by code_simp
  show "card (base_ids (plan_jobs linked_sample)) = 8" by code_simp
qed





lemma no_groups: "(\<And>j. j \<in> set jobs \<Longrightarrow> virtual_job j = None) \<Longrightarrow> groups_nested jobs \<and> no_dynamic_calls jobs"
proof -
  assume none: "\<And>j. j \<in> set jobs \<Longrightarrow> virtual_job j = None"
  have "matrix_runtime_of j = None" "dynamic_call [j] = None" if "j \<in> set jobs" for j
    using none [OF that] by (cases j; simp)+
  moreover from this have "List.map_filter matrix_runtime_of jobs = []"
    by (auto simp: List.map_filter_def filter_empty_conv)
  then have "reusable_matrix_runtimes jobs = []"
    by (simp add: reusable_matrix_runtimes_def bt_collect_def bt_extend_def)
  ultimately show ?thesis
    by (simp add: groups_nested_def all_invocations_def no_dynamic_calls_def list_all_iff)
qed



section \<open>Limits\<close>

text \<open>What holds for every plan, dynamic calls included.\<close>

definition within_limits :: "sched \<Rightarrow> bool" where
  "within_limits s \<longleftrightarrow> (\<forall>(k, g)\<in>set (sc_matrices s). card (mr_active g) \<le> mr_max_parallel g \<and> (mr_failed g \<longrightarrow> mr_cancel g))"

definition needs_met :: "running_base \<Rightarrow> bool" where
  "needs_met b \<longleftrightarrow> (case rb_jobs b of j # _ \<Rightarrow>
    planned_base_id j = rb_base_id b \<and> set (planned_needs j) \<subseteq> fst ` set (rb_completed_bases b) | [] \<Rightarrow> False)"

lemma filter_find: "find P xs = Some x \<Longrightarrow> \<exists>ys. filter P xs = x # ys"
  by (induction xs) (auto split: if_splits)

lemma start_invocation_limits:
  assumes "group_can_start b g" "card (mr_active g) \<le> mr_max_parallel g"
  shows "card (mr_active (start_invocation b g)) \<le> mr_max_parallel g"
proof (cases "find (\<lambda>i. b = invocation_gate i) (mr_invocations g)")
  case (Some i)
  then have "b \<in> set (map invocation_gate (mr_invocations g))" by (auto simp: find_Some_iff)
  then have "card (mr_active g) < mr_max_parallel g" using assms(1) by (simp add: group_can_start_def)
  moreover have "card (insert i (mr_active g)) \<le> Suc (card (mr_active g))" by (rule card_insert_le_m1) simp_all
  ultimately show ?thesis using Some by (simp add: start_invocation_def)
qed (simp add: start_invocation_def assms(2))

definition sched_safe :: "sched \<Rightarrow> bool" where
  "sched_safe s \<longleftrightarrow> within_limits s \<and> (\<forall>b\<in>set (sc_running s). needs_met b)"

lemma within_limits_map:
  assumes "within_limits s" "sc_matrices t = map (\<lambda>(k, g). (k, f g)) (sc_matrices s)"
    and "\<And>k g. (k, g) \<in> set (sc_matrices s) \<Longrightarrow> card (mr_active g) \<le> mr_max_parallel g \<Longrightarrow> mr_failed g \<longrightarrow> mr_cancel g \<Longrightarrow>
      card (mr_active (f g)) \<le> mr_max_parallel (f g) \<and> (mr_failed (f g) \<longrightarrow> mr_cancel (f g))"
  shows "within_limits t"
  using assms by (fastforce simp: within_limits_def)

lemma start_base_safe:
  assumes "sched_safe s" "find (\<lambda>j. planned_base_id j = b) (sc_jobs s) = Some j" "set (planned_needs j) \<subseteq> concluded s"
  shows "sched_safe (start_base s b)"
proof (cases "reusable_matrix_gate_can_start (sc_matrices s) b")
  case True
  have "within_limits (start_base s b)"
  proof (rule within_limits_map [of s _ "start_invocation b"])
    show "sc_matrices (start_base s b) = map (\<lambda>(k, g). (k, start_invocation b g)) (sc_matrices s)"
      using start_base_sets(3) [OF True] by (simp add: start_reusable_matrix_invocation_def)
    fix k g assume "(k, g) \<in> set (sc_matrices s)" "card (mr_active g) \<le> mr_max_parallel g" "mr_failed g \<longrightarrow> mr_cancel g"
    then show "card (mr_active (start_invocation b g)) \<le> mr_max_parallel (start_invocation b g) \<and>
        (mr_failed (start_invocation b g) \<longrightarrow> mr_cancel (start_invocation b g))"
      using True start_invocation_limits [of b g]
      by (auto simp: reusable_matrix_gate_can_start_def list_all_iff start_invocation_def split: option.split)
  qed (use assms(1) in \<open>simp add: sched_safe_def\<close>)
  moreover obtain js where "filter (\<lambda>j. planned_base_id j = b) (sc_jobs s) = j # js" using filter_find [OF assms(2)] by blast
  moreover have "planned_base_id j = b" using assms(2) by (auto simp: find_Some_iff)
  ultimately show ?thesis
    using assms(1,3) True by (simp add: sched_safe_def start_base_def Let_def needs_met_def)
qed (simp add: start_base_def assms(1))

lemma start_ready_safe:
  assumes "sched_safe s" "start_ready c s = Inr t"
  shows "sched_safe t"
proof -
  obtain ready where ready: "(if c then Inr [] else filterE (base_ready s) (sc_base_order s)) = Inr ready"
      "t = foldl start_base s ready"
    using assms(2) by (auto simp: start_ready_def result_simps)
  have "\<exists>j. find (\<lambda>j. planned_base_id j = b) (sc_jobs s) = Some j \<and> set (planned_needs j) \<subseteq> concluded s" if "b \<in> set ready" for b
  proof -
    have "filterE (base_ready s) (sc_base_order s) = Inr ready" using ready(1) that by (cases c) auto
    from filterE_spec(2) [OF this] have "base_ready s b = Inr True" using that by simp
    then show ?thesis by (auto simp: base_ready_def result_simps list_all_iff split: if_splits)
  qed
  moreover have "\<forall>b\<in>set bs. \<exists>j. find (\<lambda>j. planned_base_id j = b) (sc_jobs u) = Some j \<and> set (planned_needs j) \<subseteq> concluded u \<Longrightarrow>
      sched_safe u \<Longrightarrow> sched_safe (foldl start_base u bs)" for bs u
  proof (induction bs arbitrary: u)
    case (Cons b bs)
    then have "sched_safe (start_base u b)" using start_base_safe by fastforce
    then show ?case using Cons.IH [of "start_base u b"] Cons.prems(1) by simp
  qed simp
  ultimately show ?thesis using assms(1) ready(2) by blast
qed

lemma skip_invocation_frame:
  "skip_invocation name n closed s k = Inr t \<Longrightarrow> sc_matrices t = sc_matrices s \<and> sc_running t = sc_running s"
  by (erule skip_invocation_Inr) (simp add: skip_bases)

lemma skip_group_frame:
  "skip_group name n closed s k = Inr t \<Longrightarrow> sc_matrices t = sc_matrices s \<and> sc_running t = sc_running s"
proof -
  assume "skip_group name n closed s k = Inr t"
  then obtain ks where run: "foldE (skip_invocation name n closed) s ks = Inr t" by (auto simp: skip_group_def result_simps)
  show ?thesis
    by (rule foldE_invariant [OF run, where P = "\<lambda>t. sc_matrices t = sc_matrices s \<and> sc_running t = sc_running s"])
      (auto dest: skip_invocation_frame)
qed

lemma sched_safe_frame: "sched_safe s \<Longrightarrow> sc_matrices t = sc_matrices s \<Longrightarrow> set (sc_running t) \<subseteq> set (sc_running s) \<Longrightarrow> sched_safe t"
  by (auto simp: sched_safe_def within_limits_def)

lemma finish_base_safe:
  assumes "sched_safe s" "finish_base name n closed e s = Inr t"
  shows "sched_safe t"
proof (cases "be_expanded_jobs e = []")
  case True
  define u where "u = (complete_base (be_base_id e) (be_conclusion e) (be_outputs e)
      (s\<lparr>sc_completed_steps := sc_completed_steps s + be_completed_steps e\<rparr>))
      \<lparr>sc_matrices := map (\<lambda>(k, g). (k, finish_invocation (be_base_id e) (be_conclusion e) g)) (sc_matrices s)\<rparr>"
  obtain ks where run: "foldE (skip_group name n closed) u ks = Inr t"
    using assms(2) True by (auto simp: finish_base_def Let_def finish_reusable_matrix_invocation_def u_def)
  have "within_limits u"
  proof (rule within_limits_map [of s _ "finish_invocation (be_base_id e) (be_conclusion e)"])
    fix k g assume "(k, g) \<in> set (sc_matrices s)" "card (mr_active g) \<le> mr_max_parallel g" "mr_failed g \<longrightarrow> mr_cancel g"
    then show "card (mr_active (finish_invocation (be_base_id e) (be_conclusion e) g)) \<le>
          mr_max_parallel (finish_invocation (be_base_id e) (be_conclusion e) g) \<and>
        (mr_failed (finish_invocation (be_base_id e) (be_conclusion e) g) \<longrightarrow>
          mr_cancel (finish_invocation (be_base_id e) (be_conclusion e) g))"
      by (auto simp: finish_invocation_def Let_def intro: le_trans [OF card_Diff1_le])
  qed (use assms(1) in \<open>simp_all add: sched_safe_def u_def\<close>)
  then have "sched_safe u" using assms(1) by (simp add: sched_safe_def u_def complete_base_def)
  then show ?thesis
    by (rule foldE_invariant [OF run]) (rule sched_safe_frame, assumption, (auto dest: skip_group_frame))
next
  case False
  then have t: "t = insert_expansion e s" using assms(2) by (simp add: finish_base_def)
  define R where "R = reusable_matrix_runtimes (filter (\<lambda>j. planned_base_id j \<noteq> be_base_id e) (sc_jobs s) @ be_expanded_jobs e)"
  have f: "sc_matrices t = bt_or_inserts (sc_matrices s) R" "sc_running t = sc_running s"
    unfolding t R_def by (simp_all add: insert_expansion_def Let_def split: prod.splits)
  have "card (mr_active g) \<le> mr_max_parallel g \<and> (mr_failed g \<longrightarrow> mr_cancel g)" if "(k, g) \<in> set (sc_matrices t)" for k g
  proof -
    have "(k, g) \<in> set (sc_matrices s) \<or> (k, g) \<in> set R" using that entries_or_inserts [of "sc_matrices s" R] unfolding f(1) by blast
    then show ?thesis using assms(1) runtimes_fresh [of k g] by (auto simp: sched_safe_def within_limits_def R_def)
  qed
  then show ?thesis using assms(1) f(2) by (auto simp: sched_safe_def within_limits_def)
qed

lemma turn_safe:
  assumes "sched_safe s" "turn name n ev s = Inr t"
  shows "sched_safe t"
proof -
  obtain u where u: "start_ready (ev_cancelled ev) s = Inr u" "next_running name n ev u = Inr t"
    using assms(2) by (auto simp: turn_def result_simps)
  have su: "sched_safe u" by (rule start_ready_safe [OF assms(1) u(1)])
  let ?v = "u\<lparr>sc_running := remove_nth (ev_choice ev mod length (sc_running u)) (sc_running u)\<rparr>"
  have "set (sc_running ?v) \<subseteq> set (sc_running u)" by (auto simp: remove_nth_def dest: in_set_takeD in_set_dropD)
  then have v: "sched_safe ?v" "sched_safe (?v\<lparr>sc_cancellation_error := x\<rparr>)" for x
    by (simp_all add: sched_safe_frame [OF su])
  show ?thesis
    using u(2) v finish_base_safe [OF v(1)]
    by (auto simp: next_running_def Let_def split: if_splits option.splits sum.splits agent_failure.splits)
qed

lemma run_turns_safe: "sched_safe s \<Longrightarrow> run_turns name n evs s = Inr t \<Longrightarrow> sched_safe t"
  by (induction evs arbitrary: s) (auto simp: result_simps dest: turn_safe split: if_splits)

text \<open>
  C7. In every state the scheduler reaches, for any plan, dynamic calls included, and any order of
  events: no more invocations of a matrix of calls are active than \<open>max-parallel\<close> allows, a failed
  matrix has signalled its jobs to stop, and a job that runs was started with conclusions for all
  of its needs.
\<close>

theorem scheduler_limits:
  assumes "run_turns name n events (initial_sched jobs) = Inr s"
  shows "(\<forall>(k, g)\<in>set (sc_matrices s). card (mr_active g) \<le> mr_max_parallel g \<and> (mr_failed g \<longrightarrow> mr_cancel g)) \<and>
    (\<forall>b\<in>set (sc_running s). needs_met b)"
proof -
  have "sched_safe (initial_sched jobs)"
    using initial_sched_fields [of jobs] runtimes_fresh [of _ _ jobs] by (fastforce simp: sched_safe_def within_limits_def)
  from run_turns_safe [OF this assms] show ?thesis by (simp add: sched_safe_def within_limits_def)
qed

theorem scheduler_limits_witness:
  "\<exists>s. run_turns ''ci'' 0 (replicate 2 (sample_event JobSuccess)) (initial_sched (plan_jobs linked_sample)) = Inr s \<and>
    sc_running s \<noteq> [] \<and> (\<forall>b\<in>set (sc_running s). needs_met b)"
proof -
  have "case run_turns ''ci'' 0 (replicate 2 (sample_event JobSuccess)) (initial_sched (plan_jobs linked_sample)) of
      Inl _ \<Rightarrow> False | Inr s \<Rightarrow> sc_running s \<noteq> []" by code_simp
  then obtain s where "run_turns ''ci'' 0 (replicate 2 (sample_event JobSuccess)) (initial_sched (plan_jobs linked_sample)) = Inr s"
      "sc_running s \<noteq> []" by (auto split: sum.splits)
  then show ?thesis using scheduler_limits by blast
qed

definition colon_workflow :: workflow where
  "colon_workflow = sample_workflow [(''unit::test'', sample_file_job [] None)]"


end
