(* ===== verification/Trigger.thy ===== *)
theory Trigger
  imports Workflow_Model
begin

text \<open>
  Pull request triggers: \<open>matches_pull_request\<close>, the branch and path filters, and the
  translation of glob patterns to regular expressions by \<open>compile_glob\<close>. The \<open>regex\<close>
  crate is the parameter \<open>regex_api\<close>: \<open>regex::escape\<close>, \<open>Regex::new\<close>, \<open>is_match\<close>.
\<close>

section \<open>Glob patterns\<close>

record 'r regex_api =
  rx_escape :: "string \<Rightarrow> string"
  rx_new :: "string \<Rightarrow> string + 'r"
  rx_is_match :: "'r \<Rightarrow> string \<Rightarrow> bool"

record atom =
  atom_source :: string
  quantifiable :: bool

definition get_at :: "'a list \<Rightarrow> nat \<Rightarrow> 'a option" where
  "get_at xs i = (if i < length xs then Some (xs ! i) else None)"

text \<open>\<open>iter().position(|c| c == x)\<close>.\<close>

fun position :: "'a \<Rightarrow> 'a list \<Rightarrow> nat option" where
  "position x [] = None"
| "position x (y # ys) = (if y = x then Some 0 else map_option Suc (position x ys))"

definition range_char :: "string \<Rightarrow> bool" where
  "range_char ch \<longleftrightarrow> (\<exists>c. ch = [c] \<and> (is_ascii_alphanumeric c \<or> c = CHR ''-''))"

definition range_ok :: "string list \<Rightarrow> bool" where
  "range_ok range_text \<longleftrightarrow> \<not> (concat range_text = [] \<or> \<not> list_all range_char range_text)"

text \<open>
  The loop of \<open>compile_glob\<close> over the characters, one turn per recursive call. The slice
  after an opening bracket starts at most at the end, so it is always defined.
\<close>

function glob_loop ::
  "'r regex_api \<Rightarrow> string \<Rightarrow> string \<Rightarrow> string \<Rightarrow> string list \<Rightarrow> nat \<Rightarrow> atom list \<Rightarrow> failure + atom list"
where
  "glob_loop R workflow filter_name pattern characters index atoms =
    (if index < length characters then
       let character = characters ! index in
       if character = [CHR 0x5C] then
         (case get_at characters (index + 1) of
           None \<Rightarrow> Inl (unsupported_workflow workflow (OnTrigger (GlobEndsWithEscape filter_name pattern)))
         | Some character \<Rightarrow>
             glob_loop R workflow filter_name pattern characters (index + 2)
               (atoms @ [\<lparr>atom_source = rx_escape R character, quantifiable = True\<rparr>]))
       else if character = ''*'' \<and> get_at characters (index + 1) = Some ''*'' then
         glob_loop R workflow filter_name pattern characters (index + 2)
           (atoms @ [\<lparr>atom_source = ''.*'', quantifiable = False\<rparr>])
       else if character = ''*'' then
         glob_loop R workflow filter_name pattern characters (index + 1)
           (atoms @ [\<lparr>atom_source = ''[^/]*'', quantifiable = False\<rparr>])
       else if character = ''?'' \<or> character = ''+'' then
         if atoms = [] then
           Inl (unsupported_workflow workflow
             (OnTrigger (GlobStartsWithQuantifier filter_name pattern character)))
         else if \<not> quantifiable (last atoms) then
           Inl (unsupported_workflow workflow
             (OnTrigger (GlobMisplacedQuantifier filter_name pattern character)))
         else
           glob_loop R workflow filter_name pattern characters (index + 1)
             (butlast atoms @ [\<lparr>atom_source = ''(?:'' @ atom_source (last atoms) @ '')'' @ character,
               quantifiable = False\<rparr>])
       else if character = ''['' then
         (case position '']'' (drop (index + 1) characters) of
           None \<Rightarrow> Inl (unsupported_workflow workflow (OnTrigger (GlobUnclosedRange filter_name pattern)))
         | Some relative_end \<Rightarrow>
             let range_text = take relative_end (drop (index + 1) characters) in
             if \<not> range_ok range_text then
               Inl (unsupported_workflow workflow (OnTrigger (GlobInvalidRange filter_name pattern)))
             else
               glob_loop R workflow filter_name pattern characters (index + 1 + relative_end + 1)
                 (atoms @ [\<lparr>atom_source = ''['' @ concat range_text @ '']'', quantifiable = True\<rparr>]))
       else
         glob_loop R workflow filter_name pattern characters (index + 1)
           (atoms @ [\<lparr>atom_source = rx_escape R character, quantifiable = True\<rparr>])
     else Inr atoms)"
  by pat_completeness auto
termination
  by (relation "measure (\<lambda>(_, _, _, _, characters, index, _). length characters - index)") auto

declare glob_loop.simps [simp del]

definition anchored :: "string \<Rightarrow> string" where
  "anchored source = ''^(?:'' @ source @ '')$''"

definition compile_glob :: "'r regex_api \<Rightarrow> string \<Rightarrow> string \<Rightarrow> string \<Rightarrow> failure + 'r" where
  "compile_glob R pattern workflow filter_name =
    bindE (glob_loop R workflow filter_name pattern (utf8_chars pattern) 0 []) (\<lambda>atoms.
    (case rx_new R (anchored (concat (map atom_source atoms))) of
      Inl error \<Rightarrow> Inl (unsupported_workflow workflow (OnTrigger (GlobRegexInvalid filter_name pattern error)))
    | Inr regex \<Rightarrow> Inr regex))"

section \<open>Filters\<close>

definition string_values :: "yaml_api \<Rightarrow> yaml_value \<Rightarrow> string \<Rightarrow> string \<Rightarrow> failure + string list" where
  "string_values Y v workflow filter_name =
    bindE (case v of
        YString s \<Rightarrow> Inr [s]
      | YSequence vs \<Rightarrow>
          mapE (\<lambda>v. ok_or (as_str Y v)
            (unsupported_workflow workflow (OnTrigger (FilterEntryNotString filter_name)))) vs
      | _ \<Rightarrow> Inl (unsupported_workflow workflow (OnTrigger (FilterShape filter_name)))) (\<lambda>vs.
    bindE (ensure (vs \<noteq> []) (unsupported_workflow workflow (OnTrigger (FilterEmpty filter_name)))) (\<lambda>_.
    Inr vs))"

definition compile_ordered_pattern ::
  "'r regex_api \<Rightarrow> string \<Rightarrow> string \<Rightarrow> string \<Rightarrow> failure + bool \<times> 'r"
where
  "compile_ordered_pattern R workflow filter_name pattern =
    (let (negative, pattern) =
       (case strip_prefix pattern ''!'' of None \<Rightarrow> (False, pattern) | Some p \<Rightarrow> (True, p)) in
     bindE (ensure (pattern \<noteq> [])
       (unsupported_workflow workflow (OnTrigger (FilterEmptyPattern filter_name)))) (\<lambda>_.
     bindE (compile_glob R pattern workflow filter_name) (\<lambda>regex. Inr (negative, regex))))"

definition compile_ordered_patterns ::
  "yaml_api \<Rightarrow> 'r regex_api \<Rightarrow> yaml_value \<Rightarrow> string \<Rightarrow> string \<Rightarrow> failure + (bool \<times> 'r) list"
where
  "compile_ordered_patterns Y R v workflow filter_name =
    bindE (string_values Y v workflow filter_name) (\<lambda>patterns.
    bindE (ensure (list_ex (\<lambda>pattern. \<not> starts_with pattern ''!'') patterns)
      (unsupported_workflow workflow (OnTrigger (FilterNoPositivePattern filter_name)))) (\<lambda>_.
    mapE (compile_ordered_pattern R workflow filter_name) patterns))"

definition matches_compiled_ordered_patterns ::
  "'r regex_api \<Rightarrow> (bool \<times> 'r) list \<Rightarrow> string \<Rightarrow> bool"
where
  "matches_compiled_ordered_patterns R patterns candidate =
    fold (\<lambda>(negative, pattern) included.
      if rx_is_match R pattern candidate then \<not> negative else included) patterns False"

definition matches_ordered_patterns ::
  "yaml_api \<Rightarrow> 'r regex_api \<Rightarrow> yaml_value \<Rightarrow> string \<Rightarrow> string \<Rightarrow> string \<Rightarrow> failure + bool"
where
  "matches_ordered_patterns Y R v candidate workflow filter_name =
    bindE (compile_ordered_patterns Y R v workflow filter_name) (\<lambda>patterns.
    Inr (matches_compiled_ordered_patterns R patterns candidate))"

definition matches_any_ordered_path ::
  "yaml_api \<Rightarrow> 'r regex_api \<Rightarrow> yaml_value \<Rightarrow> string list \<Rightarrow> string \<Rightarrow> string \<Rightarrow> failure + bool"
where
  "matches_any_ordered_path Y R v changed_paths workflow filter_name =
    bindE (compile_ordered_patterns Y R v workflow filter_name) (\<lambda>patterns.
    Inr (list_ex (matches_compiled_ordered_patterns R patterns) changed_paths))"

definition compile_ignored_patterns ::
  "yaml_api \<Rightarrow> 'r regex_api \<Rightarrow> yaml_value \<Rightarrow> string \<Rightarrow> string \<Rightarrow> failure + 'r list"
where
  "compile_ignored_patterns Y R v workflow filter_name =
    bindE (string_values Y v workflow filter_name) (\<lambda>patterns.
    mapE (\<lambda>pattern.
      bindE (ensure (\<not> starts_with pattern ''!'')
        (unsupported_workflow workflow (OnTrigger (FilterNegativePattern filter_name)))) (\<lambda>_.
      compile_glob R pattern workflow filter_name)) patterns)"

definition matches_ignored_pattern ::
  "yaml_api \<Rightarrow> 'r regex_api \<Rightarrow> yaml_value \<Rightarrow> string \<Rightarrow> string \<Rightarrow> string \<Rightarrow> failure + bool"
where
  "matches_ignored_pattern Y R v candidate workflow filter_name =
    bindE (compile_ignored_patterns Y R v workflow filter_name) (\<lambda>patterns.
    Inr (list_ex (\<lambda>pattern. rx_is_match R pattern candidate) patterns))"

definition value_contains_string :: "yaml_api \<Rightarrow> yaml_value \<Rightarrow> string \<Rightarrow> bool" where
  "value_contains_string Y v expected =
    (case v of
      YString s \<Rightarrow> s = expected
    | YSequence vs \<Rightarrow> list_ex (\<lambda>v. as_str Y v = Some expected) vs
    | _ \<Rightarrow> False)"

section \<open>The trigger\<close>

definition trigger_key :: "yaml_api \<Rightarrow> string \<Rightarrow> yaml_value \<Rightarrow> failure + unit" where
  "trigger_key Y workflow key =
    ensure (as_str Y key \<in> Some ` {''types'', ''branches'', ''branches-ignore'', ''paths'', ''paths-ignore''})
      (unsupported_workflow workflow (OnTrigger (FilterUnsupported (as_str Y key))))"

text \<open>\<open>if let Some(v) = option && condition(v)? { return Ok(false) }\<close> before the rest.\<close>

definition unless_filter ::
  "yaml_value option \<Rightarrow> (yaml_value \<Rightarrow> failure + bool) \<Rightarrow> (unit \<Rightarrow> failure + bool) \<Rightarrow> failure + bool"
where
  "unless_filter v rejects rest =
    (case v of
      None \<Rightarrow> rest ()
    | Some v \<Rightarrow> bindE (rejects v) (\<lambda>rejected. if rejected then Inr False else rest ()))"

definition path_filters ::
  "yaml_api \<Rightarrow> 'r regex_api \<Rightarrow> mapping \<Rightarrow> string list option \<Rightarrow> string \<Rightarrow> failure + bool"
where
  "path_filters Y R options changed_paths workflow =
    (if mapping_contains_key options ''paths'' \<or> mapping_contains_key options ''paths-ignore'' then
       bindE (ok_or changed_paths
         (unsupported_workflow workflow (OnTrigger PathFilterNeedsChangedFiles))) (\<lambda>changed_paths.
       if changed_paths = [] then Inr False
       else
         unless_filter (mapping_get options ''paths'') (\<lambda>paths.
           bindE (matches_any_ordered_path Y R paths changed_paths workflow ''paths'') (\<lambda>b. Inr (\<not> b))) (\<lambda>_.
         unless_filter (mapping_get options ''paths-ignore'') (\<lambda>ignored.
           bindE (compile_ignored_patterns Y R ignored workflow ''paths-ignore'') (\<lambda>patterns.
           Inr (list_all (\<lambda>path. list_ex (\<lambda>pattern. rx_is_match R pattern path) patterns)
             changed_paths))) (\<lambda>_.
         Inr True)))
     else Inr True)"

definition matches_pull_request_options ::
  "yaml_api \<Rightarrow> 'r regex_api \<Rightarrow> mapping \<Rightarrow> string \<Rightarrow> string \<Rightarrow> string list option \<Rightarrow> string \<Rightarrow> failure + bool"
where
  "matches_pull_request_options Y R options action base_ref changed_paths workflow =
    bindE (foldE (\<lambda>_ key. trigger_key Y workflow key) () (map fst options)) (\<lambda>_.
    bindE (ensure (\<not> (mapping_contains_key options ''branches'' \<and>
        mapping_contains_key options ''branches-ignore''))
      (unsupported_workflow workflow (OnTrigger BranchesAndIgnored))) (\<lambda>_.
    bindE (ensure (\<not> (mapping_contains_key options ''paths'' \<and>
        mapping_contains_key options ''paths-ignore''))
      (unsupported_workflow workflow (OnTrigger PathsAndIgnored))) (\<lambda>_.
    if \<not> (case mapping_get options ''types'' of
        None \<Rightarrow> is_default_action action
      | Some types \<Rightarrow> value_contains_string Y types action) then Inr False
    else
      unless_filter (mapping_get options ''branches'') (\<lambda>branches.
        bindE (matches_ordered_patterns Y R branches base_ref workflow ''branches'') (\<lambda>b. Inr (\<not> b))) (\<lambda>_.
      unless_filter (mapping_get options ''branches-ignore'') (\<lambda>ignored.
        matches_ignored_pattern Y R ignored base_ref workflow ''branches-ignore'') (\<lambda>_.
      path_filters Y R options changed_paths workflow)))))"

text \<open>The loop of the sequence case: the first \<open>true\<close> or error ends it.\<close>

fun anyE :: "('a \<Rightarrow> 'e + bool) \<Rightarrow> 'a list \<Rightarrow> 'e + bool" where
  "anyE f [] = Inr False"
| "anyE f (x # xs) = bindE (f x) (\<lambda>b. if b then Inr True else anyE f xs)"

lemma anyE_cong [fundef_cong]:
  "xs = ys \<Longrightarrow> (\<And>x. x \<in> set ys \<Longrightarrow> f x = g x) \<Longrightarrow> anyE f xs = anyE g ys"
  by (induction ys arbitrary: xs) (auto intro: bindE_cong)

fun matches_pull_request_trigger ::
  "yaml_api \<Rightarrow> 'r regex_api \<Rightarrow> yaml_value \<Rightarrow> string \<Rightarrow> string \<Rightarrow> string list option \<Rightarrow> string \<Rightarrow> failure + bool"
where
  "matches_pull_request_trigger Y R (YString s) action base_ref changed_paths workflow =
    Inr (s = ''pull_request'' \<and> is_default_action action)"
| "matches_pull_request_trigger Y R (YSequence vs) action base_ref changed_paths workflow =
    anyE (\<lambda>v. matches_pull_request_trigger Y R v action base_ref changed_paths workflow) vs"
| "matches_pull_request_trigger Y R (YMapping vs) action base_ref changed_paths workflow =
    (case mapping_get vs ''pull_request'' of
      None \<Rightarrow> Inr False
    | Some YNull \<Rightarrow> Inr (is_default_action action)
    | Some (YMapping options) \<Rightarrow>
        matches_pull_request_options Y R options action base_ref changed_paths workflow
    | Some _ \<Rightarrow> Inl (unsupported_workflow workflow (OnTrigger TriggerNotMapping)))"
| "matches_pull_request_trigger Y R v action base_ref changed_paths workflow = Inr False"

definition matches_pull_request ::
  "yaml_api \<Rightarrow> 'r regex_api \<Rightarrow> workflow \<Rightarrow> string \<Rightarrow> string \<Rightarrow> string list option \<Rightarrow> failure + bool"
where
  "matches_pull_request Y R workflow action base_ref changed_paths =
    matches_pull_request_trigger Y R (wf_trigger workflow) action base_ref changed_paths (wf_name workflow)"

fun trigger_has_pull_request_path_filter :: "yaml_api \<Rightarrow> yaml_value \<Rightarrow> bool" where
  "trigger_has_pull_request_path_filter Y (YSequence vs) =
    list_ex (trigger_has_pull_request_path_filter Y) vs"
| "trigger_has_pull_request_path_filter Y (YMapping vs) =
    (case Option.bind (mapping_get vs ''pull_request'') (as_mapping Y) of
      None \<Rightarrow> False
    | Some options \<Rightarrow>
        mapping_contains_key options ''paths'' \<or> mapping_contains_key options ''paths-ignore'')"
| "trigger_has_pull_request_path_filter Y v = False"

definition requires_pull_request_changed_paths :: "yaml_api \<Rightarrow> workflow \<Rightarrow> bool" where
  "requires_pull_request_changed_paths Y workflow =
    trigger_has_pull_request_path_filter Y (wf_trigger workflow)"

section \<open>What a glob pattern means\<close>

text \<open>
  The abstract syntax of patterns: a character, \<open>**\<close>, \<open>*\<close>, a range in brackets, and a
  character or range followed by a quantifier.
\<close>

datatype glob_item =
    GlobChar string
  | GlobAny
  | GlobSegment
  | GlobRange "string list"
  | GlobQuantified glob_item string

fun simple_item :: "glob_item \<Rightarrow> bool" where
  "simple_item (GlobChar c) = True"
| "simple_item (GlobRange cs) = True"
| "simple_item _ = False"

fun item_ok :: "glob_item \<Rightarrow> bool" where
  "item_ok (GlobRange cs) = range_ok cs"
| "item_ok (GlobQuantified i q) = (item_ok i \<and> simple_item i \<and> q \<in> {''?'', ''+''})"
| "item_ok _ = True"

definition special_characters :: "string set" where
  "special_characters = {[CHR 0x5C], ''*'', ''?'', ''+'', ''[''}"

text \<open>The characters an item can be written with.\<close>

fun item_text :: "glob_item \<Rightarrow> string list \<Rightarrow> bool" where
  "item_text (GlobChar c) cs \<longleftrightarrow> cs = [[CHR 0x5C], c] \<or> cs = [c] \<and> c \<notin> special_characters"
| "item_text GlobAny cs \<longleftrightarrow> cs = [''*'', ''*'']"
| "item_text GlobSegment cs \<longleftrightarrow> cs = [''*'']"
| "item_text (GlobRange r) cs \<longleftrightarrow> cs = [''[''] @ r @ ['']'']"
| "item_text (GlobQuantified i q) cs \<longleftrightarrow> (\<exists>text. item_text i text \<and> cs = text @ [q])"

text \<open>The characters an item matches; \<open>member\<close> is the meaning of a bracketed range.\<close>

fun item_matches :: "(string \<Rightarrow> string \<Rightarrow> bool) \<Rightarrow> glob_item \<Rightarrow> string list \<Rightarrow> bool" where
  "item_matches member (GlobChar c) cs \<longleftrightarrow> cs = [c]"
| "item_matches member GlobAny cs \<longleftrightarrow> [CHR 0x0A] \<notin> set cs"
| "item_matches member GlobSegment cs \<longleftrightarrow> ''/'' \<notin> set cs"
| "item_matches member (GlobRange r) cs \<longleftrightarrow> (\<exists>c. cs = [c] \<and> member (concat r) c)"
| "item_matches member (GlobQuantified i q) cs \<longleftrightarrow>
    (if q = ''?'' then cs = [] \<or> item_matches member i cs
     else \<exists>pieces. pieces \<noteq> [] \<and> concat pieces = cs \<and> list_all (item_matches member i) pieces)"

definition glob_matches :: "(string \<Rightarrow> string \<Rightarrow> bool) \<Rightarrow> glob_item list \<Rightarrow> string list \<Rightarrow> bool" where
  "glob_matches member items cs \<longleftrightarrow>
    (\<exists>pieces. list_all2 (item_matches member) items pieces \<and> concat pieces = cs)"

fun item_source :: "'r regex_api \<Rightarrow> glob_item \<Rightarrow> string" where
  "item_source R (GlobChar c) = rx_escape R c"
| "item_source R GlobAny = ''.*''"
| "item_source R GlobSegment = ''[^/]*''"
| "item_source R (GlobRange r) = ''['' @ concat r @ '']''"
| "item_source R (GlobQuantified i q) = ''(?:'' @ item_source R i @ '')'' @ q"

definition item_atom :: "'r regex_api \<Rightarrow> glob_item \<Rightarrow> atom" where
  "item_atom R i = \<lparr>atom_source = item_source R i, quantifiable = simple_item i\<rparr>"

definition glob_source :: "'r regex_api \<Rightarrow> glob_item list \<Rightarrow> string" where
  "glob_source R items = anchored (concat (map (item_source R) items))"

text \<open>
  What the code relies on of the \<open>regex\<close> crate: on the expressions it writes, a compiled
  expression matches the strings the items describe.
\<close>

definition regex_meaning :: "'r regex_api \<Rightarrow> (string \<Rightarrow> string \<Rightarrow> bool) \<Rightarrow> bool" where
  "regex_meaning R member \<longleftrightarrow> (\<forall>items r s. list_all item_ok items \<longrightarrow>
    rx_new R (glob_source R items) = Inr r \<longrightarrow>
    rx_is_match R r s = glob_matches member items (utf8_chars s))"

text \<open>A pattern reads as a list of items when its characters are texts of the items in order.\<close>

definition reads :: "string list \<Rightarrow> glob_item list \<Rightarrow> bool" where
  "reads cs items \<longleftrightarrow> (\<exists>texts. list_all2 item_text items texts \<and> concat texts = cs) \<and> list_all item_ok items"

lemma reads_Nil: "reads [] []"
  by (simp add: reads_def)

lemma reads_snoc:
  assumes "reads cs items" "item_text i text" "item_ok i"
  shows "reads (cs @ text) (items @ [i])"
proof -
  from assms(1) obtain texts where "list_all2 item_text items texts" "concat texts = cs" "list_all item_ok items"
    by (auto simp: reads_def)
  then show ?thesis
    using assms(2,3) unfolding reads_def by (auto intro!: exI [of _ "texts @ [text]"] list_all2_appendI)
qed

lemma reads_quantify:
  assumes "reads cs (items @ [i])" "simple_item i" "q \<in> {''?'', ''+''}"
  shows "reads (cs @ [q]) (items @ [GlobQuantified i q])"
proof -
  from assms(1) obtain texts t where "list_all2 item_text items texts" "item_text i t" "concat texts @ t = cs"
      "list_all item_ok items" "item_ok i"
    by (auto simp: reads_def list_all2_append1 list_all2_Cons1)
  then show ?thesis
    using assms(2,3) unfolding reads_def
    by (auto intro!: exI [of _ "texts @ [t @ [q]]"] list_all2_appendI)
qed

lemma position_Some: "position x ys = Some n \<Longrightarrow> ys = take n ys @ x # drop (Suc n) ys"
  by (induction ys arbitrary: n) (auto split: if_splits)

lemma position_less: "position x ys = Some n \<Longrightarrow> n < length ys"
  by (induction ys arbitrary: n) (auto split: if_splits)

lemma take_text: "drop i cs = text @ rest \<Longrightarrow> take (i + length text) cs = take i cs @ text"
  by (simp add: take_add)

lemma length_text: "drop i cs = text @ rest \<Longrightarrow> text \<noteq> [] \<Longrightarrow> i + length text \<le> length cs"
  by (metis drop_eq_Nil append_is_Nil_conv length_append length_drop le_add1 nle_le
      ordered_cancel_comm_monoid_diff_class.le_diff_conv2 add.commute)

lemma drop_one: "i < length cs \<Longrightarrow> drop i cs = [cs ! i] @ drop (Suc i) cs"
  by (simp add: Cons_nth_drop_Suc)

lemma drop_two: "get_at cs (Suc i) = Some c \<Longrightarrow> drop i cs = [cs ! i, c] @ drop (Suc (Suc i)) cs"
  by (auto simp: get_at_def Cons_nth_drop_Suc split: if_splits)

lemma reads_item:
  assumes "drop i cs = text @ rest" "reads (take i cs) items" "item_text it text" "item_ok it" "text \<noteq> []"
  shows "reads (take (i + length text) cs) (items @ [it]) \<and> i + length text \<le> length cs"
  using reads_snoc [OF assms(2,3,4)] take_text [OF assms(1)] length_text [OF assms(1,5)] by simp

text \<open>One turn of the loop reads one item, or the quantifier of the last one.\<close>

lemma glob_loop_turn:
  assumes run: "glob_loop R w f p cs i (map (item_atom R) items) = Inr atoms"
    and reads: "reads (take i cs) items" and i: "i < length cs"
  shows "\<exists>i' items'. i < i' \<and> i' \<le> length cs \<and> reads (take i' cs) items' \<and>
    glob_loop R w f p cs i' (map (item_atom R) items') = Inr atoms"
proof -
  have add: ?thesis if "drop i cs = tx @ rest" "item_text it tx" "item_ok it" "tx \<noteq> []"
    "glob_loop R w f p cs (i + length tx) (map (item_atom R) items @ [item_atom R it]) = Inr atoms"
    for tx rest it
    using reads_item [OF that(1) reads that(2,3,4)] that(4,5)
    by (intro exI [of _ "i + length tx"] exI [of _ "items @ [it]"]) simp
  note loop = run [unfolded glob_loop.simps [of R w f p cs i], simplified i Let_def if_True]
  let ?c = "cs ! i"
  consider "?c = [CHR 0x5C]" | "?c = ''*''" "get_at cs (i + 1) = Some ''*''"
    | "?c = ''*''" "get_at cs (i + 1) \<noteq> Some ''*''" | "?c = ''?'' \<or> ?c = ''+''" | "?c = ''[''"
    | "?c \<notin> special_characters" by (auto simp: special_characters_def)
  then show ?thesis
  proof cases
    case 1
    with loop obtain c where c: "get_at cs (Suc i) = Some c"
      "glob_loop R w f p cs (i + 2) (map (item_atom R) items @ [item_atom R (GlobChar c)]) = Inr atoms"
      by (auto simp: item_atom_def split: option.splits)
    show ?thesis by (rule add [OF drop_two [OF c(1)], of "GlobChar c"]) (use 1 c(2) in simp_all)
  next
    case 2
    with loop have "glob_loop R w f p cs (i + 2) (map (item_atom R) items @ [item_atom R GlobAny]) = Inr atoms"
      by (simp add: item_atom_def)
    then show ?thesis using 2 drop_two [of cs i "''*''"] by (intro add [where it = GlobAny]) auto
  next
    case 3
    with loop have "glob_loop R w f p cs (i + 1) (map (item_atom R) items @ [item_atom R GlobSegment]) = Inr atoms"
      by (simp add: item_atom_def)
    then show ?thesis using 3 drop_one [OF i] by (intro add [where it = GlobSegment]) auto
  next
    case 4
    then have q: "?c \<noteq> [CHR 0x5C]" "?c \<noteq> ''*''" "?c \<in> {''?'', ''+''}" by auto
    with loop have ne: "items \<noteq> []" and simple: "simple_item (last items)"
      and rest: "glob_loop R w f p cs (i + 1) (butlast (map (item_atom R) items) @
        [item_atom R (GlobQuantified (last items) ?c)]) = Inr atoms"
      using 4 by (auto simp: item_atom_def last_map split: if_splits)
    have "reads (take i cs @ [?c]) (butlast items @ [GlobQuantified (last items) ?c])"
      using reads_quantify [of "take i cs" "butlast items" "last items" ?c] reads ne simple q(3) by simp
    then show ?thesis
      using rest i by (intro exI [of _ "Suc i"] exI [of _ "butlast items @ [GlobQuantified (last items) ?c]"])
        (simp add: take_Suc_conv_app_nth map_butlast)
  next
    case 5
    with loop obtain n where n: "position '']'' (drop (Suc i) cs) = Some n"
      "range_ok (take n (drop (Suc i) cs))"
      "glob_loop R w f p cs (i + 1 + n + 1) (map (item_atom R) items @
        [item_atom R (GlobRange (take n (drop (Suc i) cs)))]) = Inr atoms"
      by (auto simp: item_atom_def split: option.splits if_splits)
    let ?r = "take n (drop (Suc i) cs)"
    have tail: "drop (Suc i) cs = ?r @ '']'' # drop (Suc n) (drop (Suc i) cs)" using position_Some [OF n(1)] .
    have len: "length ?r = n" using position_less [OF n(1)] by simp
    have "drop i cs = ([''[''] @ ?r @ ['']'']) @ drop (Suc n) (drop (Suc i) cs)"
      using tail drop_one [OF i] 5 by simp
    then show ?thesis using n(2,3) len by (intro add [where it = "GlobRange ?r"]) auto
  next
    case 6
    with loop have "glob_loop R w f p cs (i + 1) (map (item_atom R) items @ [item_atom R (GlobChar ?c)]) = Inr atoms"
      by (simp add: item_atom_def special_characters_def)
    then show ?thesis using 6 by (intro add [OF drop_one [OF i], of "GlobChar ?c"]) simp_all
  qed
qed

text \<open>The loop reads the whole pattern: its atoms are those of items the pattern is a text of.\<close>

lemma glob_loop_sound:
  assumes "glob_loop R w f p cs i (map (item_atom R) items) = Inr atoms" "reads (take i cs) items" "i \<le> length cs"
  shows "\<exists>items. atoms = map (item_atom R) items \<and> reads cs items"
  using assms
proof (induction "length cs - i" arbitrary: i items rule: less_induct)
  case less
  show ?case
  proof (cases "i < length cs")
    case True
    from glob_loop_turn [OF less.prems(1,2) this] obtain i' items' where
      step: "i < i'" "i' \<le> length cs" "reads (take i' cs) items'"
      "glob_loop R w f p cs i' (map (item_atom R) items') = Inr atoms" by blast
    show ?thesis using less.hyps [OF _ step(4,3,2)] step(1,2) True by simp
  next
    case False
    then have "i = length cs" using less.prems(3) by simp
    then show ?thesis using less.prems by (auto simp: glob_loop.simps [of R w f p cs "length cs"])
  qed
qed

section \<open>Patterns as written\<close>

text \<open>The way back: the text of a list of items, with escapes only where they are needed.\<close>

fun write_item :: "glob_item \<Rightarrow> string list" where
  "write_item (GlobChar c) = (if c \<in> special_characters then [[CHR 0x5C], c] else [c])"
| "write_item GlobAny = [''*'', ''*'']"
| "write_item GlobSegment = [''*'']"
| "write_item (GlobRange r) = [''[''] @ r @ ['']'']"
| "write_item (GlobQuantified i q) = write_item i @ [q]"

definition write_items :: "glob_item list \<Rightarrow> string list" where
  "write_items items = concat (map write_item items)"

text \<open>A star may not be followed by another one: the two would read as \<open>**\<close>.\<close>

fun stars_ok :: "glob_item list \<Rightarrow> bool" where
  "stars_ok (GlobSegment # i # items) \<longleftrightarrow> i \<noteq> GlobSegment \<and> i \<noteq> GlobAny \<and> stars_ok (i # items)"
| "stars_ok (_ # items) \<longleftrightarrow> stars_ok items"
| "stars_ok [] \<longleftrightarrow> True"

lemma stars_ok_tl: "stars_ok (i # items) \<Longrightarrow> stars_ok items"
  by (cases "i # items" rule: stars_ok.cases) auto

lemma write_item_hd:
  "item_ok i \<Longrightarrow> write_item i \<noteq> [] \<and> (hd (write_item i) = ''*'' \<longrightarrow> i = GlobSegment \<or> i = GlobAny)"
proof (induction i)
  case (GlobQuantified i q)
  then show ?case by (cases i) (auto simp: special_characters_def)
qed (auto simp: special_characters_def)

lemma star_follow:
  assumes "stars_ok (GlobSegment # items)" "list_all item_ok items"
  shows "write_items items = [] \<or> hd (write_items items) \<noteq> ''*''"
proof (cases items)
  case (Cons i rest)
  then have "write_item i \<noteq> []" "hd (write_item i) \<noteq> ''*''"
    using write_item_hd [of i] assms by auto
  then show ?thesis using Cons by (simp add: write_items_def)
qed (simp add: write_items_def)

lemma range_ok_no_bracket: "range_ok r \<Longrightarrow> '']'' \<notin> set r"
  by (auto simp: range_ok_def list_all_iff range_char_def is_ascii_alphanumeric_def is_ascii_alphabetic_def
      is_ascii_uppercase_def is_ascii_lowercase_def is_ascii_digit_def)

lemma position_first: "x \<notin> set r \<Longrightarrow> position x (r @ x # rest) = Some (length r)"
  by (induction r) auto

lemma get_at_append [simp]: "get_at (xs @ ys) (length xs + n) = get_at ys n"
  by (simp add: get_at_def nth_append)

lemma glob_loop_simple:
  assumes "simple_item i" "item_ok i"
  shows "glob_loop R w f p (pre @ write_item i @ rest) (length pre) atoms =
    glob_loop R w f p (pre @ write_item i @ rest) (length pre + length (write_item i)) (atoms @ [item_atom R i])"
proof (cases i)
  case (GlobChar c)
  then show ?thesis
    using get_at_append [of pre "[[CHR 0x5C], c] @ rest" 1]
    by (subst glob_loop.simps)
      (auto simp: Let_def nth_append item_atom_def special_characters_def get_at_def [of "_ # _"])
next
  case (GlobRange r)
  then have r: "range_ok r" using assms(2) by simp
  have "position '']'' (r @ '']'' # rest) = Some (length r)"
    using position_first [OF range_ok_no_bracket [OF r]] .
  with GlobRange r show ?thesis
    by (subst glob_loop.simps) (simp add: Let_def nth_append item_atom_def)
qed (use assms in auto)

lemma glob_loop_item:
  assumes "item_ok i" "i = GlobSegment \<Longrightarrow> rest = [] \<or> hd rest \<noteq> ''*''"
  shows "glob_loop R w f p (pre @ write_item i @ rest) (length pre) atoms =
    glob_loop R w f p (pre @ write_item i @ rest) (length pre + length (write_item i)) (atoms @ [item_atom R i])"
proof (cases i)
  case GlobAny
  then show ?thesis
    using get_at_append [of pre "[''*'', ''*''] @ rest" 1]
    by (subst glob_loop.simps) (simp add: Let_def nth_append item_atom_def get_at_def [of "_ # _"])
next
  case GlobSegment
  then have "get_at (pre @ ''*'' # rest) (length pre + 1) \<noteq> Some ''*''"
    using assms(2) get_at_append [of pre "''*'' # rest" 1] by (cases rest) (auto simp: get_at_def)
  with GlobSegment show ?thesis
    by (subst glob_loop.simps) (simp add: Let_def nth_append item_atom_def)
next
  case (GlobQuantified j q)
  then have j: "simple_item j" "item_ok j" "q \<in> {''?'', ''+''}" using assms(1) by auto
  let ?cs = "pre @ write_item j @ q # rest" and ?n = "length pre + length (write_item j)"
  have "glob_loop R w f p ?cs (length pre) atoms = glob_loop R w f p ?cs ?n (atoms @ [item_atom R j])"
    using glob_loop_simple [OF j(1,2), of R w f p pre "q # rest"] by simp
  also have "\<dots> = glob_loop R w f p ?cs (?n + 1) (atoms @ [item_atom R (GlobQuantified j q)])"
  proof -
    have "?cs ! ?n = q" by (simp add: nth_append)
    then show ?thesis using j by (subst glob_loop.simps) (auto simp: Let_def item_atom_def)
  qed
  finally show ?thesis using GlobQuantified by simp
qed (use glob_loop_simple [of i R w f p pre rest atoms] assms in simp_all)

lemma glob_loop_items:
  assumes "list_all item_ok items" "stars_ok items"
  shows "glob_loop R w f p (pre @ write_items items) (length pre) atoms = Inr (atoms @ map (item_atom R) items)"
  using assms
proof (induction items arbitrary: pre atoms)
  case Nil
  then show ?case by (subst glob_loop.simps) (simp add: write_items_def)
next
  case (Cons i items)
  have "glob_loop R w f p (pre @ write_item i @ write_items items) (length pre) atoms =
    glob_loop R w f p (pre @ write_item i @ write_items items) (length pre + length (write_item i))
      (atoms @ [item_atom R i])"
    using Cons.prems star_follow [of items] by (intro glob_loop_item) auto
  also have "\<dots> = Inr ((atoms @ [item_atom R i]) @ map (item_atom R) items)"
    using Cons.IH [of "pre @ write_item i" "atoms @ [item_atom R i]"] Cons.prems stars_ok_tl by auto
  finally show ?case by (simp add: write_items_def)
qed

definition glob_char :: "string \<Rightarrow> bool" where
  "glob_char c \<longleftrightarrow> utf8_chars c = [c] \<and> \<not> utf8_continuation (hd c)"

lemma utf8_chars_concat: "list_all glob_char cs \<Longrightarrow> utf8_chars (concat cs) = cs"
proof (induction cs)
  case (Cons c cs)
  have "concat cs = [] \<or> \<not> utf8_continuation (hd (concat cs))"
  proof (cases cs)
    case (Cons d ds)
    then have "d \<noteq> []" "\<not> utf8_continuation (hd d)" using Cons.prems by (auto simp: glob_char_def)
    then show ?thesis using Cons by simp
  qed simp
  from utf8_chars_append [OF this, of c] Cons show ?case by (simp add: glob_char_def)
qed simp

section \<open>A model of the regular expressions the code writes\<close>

text \<open>
  Evidence that the assumption on the \<open>regex\<close> crate can hold: escaping that marks every
  byte makes the source of a list of items decodable, so matching can be defined on the
  source as the meaning of the items it comes from.
\<close>

definition byte_escape :: "string \<Rightarrow> string" where
  "byte_escape c = concat (map (\<lambda>b. [CHR 0x5C, b]) c) @ ''e''"

definition source_api :: "string regex_api" where
  "source_api = \<lparr>rx_escape = byte_escape, rx_new = Inr, rx_is_match = (\<lambda>_ _. False)\<rparr>"

definition plain_member :: "string \<Rightarrow> string \<Rightarrow> bool" where
  "plain_member r c \<longleftrightarrow> (\<exists>b. c = [b] \<and> b \<in> set r)"

definition plain_regex :: "string regex_api" where
  "plain_regex = source_api\<lparr>rx_is_match := (\<lambda>r s. \<exists>items. list_all item_ok items \<and>
    glob_source source_api items = r \<and> glob_matches plain_member items (utf8_chars s))\<rparr>"

lemma byte_escape_prefix: "byte_escape c @ x = byte_escape d @ y \<Longrightarrow> c = d \<and> x = y"
proof (induction c arbitrary: d)
  case Nil
  then show ?case by (cases d) (auto simp: byte_escape_def)
next
  case (Cons a c)
  then show ?case by (cases d) (auto simp: byte_escape_def)
qed

lemma singletons: "(\<And>x. x \<in> set r \<Longrightarrow> \<exists>c. x = [c]) \<Longrightarrow> r = map (\<lambda>c. [c]) (concat r)"
proof (induction r)
  case (Cons x r)
  from Cons.prems [of x] obtain c where "x = [c]" by auto
  with Cons show ?case by simp
qed simp

lemma range_ok_bytes:
  assumes "range_ok r"
  shows "r = map (\<lambda>c. [c]) (concat r)" "CHR '']'' \<notin> set (concat r)" "concat r \<noteq> []" "CHR ''^'' \<notin> set (concat r)"
proof -
  have each: "\<exists>c. ch = [c] \<and> c \<noteq> CHR '']'' \<and> c \<noteq> CHR ''^''" if "ch \<in> set r" for ch
  proof -
    have "range_char ch" using assms that by (auto simp: range_ok_def list_all_iff)
    moreover have "\<not> is_ascii_alphanumeric (CHR '']'')" "\<not> is_ascii_alphanumeric (CHR ''^'')" by code_simp+
    ultimately show ?thesis unfolding range_char_def by fastforce
  qed
  show "r = map (\<lambda>c. [c]) (concat r)"
    by (rule singletons) (use each in blast)
  show "CHR '']'' \<notin> set (concat r)" "CHR ''^'' \<notin> set (concat r)" by (auto dest!: each)
  show "concat r \<noteq> []" using assms by (simp add: range_ok_def)
qed

lemma bracket_prefix:
  assumes "a @ CHR '']'' # x = b @ CHR '']'' # y" "CHR '']'' \<notin> set a" "CHR '']'' \<notin> set b"
  shows "a = b \<and> x = y"
proof -
  have "takeWhile (\<lambda>c. c \<noteq> CHR '']'') (a @ CHR '']'' # x) = a"
    "takeWhile (\<lambda>c. c \<noteq> CHR '']'') (b @ CHR '']'' # y) = b"
    using assms(2,3) by (auto simp: takeWhile_append2 takeWhile_tail)
  with assms(1) show ?thesis by simp
qed

lemma byte_escape_hd: "hd (byte_escape c) \<in> {CHR 0x5C, CHR ''e''}" "byte_escape c \<noteq> []"
  by (cases c; simp add: byte_escape_def)+

lemma source_api_escape [simp]: "rx_escape source_api = byte_escape"
  by (simp add: source_api_def)

lemma byte_escape_append: "byte_escape c @ x = b # y \<Longrightarrow> b \<in> {CHR 0x5C, CHR ''e''}"
  by (cases c) (auto simp: byte_escape_def)

lemma range_source_append:
  "range_ok r \<Longrightarrow> concat r @ x = b # y \<Longrightarrow> b \<noteq> CHR ''^''"
  using range_ok_bytes(3,4) [of r] by (cases "concat r") auto

lemma item_source_prefix:
  assumes "item_ok a" "item_ok b" "item_source source_api a @ x = item_source source_api b @ y"
  shows "a = b \<and> x = y"
  using assms
proof (induction a arbitrary: b x y)
  case (GlobChar c)
  then show ?case
    by (cases b) (auto dest: byte_escape_prefix byte_escape_append)
next
  case GlobAny
  then show ?case by (cases b) (auto dest: byte_escape_append [OF sym])
next
  case GlobSegment
  then show ?case by (cases b) (auto dest: byte_escape_append [OF sym] range_source_append [OF _ sym])
next
  case (GlobRange r)
  show ?case
  proof (cases b)
    case (GlobRange r')
    have ok: "range_ok r" "range_ok r'" using GlobRange.prems GlobRange by auto
    have "concat r = concat r' \<and> x = y"
      using GlobRange.prems(3) GlobRange range_ok_bytes(2) [OF ok(1)] range_ok_bytes(2) [OF ok(2)]
      by (intro bracket_prefix) auto
    then show ?thesis using range_ok_bytes(1) [OF ok(1)] range_ok_bytes(1) [OF ok(2)] GlobRange by metis
  qed (use GlobRange in \<open>auto dest: byte_escape_append [OF sym] range_source_append\<close>)
next
  case (GlobQuantified i q)
  show ?case
  proof (cases b)
    case (GlobQuantified j q')
    have "i = j \<and> '')'' @ q @ x = '')'' @ q' @ y"
      using GlobQuantified.prems GlobQuantified by (intro GlobQuantified.IH) auto
    moreover have "length q = 1" "length q' = 1" using GlobQuantified.prems GlobQuantified by auto
    ultimately show ?thesis using GlobQuantified by (auto simp: append_eq_append_conv)
  qed (use GlobQuantified in \<open>auto dest: byte_escape_append [OF sym]\<close>)
qed

lemma item_source_nonempty: "item_ok a \<Longrightarrow> item_source source_api a \<noteq> []"
  by (cases a) (auto simp: byte_escape_hd)

lemma glob_source_inj:
  assumes "list_all item_ok a" "list_all item_ok b"
    and "concat (map (item_source source_api) a) = concat (map (item_source source_api) b)"
  shows "a = b"
  using assms
proof (induction a arbitrary: b)
  case Nil
  then show ?case by (cases b) (auto simp: item_source_nonempty)
next
  case (Cons i a)
  show ?case
  proof (cases b)
    case Nil
    then show ?thesis using Cons.prems by (simp add: item_source_nonempty)
  next
    case (Cons j b')
    have "i = j \<and> concat (map (item_source source_api) a) = concat (map (item_source source_api) b')"
      using Cons.prems Cons by (intro item_source_prefix) auto
    then show ?thesis using Cons.IH [of b'] Cons.prems Cons by simp
  qed
qed

lemma plain_regex_meaning: "regex_meaning plain_regex plain_member"
proof -
  have source: "item_source plain_regex i = item_source source_api i" for i
    by (induction i) (simp_all add: plain_regex_def source_api_def)
  have new: "rx_new plain_regex = Inr" by (simp add: plain_regex_def source_api_def)
  have inj: "a = b" if "list_all item_ok a" "list_all item_ok b" "glob_source source_api a = glob_source source_api b"
    for a b
    using glob_source_inj [OF that(1,2)] that(3) by (simp add: glob_source_def anchored_def)
  have "rx_is_match plain_regex r s = glob_matches plain_member items (utf8_chars s)"
    if "list_all item_ok items" "rx_new plain_regex (glob_source plain_regex items) = Inr r" for items r s
  proof -
    have "r = glob_source source_api items"
      using that(2) by (simp add: new) (simp add: glob_source_def source cong: map_cong)
    then show ?thesis using inj that(1) by (auto simp: plain_regex_def)
  qed
  then show ?thesis by (simp add: regex_meaning_def)
qed

section \<open>Properties of the triggers\<close>

lemma compile_glob_reads:
  assumes "compile_glob R pattern w f = Inr r"
  shows "\<exists>items. reads (utf8_chars pattern) items \<and> rx_new R (glob_source R items) = Inr r"
proof -
  from assms obtain atoms where a: "glob_loop R w f pattern (utf8_chars pattern) 0 (map (item_atom R) []) = Inr atoms"
    "(case rx_new R (anchored (concat (map atom_source atoms))) of
      Inl error \<Rightarrow> Inl (unsupported_workflow w (OnTrigger (GlobRegexInvalid f pattern error)))
    | Inr regex \<Rightarrow> Inr regex) = Inr r"
    by (auto simp: compile_glob_def bindE_Inr)
  have new: "rx_new R (anchored (concat (map atom_source atoms))) = Inr r"
    using a(2) by (cases "rx_new R (anchored (concat (map atom_source atoms)))") simp_all
  from glob_loop_sound [OF a(1)] obtain items where "atoms = map (item_atom R) items"
    "reads (utf8_chars pattern) items" by (auto simp: reads_Nil)
  with new show ?thesis by (auto simp: glob_source_def item_atom_def comp_def)
qed

lemma compile_glob_meaning:
  assumes "regex_meaning R member" "compile_glob R pattern w f = Inr r"
  shows "\<exists>items. reads (utf8_chars pattern) items \<and>
    (\<forall>s. rx_is_match R r s \<longleftrightarrow> glob_matches member items (utf8_chars s))"
proof -
  from compile_glob_reads [OF assms(2)] obtain items where items: "reads (utf8_chars pattern) items"
    "rx_new R (glob_source R items) = Inr r" by blast
  then have "list_all item_ok items" by (simp add: reads_def)
  with items assms(1) show ?thesis unfolding regex_meaning_def by blast
qed



text \<open>
  Writing a list of items as a pattern and compiling it gives the regular expression of
  the same items: nothing is lost or read differently, escapes included.
\<close>

theorem compile_glob_roundtrip:
  assumes "list_all item_ok items" and "stars_ok items" and "list_all glob_char (write_items items)"
  shows "compile_glob R (concat (write_items items)) workflow filter_name =
    (case rx_new R (glob_source R items) of
      Inl e \<Rightarrow> Inl (unsupported_workflow workflow
        (OnTrigger (GlobRegexInvalid filter_name (concat (write_items items)) e)))
    | Inr r \<Rightarrow> Inr r)"
proof -
  have "glob_loop R workflow filter_name p (write_items items) 0 [] = Inr (map (item_atom R) items)" for p
    using glob_loop_items [OF assms(1,2), of R workflow filter_name p "[]" "[]"] by simp
  then show ?thesis
    by (simp add: compile_glob_def utf8_chars_concat [OF assms(3)] glob_source_def item_atom_def comp_def)
qed

theorem compile_glob_roundtrip_witness:
  "compile_glob plain_regex ''v[0-9]+.**'' ''ci'' ''branches'' =
    Inr (glob_source plain_regex [GlobChar ''v'', GlobQuantified (GlobRange [''0'', ''-'', ''9'']) ''+'',
      GlobChar ''.'', GlobAny])"
proof -
  let ?items = "[GlobChar ''v'', GlobQuantified (GlobRange [''0'', ''-'', ''9'']) ''+'', GlobChar ''.'', GlobAny]"
  have digits: "is_ascii_alphanumeric (CHR ''0'')" "is_ascii_alphanumeric (CHR ''9'')" by code_simp+
  have "list_all item_ok ?items" "stars_ok ?items" "list_all glob_char (write_items ?items)"
    using digits
    by (simp_all add: write_items_def special_characters_def utf8_continuation_def range_ok_def range_char_def
        glob_char_def)
  moreover have "concat (write_items ?items) = ''v[0-9]+.**''"
    by (simp add: write_items_def special_characters_def)
  moreover have "rx_new plain_regex = Inr" by (simp add: plain_regex_def source_api_def)
  ultimately show ?thesis
    using compile_glob_roundtrip [of ?items plain_regex "''ci''" "''branches''"] by simp
qed

section \<open>Selection of workflows\<close>

text \<open>The ordered filters: the last pattern that matches decides.\<close>

definition last_match_includes :: "'r regex_api \<Rightarrow> (bool \<times> 'r) list \<Rightarrow> string \<Rightarrow> bool" where
  "last_match_includes R patterns candidate \<longleftrightarrow>
    (\<exists>before pattern after. patterns = before @ (False, pattern) # after \<and>
      rx_is_match R pattern candidate \<and> (\<forall>(n, p)\<in>set after. \<not> rx_is_match R p candidate))"

lemma ordered_patterns_last_match:
  "matches_compiled_ordered_patterns R patterns candidate \<longleftrightarrow> last_match_includes R patterns candidate"
proof (induction patterns rule: rev_induct)
  case Nil
  show ?case by (simp add: matches_compiled_ordered_patterns_def last_match_includes_def)
next
  case (snoc x patterns)
  obtain n p where x: "x = (n, p)" by fastforce
  show ?case
  proof (cases "rx_is_match R p candidate")
    case True
    have "last_match_includes R (patterns @ [x]) candidate \<longleftrightarrow> \<not> n"
    proof
      assume "last_match_includes R (patterns @ [x]) candidate"
      then obtain before q after where "patterns @ [x] = before @ (False, q) # after"
        "\<forall>(n, p)\<in>set after. \<not> rx_is_match R p candidate" by (auto simp: last_match_includes_def)
      then show "\<not> n" using True x by (cases after rule: rev_cases) auto
    next
      assume "\<not> n"
      then show "last_match_includes R (patterns @ [x]) candidate"
        using True x unfolding last_match_includes_def by (intro exI [of _ patterns] exI [of _ p] exI [of _ "[]"]) simp
    qed
    then show ?thesis using True x by (simp add: matches_compiled_ordered_patterns_def)
  next
    case False
    have "last_match_includes R (patterns @ [x]) candidate \<longleftrightarrow> last_match_includes R patterns candidate"
    proof
      assume "last_match_includes R (patterns @ [x]) candidate"
      then obtain before q after where s: "patterns @ [x] = before @ (False, q) # after"
        "rx_is_match R q candidate" "\<forall>(n, p)\<in>set after. \<not> rx_is_match R p candidate"
        by (auto simp: last_match_includes_def)
      then have "after \<noteq> []" using False x by auto
      then have "patterns = before @ (False, q) # butlast after"
        using s(1) by (metis butlast_append butlast_snoc butlast.simps(2) list.distinct(1))
      moreover have "\<forall>(n, p)\<in>set (butlast after). \<not> rx_is_match R p candidate"
        using s(3) by (auto dest: in_set_butlastD)
      ultimately show "last_match_includes R patterns candidate"
        using s(2) unfolding last_match_includes_def by blast
    next
      assume "last_match_includes R patterns candidate"
      then obtain before q after where "patterns = before @ (False, q) # after"
        "rx_is_match R q candidate" "\<forall>(n, p)\<in>set after. \<not> rx_is_match R p candidate"
        by (auto simp: last_match_includes_def)
      then show "last_match_includes R (patterns @ [x]) candidate"
        using False x unfolding last_match_includes_def
        by (intro exI [of _ before] exI [of _ q] exI [of _ "after @ [x]"]) auto
    qed
    with False x snoc show ?thesis by (simp add: matches_compiled_ordered_patterns_def)
  qed
qed

text \<open>What the options of a \<open>pull_request\<close> trigger ask for, given their compiled filters.\<close>

definition pull_request_selected ::
  "yaml_api \<Rightarrow> 'r regex_api \<Rightarrow> mapping \<Rightarrow> string \<Rightarrow> string \<Rightarrow> string list option \<Rightarrow> string \<Rightarrow> bool"
where
  "pull_request_selected Y R options action base_ref changed_paths workflow \<longleftrightarrow>
    (case mapping_get options ''types'' of
      None \<Rightarrow> is_default_action action | Some types \<Rightarrow> value_contains_string Y types action) \<and>
    (\<forall>v. mapping_get options ''branches'' = Some v \<longrightarrow> (\<exists>patterns.
      compile_ordered_patterns Y R v workflow ''branches'' = Inr patterns \<and>
      last_match_includes R patterns base_ref)) \<and>
    (\<forall>v. mapping_get options ''branches-ignore'' = Some v \<longrightarrow> (\<exists>patterns.
      compile_ignored_patterns Y R v workflow ''branches-ignore'' = Inr patterns \<and>
      (\<forall>p\<in>set patterns. \<not> rx_is_match R p base_ref))) \<and>
    (\<forall>v. mapping_get options ''paths'' = Some v \<longrightarrow> (\<exists>patterns paths. changed_paths = Some paths \<and>
      compile_ordered_patterns Y R v workflow ''paths'' = Inr patterns \<and>
      (\<exists>path\<in>set paths. last_match_includes R patterns path))) \<and>
    (\<forall>v. mapping_get options ''paths-ignore'' = Some v \<longrightarrow> (\<exists>patterns paths. changed_paths = Some paths \<and>
      compile_ignored_patterns Y R v workflow ''paths-ignore'' = Inr patterns \<and>
      (\<exists>path\<in>set paths. \<forall>p\<in>set patterns. \<not> rx_is_match R p path)))"

lemma unless_filter_Inr:
  "unless_filter v rejects rest = Inr b \<longleftrightarrow>
    (case v of None \<Rightarrow> rest () = Inr b
     | Some v \<Rightarrow> rejects v = Inr True \<and> \<not> b \<or> rejects v = Inr False \<and> rest () = Inr b)"
  by (auto simp: unless_filter_def bindE_Inr split: option.splits if_splits)

lemma path_filters_Inr:
  assumes "path_filters Y R options changed_paths workflow = Inr b"
  shows "b \<longleftrightarrow>
    (\<forall>v. mapping_get options ''paths'' = Some v \<longrightarrow> (\<exists>patterns paths. changed_paths = Some paths \<and>
      compile_ordered_patterns Y R v workflow ''paths'' = Inr patterns \<and>
      (\<exists>path\<in>set paths. last_match_includes R patterns path))) \<and>
    (\<forall>v. mapping_get options ''paths-ignore'' = Some v \<longrightarrow> (\<exists>patterns paths. changed_paths = Some paths \<and>
      compile_ignored_patterns Y R v workflow ''paths-ignore'' = Inr patterns \<and>
      (\<exists>path\<in>set paths. \<forall>p\<in>set patterns. \<not> rx_is_match R p path)))"
proof (cases changed_paths)
  case None
  then show ?thesis
    using assms by (auto simp: path_filters_def mapping_contains_key_def ok_or_def split: if_splits)
next
  case (Some paths)
  show ?thesis
  proof (cases "mapping_get options ''paths'' = None \<and> mapping_get options ''paths-ignore'' = None")
    case True
    then show ?thesis using assms by (simp add: path_filters_def mapping_contains_key_def)
  next
    case False
    show ?thesis
    proof (cases "paths = []")
      case True
      then have "\<not> b"
        using assms False Some by (auto simp: path_filters_def mapping_contains_key_def ok_or_def split: if_splits)
      then show ?thesis using False Some True by auto
    next
      case ne: False
      then show ?thesis
        using assms False Some
        by (auto simp: path_filters_def mapping_contains_key_def ok_or_def unless_filter_Inr
            matches_any_ordered_path_def bindE_Inr list_ex_iff list_all_iff ordered_patterns_last_match
            split: option.splits)
    qed
  qed
qed

lemma matches_options_Inr:
  assumes "matches_pull_request_options Y R options action base_ref changed_paths workflow = Inr b"
  shows "b \<longleftrightarrow> pull_request_selected Y R options action base_ref changed_paths workflow"
proof -
  let ?types = "case mapping_get options ''types'' of
      None \<Rightarrow> is_default_action action | Some types \<Rightarrow> value_contains_string Y types action"
  show ?thesis
  proof (cases ?types)
    case False
    then show ?thesis
      using assms by (auto simp: matches_pull_request_options_def result_simps pull_request_selected_def)
  next
    case True
    have run: "unless_filter (mapping_get options ''branches'') (\<lambda>branches.
        bindE (matches_ordered_patterns Y R branches base_ref workflow ''branches'') (\<lambda>b. Inr (\<not> b))) (\<lambda>_.
      unless_filter (mapping_get options ''branches-ignore'') (\<lambda>ignored.
        matches_ignored_pattern Y R ignored base_ref workflow ''branches-ignore'') (\<lambda>_.
      path_filters Y R options changed_paths workflow)) = Inr b"
      using assms True by (auto simp: matches_pull_request_options_def bindE_Inr)
    then show ?thesis
      using True path_filters_Inr [of Y R options changed_paths workflow b]
      by (auto simp: unless_filter_Inr pull_request_selected_def matches_ordered_patterns_def
          matches_ignored_pattern_def bindE_Inr ordered_patterns_last_match list_ex_iff split: option.splits)
  qed
qed

lemma anyE_Inr_True: "anyE f xs = Inr True \<Longrightarrow> \<exists>x\<in>set xs. f x = Inr True"
  by (induction xs) (auto simp: bindE_Inr split: if_splits)

lemma anyE_Inr_False: "anyE f xs = Inr False \<Longrightarrow> \<forall>x\<in>set xs. f x = Inr False"
  by (induction xs) (auto simp: bindE_Inr split: if_splits)

text \<open>The abstract trigger: which pull request events a trigger value selects.\<close>

fun trigger_selects ::
  "yaml_api \<Rightarrow> 'r regex_api \<Rightarrow> yaml_value \<Rightarrow> string \<Rightarrow> string \<Rightarrow> string list option \<Rightarrow> string \<Rightarrow> bool"
where
  "trigger_selects Y R (YString s) action base_ref changed_paths workflow \<longleftrightarrow>
    s = ''pull_request'' \<and> is_default_action action"
| "trigger_selects Y R (YSequence vs) action base_ref changed_paths workflow \<longleftrightarrow>
    (\<exists>v\<in>set vs. trigger_selects Y R v action base_ref changed_paths workflow)"
| "trigger_selects Y R (YMapping vs) action base_ref changed_paths workflow \<longleftrightarrow>
    mapping_get vs ''pull_request'' = Some YNull \<and> is_default_action action \<or>
    (\<exists>options. mapping_get vs ''pull_request'' = Some (YMapping options) \<and>
      pull_request_selected Y R options action base_ref changed_paths workflow)"
| "trigger_selects Y R _ action base_ref changed_paths workflow \<longleftrightarrow> False"

lemma matches_trigger_Inr:
  "matches_pull_request_trigger Y R v action base_ref changed_paths workflow = Inr b \<Longrightarrow>
    b \<longleftrightarrow> trigger_selects Y R v action base_ref changed_paths workflow"
proof (induction Y R v action base_ref changed_paths workflow arbitrary: b
    rule: matches_pull_request_trigger.induct)
  case (2 Y R vs action base_ref changed_paths workflow)
  let ?f = "\<lambda>v. matches_pull_request_trigger Y R v action base_ref changed_paths workflow"
  have run: "anyE ?f vs = Inr b" using "2.prems" by simp
  show ?case
  proof (cases b)
    case True
    then obtain v where "v \<in> set vs" "?f v = Inr True" using run anyE_Inr_True [of ?f vs] by auto
    then show ?thesis using "2.IH" True by auto
  next
    case False
    then have "\<forall>v\<in>set vs. ?f v = Inr False" using run anyE_Inr_False [of ?f vs] by simp
    then show ?thesis using "2.IH" False by auto
  qed
next
  case (3 Y R vs action base_ref changed_paths workflow)
  then show ?case
    by (auto split: option.splits yaml_value.splits dest: matches_options_Inr)
qed auto

lemma no_fault_glob_loop: "no_fault (glob_loop R w f p cs i atoms)"
proof (induction "length cs - i" arbitrary: i atoms rule: less_induct)
  case less
  have later: "no_fault (glob_loop R w f p cs j atoms)" if "i < length cs" "i < j" for j atoms
    using less that by simp
  show ?case
    by (subst glob_loop.simps) (auto simp: Let_def later split: option.splits)
qed

lemma no_fault_compile_glob: "no_fault (compile_glob R pattern w f)"
  by (auto simp: compile_glob_def no_fault_glob_loop intro!: no_fault_bindE split: sum.splits)

lemma no_fault_patterns:
  "no_fault (compile_ordered_patterns Y R v w f)" "no_fault (compile_ignored_patterns Y R v w f)"
proof -
  have strings: "no_fault (string_values Y v w f)"
    by (auto simp: string_values_def intro!: no_fault_bindE no_fault_mapE split: yaml_value.splits)
  have "no_fault (compile_ordered_pattern R w f p)" for p
    by (auto simp: compile_ordered_pattern_def no_fault_compile_glob Let_def case_prod_unfold intro!: no_fault_bindE)
  with strings show "no_fault (compile_ordered_patterns Y R v w f)"
    by (auto simp: compile_ordered_patterns_def intro!: no_fault_bindE no_fault_mapE)
  from strings show "no_fault (compile_ignored_patterns Y R v w f)"
    by (auto simp: compile_ignored_patterns_def no_fault_compile_glob intro!: no_fault_bindE no_fault_mapE)
qed

lemma no_fault_unless:
  "(\<And>v. no_fault (rejects v)) \<Longrightarrow> no_fault (rest ()) \<Longrightarrow> no_fault (unless_filter v rejects rest)"
  by (auto simp: unless_filter_def intro!: no_fault_bindE split: option.splits)

lemma no_fault_options: "no_fault (matches_pull_request_options Y R options action base_ref changed_paths w)"
proof -
  have "no_fault (path_filters Y R options changed_paths w)"
    by (auto simp: path_filters_def matches_any_ordered_path_def no_fault_patterns
        intro!: no_fault_bindE no_fault_unless)
  then show ?thesis
    by (auto simp: matches_pull_request_options_def matches_ordered_patterns_def matches_ignored_pattern_def
        trigger_key_def no_fault_patterns intro!: no_fault_bindE no_fault_unless
        no_fault_foldE [where P = "\<lambda>_. True"])
qed

lemma no_fault_anyE: "(\<And>x. x \<in> set xs \<Longrightarrow> no_fault (f x)) \<Longrightarrow> no_fault (anyE f xs)"
  by (induction xs) (auto intro!: no_fault_bindE)

lemma no_fault_trigger: "no_fault (matches_pull_request_trigger Y R v action base_ref changed_paths w)"
proof (induction Y R v action base_ref changed_paths w rule: matches_pull_request_trigger.induct)
  case (2 Y R vs action base_ref changed_paths w)
  then show ?case by (auto intro: no_fault_anyE)
next
  case (3 Y R vs action base_ref changed_paths w)
  then show ?case by (auto simp: no_fault_options split: option.splits yaml_value.splits)
qed simp_all

definition sample_trigger :: yaml_value where
  "sample_trigger = YMapping [(YString ''pull_request'', YMapping
    [(YString ''branches'', YSequence [YString ''main'', YString ''rel'', YString ''!rel''])])]"

text \<open>
  C10. Matching never panics, and when it decides, a workflow runs for a pull request event
  exactly if the abstract trigger selects the event: the action is listed or a default one,
  the base branch is included by the last ordered pattern that matches it and by no ignored
  one, and some changed path is included, or is not ignored.
\<close>

theorem matches_pull_request_correct:
  "no_fault (matches_pull_request Y R workflow action base_ref changed_paths) \<and>
   (matches_pull_request Y R workflow action base_ref changed_paths = Inr b \<longrightarrow>
     (b \<longleftrightarrow> trigger_selects Y R (wf_trigger workflow) action base_ref changed_paths (wf_name workflow)))"
  unfolding matches_pull_request_def using no_fault_trigger matches_trigger_Inr by blast

definition literal_regex :: "string regex_api" where
  "literal_regex = \<lparr>rx_escape = (\<lambda>s. s), rx_new = Inr, rx_is_match = (\<lambda>r s. r = anchored s)\<rparr>"

definition trigger_workflow :: workflow where
  "trigger_workflow = \<lparr>wf_name = ''ci'', wf_trigger = sample_trigger, wf_env = [],
    wf_defaults = \<lparr>df_run = \<lparr>rd_shell = None, rd_working_directory = None, rd_extra = []\<rparr>, df_extra = []\<rparr>,
    wf_permissions = None, wf_run_name = None, wf_concurrency = None, wf_jobs = [], wf_extra = []\<rparr>"

theorem matches_pull_request_correct_witness:
  "trigger_selects plain_yaml literal_regex sample_trigger ''opened'' ''main'' None ''ci'' \<and>
   \<not> trigger_selects plain_yaml literal_regex sample_trigger ''opened'' ''rel'' None ''ci''"
proof -
  have "matches_pull_request plain_yaml literal_regex trigger_workflow ''opened'' ''main'' None = Inr True"
    "matches_pull_request plain_yaml literal_regex trigger_workflow ''opened'' ''rel'' None = Inr False"
    by code_simp+
  then show ?thesis
    using matches_pull_request_correct [of plain_yaml literal_regex trigger_workflow]
    by (auto simp: trigger_workflow_def)
qed

lemma anyE_cong_on: "(\<And>x. x \<in> set xs \<Longrightarrow> f x = g x) \<Longrightarrow> anyE f xs = anyE g xs"
  by (rule anyE_cong) simp_all

lemma changed_paths_irrelevant:
  assumes "yaml_api_ok Y" "\<not> trigger_has_pull_request_path_filter Y v"
  shows "matches_pull_request_trigger Y R v action base_ref changed_paths w =
    matches_pull_request_trigger Y R v action base_ref other_paths w"
  using assms
proof (induction Y R v action base_ref changed_paths w rule: matches_pull_request_trigger.induct)
  case (2 Y R vs action base_ref changed_paths w)
  then show ?case by (auto simp: list_ex_iff intro!: anyE_cong_on)
next
  case (3 Y R vs action base_ref changed_paths w)
  then show ?case
    by (auto simp: yaml_api_ok_def matches_pull_request_options_def path_filters_def
        split: option.splits yaml_value.splits)
qed simp_all

text \<open>
  \<open>requires_pull_request_changed_paths\<close> is a sound test for fetching the changed files:
  when it is false, matching gives the same result with and without them, so no path filter
  is evaluated against a missing list.
\<close>

theorem requires_changed_paths_sound:
  assumes "yaml_api_ok Y" and "\<not> requires_pull_request_changed_paths Y workflow"
  shows "matches_pull_request Y R workflow action base_ref (Some paths) =
    matches_pull_request Y R workflow action base_ref None"
  using assms changed_paths_irrelevant
  unfolding matches_pull_request_def requires_pull_request_changed_paths_def by blast

theorem requires_changed_paths_sound_witness:
  "matches_pull_request plain_yaml literal_regex trigger_workflow ''opened'' ''main'' (Some [''a.rs'']) =
    matches_pull_request plain_yaml literal_regex trigger_workflow ''opened'' ''main'' None"
proof (rule requires_changed_paths_sound [OF plain_yaml_ok])
  show "\<not> requires_pull_request_changed_paths plain_yaml trigger_workflow" by code_simp
qed

end
