(* ===== verification/Protocol.thy ===== *)
theory Protocol
  imports Values "HOL-Library.Option_ord" "HOL-Library.Product_Lexorder"
begin

text \<open>
  The messages between the agent and the control plane: the structs and enums of the
  protocol crate with its limits, the orders it derives, and the \<open>Debug\<close> output it writes
  by hand so that secrets stay out of logs. Serialization is derived library code.
\<close>

type_synonym uuid = "128 word"

section \<open>Limits\<close>

definition PROTOCOL_VERSION :: "16 word" where
  "PROTOCOL_VERSION = 14"

definition MAX_RUNNER_LABELS :: nat where
  "MAX_RUNNER_LABELS = 32"

definition MAX_RUNNER_REQUIREMENTS :: nat where
  "MAX_RUNNER_REQUIREMENTS = 512"

definition MAX_RUNNER_SELECTOR_BYTES :: nat where
  "MAX_RUNNER_SELECTOR_BYTES = 256"

definition MAX_CHECK_ANNOTATIONS :: nat where
  "MAX_CHECK_ANNOTATIONS = 50"

definition MAX_CHECK_ANNOTATION_PATH_BYTES :: nat where
  "MAX_CHECK_ANNOTATION_PATH_BYTES = 4096"

definition MAX_CHECK_ANNOTATION_MESSAGE_BYTES :: nat where
  "MAX_CHECK_ANNOTATION_MESSAGE_BYTES = 65536"

definition MAX_CHECK_ANNOTATION_TITLE_BYTES :: nat where
  "MAX_CHECK_ANNOTATION_TITLE_BYTES = 255"

section \<open>Data\<close>

record agent_hello =
  ah_protocol_version :: "16 word"
  ah_agent_id :: string
  ah_name :: string
  ah_version :: string
  ah_labels :: "string list"
  ah_runner_group :: "string option"
  ah_max_parallelism :: "16 word"

datatype runner_requirement = RunnerRequirement (rr_labels: "string list") (rr_runner_group: "string option")

record repository_spec =
  rs_owner :: string
  rs_name :: string
  rs_clone_url :: string

record pull_request_spec =
  pr_number :: "64 word"
  pr_action :: string
  pr_head_sha :: string
  pr_base_sha :: string
  pr_merge_sha :: string
  pr_execution_ref :: string
  pr_head_ref :: string
  pr_base_ref :: string

datatype repository_token = RepositoryToken (into_inner: string)

datatype secret_map = SecretMap (secret_entries: "(string \<times> string) list")

datatype concurrency_queue = Single | Max

record run_spec =
  run_id :: uuid
  workspace_id :: string
  installation_id :: "64 word"
  run_number :: "64 word"
  repository :: repository_spec
  pull_request :: pull_request_spec
  check_run_id :: "64 word option"
  event :: json
  checkout_token :: string
  checkout_token_expires_at_epoch_seconds :: "64 word option"
  github_api_version :: string
  managed_secrets :: bool
  changed_paths :: "string list option"
  environment :: "(string \<times> string) list"
  variables :: "(string \<times> string) list"

datatype server_message =
    Welcome "16 word" "16 word"
  | RunJob run_spec
  | CancelJob uuid string
  | ConcurrencyGranted uuid
  | ConcurrencyCancelled uuid string
  | RepositoryTokenGranted uuid repository_token "64 word"
  | RepositoryTokenDenied uuid string
  | WorkflowTokenGranted uuid repository_token "64 word"
  | WorkflowTokenDenied uuid string
  | SecretGranted uuid secret_map
  | SecretDenied uuid string
  | Ack uuid
  | ServerError string string

datatype repository_token_purpose = Source | Environment | SharedSource | Checkout

datatype log_stream = Stdout | Stderr | System

datatype conclusion = Success | Failure | Cancelled | TimedOut | Neutral

datatype check_annotation_level = NoticeLevel | WarningLevel | FailureLevel

record check_annotation =
  ca_path :: string
  ca_start_line :: "32 word"
  ca_end_line :: "32 word"
  ca_start_column :: "32 word option"
  ca_end_column :: "32 word option"
  ca_annotation_level :: check_annotation_level
  ca_message :: string
  ca_title :: "string option"

text \<open>The fields of a message come in the order the enum lists them.\<close>

datatype agent_message =
    Hello agent_hello
  | Heartbeat (message_id: uuid) "uuid list"
  | JobStarted (message_id: uuid) (message_job_id: uuid)
  | JobRejected (message_id: uuid) (message_job_id: uuid) "runner_requirement list" string
  | ConcurrencyAcquire (message_id: uuid) (message_job_id: uuid) (request_id: uuid)
      (unit_id: string) (concurrency_group: string) (cancel_in_progress: bool) (queue: concurrency_queue)
  | ConcurrencyRelease (message_id: uuid) (message_job_id: uuid) (request_id: uuid)
  | RepositoryTokenRequest (message_id: uuid) (message_job_id: uuid) (request_id: uuid)
      repository_token_purpose string string
  | WorkflowTokenRequest (message_id: uuid) (message_job_id: uuid) (request_id: uuid)
      "string list" "string list"
  | SecretRequest (message_id: uuid) (message_job_id: uuid) (request_id: uuid) (unit_id: string)
      "string option"
  | DeploymentStarted (message_id: uuid) (message_job_id: uuid) (unit_id: string) string
  | DeploymentFinished (message_id: uuid) (message_job_id: uuid) (unit_id: string) conclusion "string option"
  | StepStarted (message_id: uuid) (message_job_id: uuid) string string
  | LogChunk (message_id: uuid) (message_job_id: uuid) string "64 word" log_stream string
  | StepFinished (message_id: uuid) (message_job_id: uuid) string conclusion "32 word option"
  | JobFinished (message_id: uuid) (message_job_id: uuid) conclusion string "check_annotation list"

definition default_github_api_version :: string where
  "default_github_api_version = ''2026-03-10''"

definition default_event :: json where
  "default_event = JObject []"

section \<open>Derived orders\<close>

text \<open>\<open>#[derive(PartialOrd, Ord)]\<close>: the fields in order, \<open>None\<close> first; an enum by position.\<close>

instantiation runner_requirement :: linorder
begin

definition less_eq_runner_requirement :: "runner_requirement \<Rightarrow> runner_requirement \<Rightarrow> bool" where
  "less_eq_runner_requirement a b \<longleftrightarrow>
    (rr_labels a, rr_runner_group a) \<le> (rr_labels b, rr_runner_group b)"

definition less_runner_requirement :: "runner_requirement \<Rightarrow> runner_requirement \<Rightarrow> bool" where
  "less_runner_requirement a b \<longleftrightarrow>
    (rr_labels a, rr_runner_group a) < (rr_labels b, rr_runner_group b)"

instance
  by standard
    (auto simp: less_eq_runner_requirement_def less_runner_requirement_def less_le_not_le
      intro: runner_requirement.expand)

end

fun level_index :: "check_annotation_level \<Rightarrow> nat" where
  "level_index NoticeLevel = 0"
| "level_index WarningLevel = 1"
| "level_index FailureLevel = 2"

lemma level_index_inj: "level_index a = level_index b \<longleftrightarrow> a = b"
  by (cases a; cases b) auto

instantiation check_annotation_level :: linorder
begin

definition less_eq_check_annotation_level :: "check_annotation_level \<Rightarrow> check_annotation_level \<Rightarrow> bool" where
  "less_eq_check_annotation_level a b \<longleftrightarrow> level_index a \<le> level_index b"

definition less_check_annotation_level :: "check_annotation_level \<Rightarrow> check_annotation_level \<Rightarrow> bool" where
  "less_check_annotation_level a b \<longleftrightarrow> level_index a < level_index b"

instance
  by standard
    (auto simp: less_eq_check_annotation_level_def less_check_annotation_level_def level_index_inj)

end

fun purpose_index :: "repository_token_purpose \<Rightarrow> nat" where
  "purpose_index Source = 0"
| "purpose_index Environment = 1"
| "purpose_index SharedSource = 2"
| "purpose_index Checkout = 3"

lemma purpose_index_inj: "purpose_index a = purpose_index b \<longleftrightarrow> a = b"
  by (cases a; cases b) auto

instantiation repository_token_purpose :: linorder
begin

definition less_eq_repository_token_purpose :: "repository_token_purpose \<Rightarrow> repository_token_purpose \<Rightarrow> bool" where
  "less_eq_repository_token_purpose a b \<longleftrightarrow> purpose_index a \<le> purpose_index b"

definition less_repository_token_purpose :: "repository_token_purpose \<Rightarrow> repository_token_purpose \<Rightarrow> bool" where
  "less_repository_token_purpose a b \<longleftrightarrow> purpose_index a < purpose_index b"

instance
  by standard
    (auto simp: less_eq_repository_token_purpose_def less_repository_token_purpose_def purpose_index_inj)

end

section \<open>Debug output\<close>

text \<open>
  What the hand-written \<open>Debug\<close> implementations pass to the formatter: a name and the
  fields in order, each with the value that is formatted.
\<close>

datatype debug_value =
    DebugText string
  | DebugNumber nat
  | DebugUuid uuid
  | DebugBool bool
  | DebugOption "debug_value option"
  | DebugEntries "(string \<times> string) list"
  | DebugRepository repository_spec
  | DebugPullRequest pull_request_spec

type_synonym debug_struct = "string \<times> (string \<times> debug_value) list"

definition redacted :: debug_value where
  "redacted = DebugText ''[REDACTED]''"

definition debug_secret_map :: "secret_map \<Rightarrow> debug_struct" where
  "debug_secret_map m =
    (''SecretMap'', [(''count'', DebugNumber (length (secret_entries m))), (''values'', redacted)])"

definition debug_repository_token :: "repository_token \<Rightarrow> debug_value" where
  "debug_repository_token t = redacted"

text \<open>\<open>event.get("action").and_then(as_str)\<close>.\<close>

definition event_action :: "json \<Rightarrow> string option" where
  "event_action e =
    (case e of
      JObject entries \<Rightarrow> (case map_of entries ''action'' of Some (JString s) \<Rightarrow> Some s | _ \<Rightarrow> None)
    | _ \<Rightarrow> None)"

definition debug_run_spec :: "run_spec \<Rightarrow> debug_struct" where
  "debug_run_spec r =
    (''RunSpec'',
      [(''id'', DebugUuid (run_id r)),
       (''workspace_id'', DebugText (workspace_id r)),
       (''installation_id'', DebugNumber (unat (installation_id r))),
       (''run_number'', DebugNumber (unat (run_number r))),
       (''repository'', DebugRepository (repository r)),
       (''pull_request'', DebugPullRequest (pull_request r)),
       (''check_run_id'', DebugOption (map_option (DebugNumber \<circ> unat) (check_run_id r))),
       (''event_action'', DebugOption (map_option DebugText (event_action (event r)))),
       (''checkout_token'', redacted),
       (''checkout_token_expires_at_epoch_seconds'',
         DebugOption (map_option (DebugNumber \<circ> unat) (checkout_token_expires_at_epoch_seconds r))),
       (''github_api_version'', DebugText (github_api_version r)),
       (''managed_secrets'', DebugBool (managed_secrets r)),
       (''changed_path_count'', DebugOption (map_option (DebugNumber \<circ> length) (changed_paths r))),
       (''environment'', DebugEntries (environment r)),
       (''variable_count'', DebugNumber (length (variables r)))])"

text \<open>
  C28. The \<open>Debug\<close> output of a run reveals neither its checkout token nor the values of its
  variables, the names of its changed files or the payload of its event beyond the action:
  runs that agree on everything else print the same. A secret map prints its size and a
  repository token nothing.
\<close>

theorem debug_output_redacted:
  assumes "length vs = length (variables r)" and "event_action e = event_action (event r)"
    and "map_option length ps = map_option length (changed_paths r)"
    and "length ss = length (secret_entries m)"
  shows "debug_run_spec (r\<lparr>checkout_token := t, variables := vs, event := e, changed_paths := ps\<rparr>) =
      debug_run_spec r \<and>
    debug_secret_map (SecretMap ss) = debug_secret_map m \<and>
    debug_repository_token (RepositoryToken t) = debug_repository_token k"
proof -
  have "map_option (DebugNumber \<circ> length) ps = map_option (DebugNumber \<circ> length) (changed_paths r)"
    using assms(3) by (metis option.map_comp)
  with assms show ?thesis
    by (simp add: debug_run_spec_def debug_secret_map_def debug_repository_token_def)
qed

definition sample_run_spec :: run_spec where
  "sample_run_spec = \<lparr>run_id = 7, workspace_id = ''w'', installation_id = 1, run_number = 2,
    repository = \<lparr>rs_owner = ''o'', rs_name = ''n'', rs_clone_url = ''u''\<rparr>,
    pull_request = \<lparr>pr_number = 3, pr_action = ''opened'', pr_head_sha = ''a'', pr_base_sha = ''b'',
      pr_merge_sha = ''c'', pr_execution_ref = ''r'', pr_head_ref = ''h'', pr_base_ref = ''main''\<rparr>,
    check_run_id = None, event = default_event, checkout_token = ''secret'',
    checkout_token_expires_at_epoch_seconds = None, github_api_version = default_github_api_version,
    managed_secrets = True, changed_paths = Some [''a.rs''], environment = [], variables = [(''A'', ''1'')]\<rparr>"

theorem debug_output_redacted_witness:
  "debug_run_spec (sample_run_spec\<lparr>checkout_token := ''other'', variables := [(''B'', ''2'')],
      event := JObject [(''x'', JNull)], changed_paths := Some [''b.rs'']\<rparr>) = debug_run_spec sample_run_spec \<and>
    debug_secret_map (SecretMap [(''K'', ''v'')]) = debug_secret_map (SecretMap [(''L'', ''w'')])"
  using debug_output_redacted [of "[(''B'', ''2'')]" sample_run_spec "JObject [(''x'', JNull)]" "Some [''b.rs'']"
      "[(''K'', ''v'')]" "SecretMap [(''L'', ''w'')]" "''other''"]
  by (simp add: sample_run_spec_def event_action_def default_event_def)

end
