(* ===== verification/Request_Channels.thy ===== *)
theory Request_Channels
  imports Protocol
begin

text \<open>
  What the agent's clients of the control plane share. A request registers the sender of a
  one-shot channel in a map, sends a message and waits; a handler takes the sender out of
  the map and answers. The locale states the contract of such a client and proves once that
  a waiting request is either still pending or has its answer, so that the branch for a
  channel closed without an answer is never taken.
\<close>

section \<open>One-shot channels\<close>

text \<open>\<open>tokio::sync::oneshot\<close> as its receiver sees it: no answer yet, an answer, or no sender left.\<close>

datatype 'd oneshot = Unanswered | Answered 'd | Closed

section \<open>Reachable states\<close>

inductive reachable :: "('s \<Rightarrow> bool) \<Rightarrow> ('s \<Rightarrow> 's \<Rightarrow> bool) \<Rightarrow> 's \<Rightarrow> bool" for initial step where
  reachable_initial: "initial s \<Longrightarrow> reachable initial step s"
| reachable_step: "reachable initial step s \<Longrightarrow> step s s' \<Longrightarrow> reachable initial step s'"

section \<open>The contract of a requesting client\<close>

locale request_client =
  fixes initial :: "'s \<Rightarrow> bool"
    and step :: "'s \<Rightarrow> 's \<Rightarrow> bool"
    and invariant :: "'s \<Rightarrow> bool"
    and waiting :: "'s \<Rightarrow> 'i \<Rightarrow> bool"
    and pending :: "'s \<Rightarrow> 'i \<Rightarrow> bool"
    and reply :: "'s \<Rightarrow> 'i \<Rightarrow> 'd oneshot"
  assumes invariant_initial: "initial s \<Longrightarrow> invariant s"
    and invariant_step: "invariant s \<Longrightarrow> step s s' \<Longrightarrow> invariant s'"
    and starts: "initial s \<Longrightarrow> \<not> waiting s i"
    and registers: "invariant s \<Longrightarrow> step s s' \<Longrightarrow> waiting s' i \<Longrightarrow> \<not> waiting s i \<Longrightarrow>
      pending s' i \<and> reply s' i = Unanswered"
    and answers: "invariant s \<Longrightarrow> step s s' \<Longrightarrow> waiting s i \<Longrightarrow> waiting s' i \<Longrightarrow>
      pending s i \<Longrightarrow> reply s i = Unanswered \<Longrightarrow>
      pending s' i \<and> reply s' i = Unanswered \<or> (\<exists>d. reply s' i = Answered d)"
    and keeps: "invariant s \<Longrightarrow> step s s' \<Longrightarrow> waiting s i \<Longrightarrow> waiting s' i \<Longrightarrow>
      reply s i = Answered d \<Longrightarrow> reply s' i = Answered d"
begin

lemma reachable_invariant: "reachable initial step s \<Longrightarrow> invariant s"
  by (induction rule: reachable.induct) (auto intro: invariant_initial invariant_step)

lemma pending_or_answered:
  "reachable initial step s \<Longrightarrow> waiting s i \<Longrightarrow>
    pending s i \<and> reply s i = Unanswered \<or> (\<exists>d. reply s i = Answered d)"
proof (induction rule: reachable.induct)
  case (reachable_initial s)
  then show ?case using starts by blast
next
  case (reachable_step s s')
  have inv: "invariant s" using reachable_step.hyps(1) by (rule reachable_invariant)
  show ?case
  proof (cases "waiting s i")
    case True
    from reachable_step.IH [OF True] show ?thesis
      using answers [OF inv reachable_step.hyps(2) True reachable_step.prems]
        keeps [OF inv reachable_step.hyps(2) True reachable_step.prems] by blast
  next
    case False
    then show ?thesis using registers [OF inv reachable_step.hyps(2) reachable_step.prems] by blast
  qed
qed

lemma never_closed: "reachable initial step s \<Longrightarrow> waiting s i \<Longrightarrow> reply s i \<noteq> Closed"
  using pending_or_answered by fastforce

end

end
