(* ===== verification/Concurrency_Client.thy ===== *)
theory Concurrency_Client
  imports Request_Channels
begin

text \<open>
  The agent's client for concurrency groups, \<open>ConcurrencyClient\<close> and \<open>ConcurrencyLease\<close>: a
  job asks the control plane for a group, waits until it is granted, cancelled or the parent
  run is cancelled, and gives the group back. The state machine interleaves any number of
  requests; each transition is one stretch of code between two suspension points, under the
  lock where the code holds it. The client without a remote, which exists in tests only, is
  not modelled.
\<close>

section \<open>Unit ids\<close>

definition MAX_BYTES :: nat where
  "MAX_BYTES = 512"

definition ellipsis :: string where
  "ellipsis = [CHR 0xE2, CHR 0x80, CHR 0xA6]"

definition bounded_unit_id :: "string \<Rightarrow> string" where
  "bounded_unit_id s =
    (if length s \<le> MAX_BYTES then s
     else take (floor_boundary s (MAX_BYTES - length ellipsis)) s @ ellipsis)"

section \<open>State\<close>

record request_state =
  granted :: bool
  grant :: bool

text \<open>How an acquisition or a lease can end; the flags tell whether the release was sent.\<close>

datatype ending =
    SendFailed
  | EndedWithoutDecision
  | CancelledByPlane string
  | ParentCancelled bool
  | Released bool
  | LeaseDropped bool bool

datatype phase = Sending | Awaiting | Abandoning | Holding | Releasing | Ended ending

record task =
  task_run :: uuid
  task_phase :: phase

record client_state =
  requests :: "uuid \<Rightarrow> request_state option"
  replies :: "uuid \<Rightarrow> (string + unit) oneshot"
  cancels :: "uuid \<Rightarrow> bool"
  parent_cancels :: "uuid \<Rightarrow> bool"
  tasks :: "uuid \<Rightarrow> task option"
  outbound :: "agent_message list"
  connected :: bool

definition initial_client :: "client_state \<Rightarrow> bool" where
  "initial_client s \<longleftrightarrow> requests s = Map.empty \<and> tasks s = Map.empty \<and> outbound s = []"

section \<open>Operations\<close>

definition set_phase :: "uuid \<Rightarrow> phase \<Rightarrow> client_state \<Rightarrow> client_state" where
  "set_phase i p s = s\<lparr>tasks := (tasks s)(i := map_option (\<lambda>t. t\<lparr>task_phase := p\<rparr>) (tasks s i))\<rparr>"

definition remove_request :: "uuid \<Rightarrow> client_state \<Rightarrow> client_state" where
  "remove_request i s = s\<lparr>requests := (requests s)(i := None)\<rparr>"

definition send_message :: "agent_message \<Rightarrow> client_state \<Rightarrow> client_state" where
  "send_message m s = s\<lparr>outbound := outbound s @ [m]\<rparr>"

definition answer :: "uuid \<Rightarrow> string + unit \<Rightarrow> client_state \<Rightarrow> client_state" where
  "answer i r s = s\<lparr>replies := (replies s)(i := Answered r)\<rparr>"

text \<open>\<open>acquire\<close>, up to the first send: a fresh id, its channels and its entry in the map.\<close>

definition acquire_register :: "uuid \<Rightarrow> uuid \<Rightarrow> client_state \<Rightarrow> client_state" where
  "acquire_register run i s = s
    \<lparr>requests := (requests s)(i := Some \<lparr>granted = False, grant = True\<rparr>),
     replies := (replies s)(i := Unanswered),
     cancels := (cancels s)(i := False),
     tasks := (tasks s)(i := Some \<lparr>task_run = run, task_phase = Sending\<rparr>)\<rparr>"

definition acquire_send ::
  "uuid \<Rightarrow> uuid \<Rightarrow> uuid \<Rightarrow> string \<Rightarrow> string \<Rightarrow> bool \<Rightarrow> concurrency_queue \<Rightarrow> client_state \<Rightarrow> client_state"
where
  "acquire_send m run i unit grp cancel q s =
    (if connected s then
       set_phase i Awaiting (send_message
         (ConcurrencyAcquire m run i (bounded_unit_id unit) grp cancel q) s)
     else set_phase i (Ended SendFailed) (remove_request i s))"

text \<open>\<open>acquire\<close>, when the parent run is cancelled: \<open>abandon\<close> in its two stretches.\<close>

definition abandon_remove :: "uuid \<Rightarrow> client_state \<Rightarrow> client_state" where
  "abandon_remove i s = set_phase i Abandoning (remove_request i s)"

definition abandon_send :: "uuid \<Rightarrow> uuid \<Rightarrow> uuid \<Rightarrow> client_state \<Rightarrow> client_state" where
  "abandon_send m run i s =
    set_phase i (Ended (ParentCancelled (connected s)))
      (if connected s then send_message (ConcurrencyRelease m run i) s else s)"

text \<open>\<open>acquire\<close>, when the channel resolves.\<close>

definition acquire_resolve :: "uuid \<Rightarrow> client_state \<Rightarrow> client_state" where
  "acquire_resolve i s =
    (case replies s i of
      Answered (Inr _) \<Rightarrow> set_phase i Holding s
    | Answered (Inl reason) \<Rightarrow> set_phase i (Ended (CancelledByPlane reason)) s
    | Closed \<Rightarrow> set_phase i (Ended EndedWithoutDecision) (remove_request i s)
    | Unanswered \<Rightarrow> s)"

definition handle_granted :: "uuid \<Rightarrow> client_state \<Rightarrow> client_state" where
  "handle_granted i s =
    (case requests s i of
      None \<Rightarrow> s
    | Some request \<Rightarrow>
        let s' = s\<lparr>requests := (requests s)(i := Some \<lparr>granted = True, grant = False\<rparr>)\<rparr> in
        if grant request then answer i (Inr ()) s' else s')"

definition handle_cancelled :: "uuid \<Rightarrow> string \<Rightarrow> client_state \<Rightarrow> client_state" where
  "handle_cancelled i reason s =
    (case requests s i of
      None \<Rightarrow> s
    | Some request \<Rightarrow>
        if granted request then s\<lparr>cancels := (cancels s)(i := True)\<rparr>
        else
          let s' = remove_request i s in
          if grant request then answer i (Inl reason) s' else s')"

definition cancel_all :: "client_state \<Rightarrow> client_state" where
  "cancel_all s = s
    \<lparr>requests := Map.empty,
     cancels := (\<lambda>i. cancels s i \<or> requests s i \<noteq> None),
     replies := (\<lambda>i. case requests s i of
       Some request \<Rightarrow>
         if grant request then Answered (Inl ''Control plane connection closed.'') else replies s i
     | None \<Rightarrow> replies s i)\<rparr>"

text \<open>\<open>release\<close> in its two stretches, and \<open>drop\<close>, which may find the lock taken or the channel full.\<close>

definition release_remove :: "uuid \<Rightarrow> client_state \<Rightarrow> client_state" where
  "release_remove i s = set_phase i Releasing (remove_request i s)"

definition release_send :: "uuid \<Rightarrow> uuid \<Rightarrow> uuid \<Rightarrow> client_state \<Rightarrow> client_state" where
  "release_send m run i s =
    set_phase i (Ended (Released (connected s)))
      (if connected s then send_message (ConcurrencyRelease m run i) s else s)"

definition drop_lease :: "uuid \<Rightarrow> uuid \<Rightarrow> uuid \<Rightarrow> bool \<Rightarrow> bool \<Rightarrow> client_state \<Rightarrow> client_state" where
  "drop_lease m run i locked full s =
    (let s' = (if locked then s else remove_request i s);
         sent = (connected s \<and> \<not> full) in
     set_phase i (Ended (LeaseDropped (\<not> locked) sent))
       (if sent then send_message (ConcurrencyRelease m run i) s' else s'))"

section \<open>Transitions\<close>

abbreviation at_phase :: "client_state \<Rightarrow> uuid \<Rightarrow> uuid \<Rightarrow> phase \<Rightarrow> bool" where
  "at_phase s i run p \<equiv> tasks s i = Some \<lparr>task_run = run, task_phase = p\<rparr>"

text \<open>Request ids are fresh, as \<open>Uuid::new_v4\<close> makes them.\<close>

inductive client_step :: "client_state \<Rightarrow> client_state \<Rightarrow> bool" where
  register: "tasks s i = None \<Longrightarrow> client_step s (acquire_register run i s)"
| send: "at_phase s i run Sending \<Longrightarrow> client_step s (acquire_send m run i unit grp cancel q s)"
| abandon: "at_phase s i run Awaiting \<Longrightarrow> parent_cancels s i \<Longrightarrow> client_step s (abandon_remove i s)"
| abandoned: "at_phase s i run Abandoning \<Longrightarrow> client_step s (abandon_send m run i s)"
| resolve: "at_phase s i run Awaiting \<Longrightarrow> replies s i \<noteq> Unanswered \<Longrightarrow> client_step s (acquire_resolve i s)"
| granting: "client_step s (handle_granted i s)"
| cancelling: "client_step s (handle_cancelled i reason s)"
| closing: "client_step s (cancel_all s)"
| release: "at_phase s i run Holding \<Longrightarrow> client_step s (release_remove i s)"
| released: "at_phase s i run Releasing \<Longrightarrow> client_step s (release_send m run i s)"
| dropping: "at_phase s i run Holding \<Longrightarrow> client_step s (drop_lease m run i locked full s)"
| parent: "client_step s (s\<lparr>parent_cancels := (parent_cancels s)(i := True)\<rparr>)"
| disconnect: "client_step s (s\<lparr>connected := False\<rparr>)"

section \<open>The invariant of a request\<close>

definition acquires :: "agent_message list \<Rightarrow> uuid \<Rightarrow> nat" where
  "acquires ms i = length (filter (\<lambda>m. case m of ConcurrencyAcquire _ _ j _ _ _ _ \<Rightarrow> j = i | _ \<Rightarrow> False) ms)"

definition releases :: "agent_message list \<Rightarrow> uuid \<Rightarrow> nat" where
  "releases ms i = length (filter (\<lambda>m. case m of ConcurrencyRelease _ _ j \<Rightarrow> j = i | _ \<Rightarrow> False) ms)"

text \<open>
  A request that waits is undecided and in the map, granted and in the map, or out of the map
  and refused, or granted with its lease already cancelled.
\<close>

definition awaiting_ok :: "request_state option \<Rightarrow> (string + unit) oneshot \<Rightarrow> bool \<Rightarrow> bool" where
  "awaiting_ok request r c \<longleftrightarrow>
    (case request of
      Some e \<Rightarrow> \<not> granted e \<and> grant e \<and> r = Unanswered \<or> granted e \<and> \<not> grant e \<and> r = Answered (Inr ())
    | None \<Rightarrow> (\<exists>reason. r = Answered (Inl reason)) \<or> r = Answered (Inr ()) \<and> c)"

fun ending_sent :: "ending \<Rightarrow> nat \<times> nat" where
  "ending_sent SendFailed = (0, 0)"
| "ending_sent EndedWithoutDecision = (1, 0)"
| "ending_sent (CancelledByPlane reason) = (1, 0)"
| "ending_sent (ParentCancelled sent) = (1, if sent then 1 else 0)"
| "ending_sent (Released sent) = (1, if sent then 1 else 0)"
| "ending_sent (LeaseDropped removed sent) = (1, if sent then 1 else 0)"

text \<open>
  The view of one request: its entry in the map, its channel, the cancellation of its lease,
  its phase, and how often it was sent for and released.
\<close>

fun phase_ok ::
  "request_state option \<Rightarrow> (string + unit) oneshot \<Rightarrow> bool \<Rightarrow> phase option \<Rightarrow> nat \<times> nat \<Rightarrow> bool"
where
  "phase_ok request r c None sent \<longleftrightarrow> request = None \<and> sent = (0, 0)"
| "phase_ok request r c (Some Sending) sent \<longleftrightarrow> awaiting_ok request r c \<and> sent = (0, 0)"
| "phase_ok request r c (Some Awaiting) sent \<longleftrightarrow> awaiting_ok request r c \<and> sent = (1, 0)"
| "phase_ok request r c (Some Abandoning) sent \<longleftrightarrow> request = None \<and> sent = (1, 0)"
| "phase_ok request r c (Some Holding) sent \<longleftrightarrow> sent = (1, 0) \<and>
    (case request of Some e \<Rightarrow> granted e \<and> \<not> grant e | None \<Rightarrow> c)"
| "phase_ok request r c (Some Releasing) sent \<longleftrightarrow> request = None \<and> sent = (1, 0)"
| "phase_ok request r c (Some (Ended e)) sent \<longleftrightarrow> sent = ending_sent e \<and> e \<noteq> EndedWithoutDecision \<and>
    (case request of
      None \<Rightarrow> True | Some q \<Rightarrow> granted q \<and> \<not> grant q \<and> (\<exists>sent. e = LeaseDropped False sent))"

definition sent_for :: "client_state \<Rightarrow> uuid \<Rightarrow> nat \<times> nat" where
  "sent_for s i = (acquires (outbound s) i, releases (outbound s) i)"

definition request_ok :: "client_state \<Rightarrow> uuid \<Rightarrow> bool" where
  "request_ok s i \<longleftrightarrow> phase_ok (requests s i) (replies s i) (cancels s i)
    (map_option task_phase (tasks s i)) (sent_for s i)"

lemma sent_messages [simp]:
  "acquires (ms @ [ConcurrencyAcquire m run j u g c q]) i = acquires ms i + (if j = i then 1 else 0)"
  "releases (ms @ [ConcurrencyAcquire m run j u g c q]) i = releases ms i"
  "acquires (ms @ [ConcurrencyRelease m run j]) i = acquires ms i"
  "releases (ms @ [ConcurrencyRelease m run j]) i = releases ms i + (if j = i then 1 else 0)"
  by (simp_all add: acquires_def releases_def)

lemmas client_operations = set_phase_def remove_request_def send_message_def answer_def
  acquire_register_def acquire_send_def abandon_remove_def abandon_send_def acquire_resolve_def
  handle_granted_def handle_cancelled_def cancel_all_def release_remove_def release_send_def drop_lease_def Let_def

text \<open>What the handlers do to the view of a request.\<close>

lemma phase_ok_granted:
  "phase_ok (Some e) r c p n \<Longrightarrow>
    phase_ok (Some \<lparr>granted = True, grant = False\<rparr>) (if grant e then Answered (Inr ()) else r) c p n"
  by (cases "(Some e, r, c, p, n)" rule: phase_ok.cases) (auto simp: awaiting_ok_def)

lemma phase_ok_cancelled:
  "phase_ok (Some e) r c p n \<Longrightarrow> granted e \<Longrightarrow> phase_ok (Some e) r True p n"
  by (cases "(Some e, r, c, p, n)" rule: phase_ok.cases) (auto simp: awaiting_ok_def)

lemma phase_ok_refused:
  "phase_ok (Some e) r c p n \<Longrightarrow> \<not> granted e \<Longrightarrow> grant e \<and> phase_ok None (Answered (Inl reason)) c p n"
  by (cases "(Some e, r, c, p, n)" rule: phase_ok.cases) (auto simp: awaiting_ok_def)

lemma phase_ok_closed:
  "phase_ok request r c p n \<Longrightarrow>
    phase_ok None (case request of Some e \<Rightarrow> if grant e then Answered (Inl reason) else r | None \<Rightarrow> r)
      (c \<or> request \<noteq> None) p n"
  by (cases "(request, r, c, p, n)" rule: phase_ok.cases) (auto simp: awaiting_ok_def split: option.splits)

lemma request_ok_handlers:
  assumes "request_ok s i"
  shows "request_ok (handle_granted j s) i" "request_ok (handle_cancelled j reason s) i" "request_ok (cancel_all s) i"
proof -
  let ?p = "map_option task_phase (tasks s i)" and ?n = "sent_for s i"
  have ok: "phase_ok (requests s i) (replies s i) (cancels s i) ?p ?n" using assms by (simp add: request_ok_def)
  show "request_ok (handle_granted j s) i"
  proof (cases "requests s j")
    case (Some e)
    then show ?thesis
      using ok phase_ok_granted [of e "replies s i" "cancels s i" ?p ?n]
      by (cases "j = i") (auto simp: request_ok_def sent_for_def handle_granted_def answer_def Let_def)
  qed (use assms in \<open>simp add: handle_granted_def\<close>)
  show "request_ok (handle_cancelled j reason s) i"
  proof (cases "requests s j")
    case (Some e)
    then show ?thesis
      using ok phase_ok_cancelled [of e "replies s i" "cancels s i" ?p ?n]
        phase_ok_refused [of e "replies s i" "cancels s i" ?p ?n reason]
      by (cases "j = i") (auto simp: request_ok_def sent_for_def handle_cancelled_def remove_request_def
          answer_def Let_def)
  qed (use assms in \<open>simp add: handle_cancelled_def\<close>)
  show "request_ok (cancel_all s) i"
    using phase_ok_closed [OF ok] by (simp add: request_ok_def sent_for_def cancel_all_def)
qed

lemma request_ok_acquire:
  assumes "request_ok s i"
  shows "tasks s j = None \<Longrightarrow> request_ok (acquire_register run j s) i"
    and "at_phase s j run Sending \<Longrightarrow> request_ok (acquire_send m run j unit grp cancel q s) i"
    and "at_phase s j run Awaiting \<Longrightarrow> request_ok (acquire_resolve j s) i"
    and "at_phase s j run Awaiting \<Longrightarrow> request_ok (abandon_remove j s) i"
    and "at_phase s j run Abandoning \<Longrightarrow> request_ok (abandon_send m run j s) i"
  using assms
  by (auto simp: request_ok_def sent_for_def client_operations awaiting_ok_def
      split: oneshot.splits sum.splits option.splits)

lemma request_ok_lease:
  assumes "request_ok s i"
  shows "at_phase s j run Holding \<Longrightarrow> request_ok (release_remove j s) i"
    and "at_phase s j run Releasing \<Longrightarrow> request_ok (release_send m run j s) i"
    and "at_phase s j run Holding \<Longrightarrow> request_ok (drop_lease m run j locked full s) i"
  using assms
  by (auto simp: request_ok_def sent_for_def client_operations split: option.splits)

lemma request_ok_step:
  assumes "client_step s s'" "request_ok s i"
  shows "request_ok s' i"
  using assms(1)
proof (cases rule: client_step.cases)
  case (parent j)
  then show ?thesis using assms(2) by (simp add: request_ok_def sent_for_def)
next
  case disconnect
  then show ?thesis using assms(2) by (simp add: request_ok_def sent_for_def)
qed (simp_all only: request_ok_handlers [OF assms(2)] request_ok_acquire [OF assms(2)]
    request_ok_lease [OF assms(2)])

lemma request_ok_initial: "initial_client s \<Longrightarrow> request_ok s i"
  by (simp add: initial_client_def request_ok_def sent_for_def acquires_def releases_def)

section \<open>The client keeps the contract\<close>

definition waiting_request :: "client_state \<Rightarrow> uuid \<Rightarrow> bool" where
  "waiting_request s i \<longleftrightarrow> map_option task_phase (tasks s i) \<in> {Some Sending, Some Awaiting}"

definition pending_request :: "client_state \<Rightarrow> uuid \<Rightarrow> bool" where
  "pending_request s i \<longleftrightarrow> (\<exists>e. requests s i = Some e \<and> grant e)"

lemma waiting_awaiting_ok:
  "request_ok s i \<Longrightarrow> waiting_request s i \<Longrightarrow> awaiting_ok (requests s i) (replies s i) (cancels s i)"
  by (auto simp: request_ok_def waiting_request_def)

lemma waiting_registers:
  assumes "client_step s s'" "waiting_request s' i" "\<not> waiting_request s i"
  shows "pending_request s' i \<and> replies s' i = Unanswered"
  using assms
  by (cases rule: client_step.cases)
    (auto simp: waiting_request_def pending_request_def client_operations
      split: if_splits oneshot.splits sum.splits option.splits)

lemma answer_stays:
  assumes "client_step s s'" "request_ok s i" "waiting_request s i" "replies s i = Answered d"
  shows "replies s' i = Answered d \<or> \<not> waiting_request s' i"
proof -
  have free: "\<not> grant e" if "requests s i = Some e" for e
    using waiting_awaiting_ok [OF assms(2,3)] that assms(4) by (auto simp: awaiting_ok_def)
  from assms(1) show ?thesis
  proof (cases rule: client_step.cases)
    case (register j run)
    then show ?thesis using assms(3,4) by (auto simp: waiting_request_def acquire_register_def)
  next
    case (granting j)
    then show ?thesis using free assms(4) by (auto simp: client_operations split: option.splits)
  next
    case (cancelling j reason)
    then show ?thesis using free assms(4) by (auto simp: client_operations split: option.splits)
  next
    case closing
    then show ?thesis using free assms(4) by (auto simp: client_operations split: option.splits)
  qed (use assms(4) in \<open>auto simp: client_operations split: oneshot.splits sum.splits\<close>)
qed

interpretation concurrency: request_client initial_client client_step "\<lambda>s. \<forall>i. request_ok s i"
  waiting_request pending_request replies
proof unfold_locales
  fix s :: client_state
  assume "initial_client s"
  then show "\<forall>i. request_ok s i" using request_ok_initial by blast
next
  fix s s' :: client_state
  assume "\<forall>i. request_ok s i" "client_step s s'"
  then show "\<forall>i. request_ok s' i" using request_ok_step by blast
next
  fix s :: client_state and i
  assume "initial_client s"
  then show "\<not> waiting_request s i" by (simp add: initial_client_def waiting_request_def)
next
  fix s s' :: client_state and i
  assume "client_step s s'" "waiting_request s' i" "\<not> waiting_request s i"
  then show "pending_request s' i \<and> replies s' i = Unanswered" by (rule waiting_registers)
next
  fix s s' :: client_state and i
  assume "\<forall>i. request_ok s i" "client_step s s'" "waiting_request s' i"
  then have "awaiting_ok (requests s' i) (replies s' i) (cancels s' i)"
    using request_ok_step waiting_awaiting_ok by blast
  then show "pending_request s' i \<and> replies s' i = Unanswered \<or> (\<exists>d. replies s' i = Answered d)"
    by (auto simp: awaiting_ok_def pending_request_def split: option.splits)
next
  fix s s' :: client_state and i d
  assume "\<forall>i. request_ok s i" "client_step s s'" "waiting_request s i" "waiting_request s' i"
    "replies s i = Answered d"
  then show "replies s' i = Answered d" using answer_stays by blast
qed

section \<open>Properties\<close>

definition empty_client :: client_state where
  "empty_client = \<lparr>requests = Map.empty, replies = (\<lambda>_. Unanswered), cancels = (\<lambda>_. False),
    parent_cancels = (\<lambda>_. False), tasks = Map.empty, outbound = [], connected = True\<rparr>"

lemma reach_empty: "reachable initial_client client_step empty_client"
  by (intro reachable_initial) (simp add: initial_client_def empty_client_def)

text \<open>
  C29. In every reachable state of the client, whatever the interleaving of requests,
  messages, cancellations and disconnection: a group is sent for at most once and released
  at most once per request, never released before it was sent for and never while it is
  held; a lease that is no longer in the map has been told to stop; and a request that ended
  is out of the map, unless its lease was dropped while the lock was taken.
\<close>

theorem concurrency_client_invariant:
  assumes "reachable initial_client client_step s"
  shows "request_ok s i"
  using concurrency.reachable_invariant [OF assms] by blast

theorem concurrency_client_invariant_witness:
  "request_ok (acquire_send 1 2 3 ''unit'' ''deploy'' True Single (acquire_register 2 3 empty_client)) 3"
proof (rule concurrency_client_invariant)
  have "reachable initial_client client_step (acquire_register 2 3 empty_client)"
    by (rule reachable_step [OF reach_empty], rule register) (simp add: empty_client_def)
  then show "reachable initial_client client_step
      (acquire_send 1 2 3 ''unit'' ''deploy'' True Single (acquire_register 2 3 empty_client))"
    by (rule reachable_step) (rule send, simp add: acquire_register_def)
qed

text \<open>
  No decision is lost: a request that waits is still in the map with its sender and
  undecided, or its channel holds the answer; the channel is never closed without one, and
  no acquisition ends with the error for that case.
\<close>

theorem no_lost_decision:
  assumes "reachable initial_client client_step s"
  shows "(waiting_request s i \<longrightarrow> pending_request s i \<and> replies s i = Unanswered \<or> (\<exists>d. replies s i = Answered d)) \<and>
    map_option task_phase (tasks s i) \<noteq> Some (Ended EndedWithoutDecision)"
proof -
  have "request_ok s i" using concurrency.reachable_invariant [OF assms] by blast
  then have "map_option task_phase (tasks s i) \<noteq> Some (Ended EndedWithoutDecision)"
    by (auto simp: request_ok_def)
  with concurrency.pending_or_answered [OF assms] show ?thesis by blast
qed

theorem no_lost_decision_witness:
  "waiting_request (acquire_register 2 3 empty_client) 3 \<and>
   (pending_request (acquire_register 2 3 empty_client) 3 \<and> replies (acquire_register 2 3 empty_client) 3 = Unanswered \<or>
    (\<exists>d. replies (acquire_register 2 3 empty_client) 3 = Answered d))"
proof -
  have "reachable initial_client client_step (acquire_register 2 3 empty_client)"
    by (rule reachable_step [OF reach_empty], rule register) (simp add: empty_client_def)
  moreover have "waiting_request (acquire_register 2 3 empty_client) 3"
    by (simp add: waiting_request_def acquire_register_def)
  ultimately show ?thesis using no_lost_decision by blast
qed

lemma ellipsis_ok: "utf8_ok ellipsis" "length ellipsis = 3"
  by code_simp+

text \<open>
  A unit id is cut to at most 512 bytes at a character boundary, the last one that
  leaves room for the ellipsis, and stays well-formed UTF-8; a short one is kept as it is.
\<close>

theorem bounded_unit_id_correct:
  "length (bounded_unit_id s) \<le> 512 \<and> (utf8_ok s \<longrightarrow> utf8_ok (bounded_unit_id s)) \<and>
   (length s \<le> 512 \<longrightarrow> bounded_unit_id s = s) \<and>
   (length s > 512 \<longrightarrow> (\<exists>k. bounded_unit_id s = take k s @ ellipsis \<and> is_char_boundary s k \<and> k \<le> 509 \<and>
     (\<forall>j\<le>509. is_char_boundary s j \<longrightarrow> j \<le> k)))"
proof (cases "length s \<le> 512")
  case True
  then show ?thesis by (simp add: bounded_unit_id_def MAX_BYTES_def)
next
  case False
  define k where "k = floor_boundary s 509"
  have id: "bounded_unit_id s = take k s @ ellipsis"
    using False by (simp add: bounded_unit_id_def MAX_BYTES_def ellipsis_ok k_def)
  have k: "k \<le> 509" "is_char_boundary s k" "\<forall>j\<le>509. is_char_boundary s j \<longrightarrow> j \<le> k"
    using floor_boundary_le [of s 509] floor_boundary_ok [of s 509] floor_boundary_largest [of s _ 509]
    by (auto simp: k_def)
  have "utf8_ok s \<longrightarrow> utf8_ok (bounded_unit_id s)"
    unfolding id using utf8_ok_split(1) [OF k(2)] utf8_ok_append ellipsis_ok(1) by blast
  moreover have "length (bounded_unit_id s) \<le> 512" using k(1) by (simp add: id ellipsis_ok)
  ultimately show ?thesis using False id k by auto
qed

theorem bounded_unit_id_correct_witness:
  "utf8_ok (bounded_unit_id (replicate 600 (CHR ''a''))) \<and> length (bounded_unit_id (replicate 600 (CHR ''a''))) \<le> 512"
proof -
  have "utf8_ok (replicate n (CHR ''a''))" for n
  proof (induction n)
    case (Suc n)
    have "utf8_ok [CHR ''a'']" by code_simp
    from utf8_ok_append [OF this Suc] show ?case by simp
  qed simp
  then show ?thesis using bounded_unit_id_correct by blast
qed

end
