(* ===== verification/Repository_Access.thy ===== *)
theory Repository_Access
  imports Request_Channels
begin

text \<open>
  The agent's client for tokens and managed secrets, \<open>RepositoryAccessClient\<close>. Token
  requests and secret requests are the same machine over two maps; each transition is one
  stretch of code between two suspension points. The clock is the parameter \<open>now\<close>. The
  client without a remote, which exists in tests only, is not modelled.
\<close>

section \<open>Tokens that expire\<close>

definition TOKEN_REFRESH_SAFETY_SECONDS :: "64 word" where
  "TOKEN_REFRESH_SAFETY_SECONDS = 5 * 60"

record expiring_token =
  token :: string
  expires_at_epoch_seconds :: "64 word"

definition saturating_add :: "64 word \<Rightarrow> 64 word \<Rightarrow> 64 word" where
  "saturating_add a b = (if unat a + unat b < 2 ^ 64 then a + b else - 1)"

text \<open>\<open>current_epoch_seconds\<close> is the argument \<open>now\<close>.\<close>

definition is_usable :: "64 word \<Rightarrow> expiring_token \<Rightarrow> bool" where
  "is_usable now t \<longleftrightarrow> expires_at_epoch_seconds t > saturating_add now TOKEN_REFRESH_SAFETY_SECONDS"

definition clear_token :: "expiring_token \<Rightarrow> expiring_token" where
  "clear_token t = t\<lparr>token := []\<rparr>"

definition debug_expiring_token :: "expiring_token \<Rightarrow> debug_struct" where
  "debug_expiring_token t = (''ExpiringToken'',
    [(''token'', redacted), (''expires_at_epoch_seconds'', DebugNumber (unat (expires_at_epoch_seconds t)))])"

section \<open>Requests\<close>

definition purpose_operation :: "repository_token_purpose \<Rightarrow> string" where
  "purpose_operation purpose =
    (case purpose of
      Source \<Rightarrow> ''source repository access''
    | Environment \<Rightarrow> ''environment metadata access''
    | SharedSource \<Rightarrow> ''private shared repository access''
    | Checkout \<Rightarrow> ''private checkout repository access'')"

datatype access_error =
    EmptyPermissions
  | ChannelClosed string
  | RunCancelled string
  | EmptyToken string
  | TokenExpiresSoon string
  | Denied string
  | NoDecision string

text \<open>The message \<open>request_token\<close> and \<open>request_workflow_token\<close> send, with the operation named in errors.\<close>

definition token_request ::
  "uuid \<Rightarrow> uuid \<Rightarrow> uuid \<Rightarrow> repository_token_purpose \<Rightarrow> string \<Rightarrow> string \<Rightarrow> agent_message \<times> string"
where
  "token_request m run i purpose owner repository_name =
    (RepositoryTokenRequest m run i purpose owner repository_name, purpose_operation purpose)"

definition workflow_token_request ::
  "uuid \<Rightarrow> uuid \<Rightarrow> uuid \<Rightarrow> string list \<Rightarrow> string list \<Rightarrow> access_error + agent_message \<times> string"
where
  "workflow_token_request m run i read_permissions write_permissions =
    (if read_permissions = [] \<and> write_permissions = [] then Inl EmptyPermissions
     else Inr (WorkflowTokenRequest m run i read_permissions write_permissions,
       ''scoped workflow token access''))"

definition secret_request :: "uuid \<Rightarrow> uuid \<Rightarrow> uuid \<Rightarrow> string \<Rightarrow> string option \<Rightarrow> agent_message \<times> string" where
  "secret_request m run i u env = (SecretRequest m run i u env, ''managed secrets'')"

text \<open>What a resolved channel makes of a token request, and of a secret request.\<close>

definition token_result ::
  "64 word \<Rightarrow> string \<Rightarrow> (string + expiring_token) oneshot \<Rightarrow> access_error + expiring_token"
where
  "token_result now operation r =
    (case r of
      Answered (Inr t) \<Rightarrow>
        if token t = [] then Inl (EmptyToken operation)
        else if \<not> is_usable now t then Inl (TokenExpiresSoon operation)
        else Inr t
    | Answered (Inl reason) \<Rightarrow> Inl (Denied reason)
    | _ \<Rightarrow> Inl (NoDecision operation))"

definition secret_result ::
  "64 word \<Rightarrow> string \<Rightarrow> (string + secret_map) oneshot \<Rightarrow> access_error + (string \<times> string) list"
where
  "secret_result now operation r =
    (case r of
      Answered (Inr secrets) \<Rightarrow> Inr (secret_entries secrets)
    | Answered (Inl reason) \<Rightarrow> Inl (Denied reason)
    | _ \<Rightarrow> Inl (NoDecision operation))"

section \<open>One map of requests\<close>

text \<open>
  A request is \<open>Asking\<close> until its message is sent, then \<open>Open_Request\<close> until it ends with a
  result. \<open>'d\<close> is what the control plane grants and \<open>'r\<close> what the caller gets.
\<close>

datatype 'r stage = Asking | Open_Request | Finished "access_error + 'r"

record 'r access_task =
  at_message :: agent_message
  at_operation :: string
  at_stage :: "'r stage"

record ('d, 'r) access_state =
  senders :: "uuid set"
  answers_of :: "uuid \<Rightarrow> (string + 'd) oneshot"
  cancelled_runs :: "uuid \<Rightarrow> bool"
  access_tasks :: "uuid \<Rightarrow> 'r access_task option"
  messages :: "agent_message list"
  channel_open :: bool

definition initial_access :: "('d, 'r) access_state \<Rightarrow> bool" where
  "initial_access s \<longleftrightarrow> senders s = {} \<and> access_tasks s = Map.empty"

definition set_stage :: "uuid \<Rightarrow> 'r stage \<Rightarrow> ('d, 'r) access_state \<Rightarrow> ('d, 'r) access_state" where
  "set_stage i g s = s\<lparr>access_tasks := (access_tasks s)(i := map_option (\<lambda>t. t\<lparr>at_stage := g\<rparr>) (access_tasks s i))\<rparr>"

definition remove_sender :: "uuid \<Rightarrow> ('d, 'r) access_state \<Rightarrow> ('d, 'r) access_state" where
  "remove_sender i s = s\<lparr>senders := senders s - {i}\<rparr>"

definition request_register ::
  "uuid \<Rightarrow> agent_message \<times> string \<Rightarrow> ('d, 'r) access_state \<Rightarrow> ('d, 'r) access_state"
where
  "request_register i m s = s
    \<lparr>senders := insert i (senders s),
     answers_of := (answers_of s)(i := Unanswered),
     access_tasks := (access_tasks s)(i := Some \<lparr>at_message = fst m, at_operation = snd m, at_stage = Asking\<rparr>)\<rparr>"

definition request_send :: "uuid \<Rightarrow> 'r access_task \<Rightarrow> ('d, 'r) access_state \<Rightarrow> ('d, 'r) access_state" where
  "request_send i t s =
    (if channel_open s then set_stage i Open_Request (s\<lparr>messages := messages s @ [at_message t]\<rparr>)
     else set_stage i (Finished (Inl (ChannelClosed (at_operation t)))) (remove_sender i s))"

definition request_cancel :: "uuid \<Rightarrow> 'r access_task \<Rightarrow> ('d, 'r) access_state \<Rightarrow> ('d, 'r) access_state" where
  "request_cancel i t s = set_stage i (Finished (Inl (RunCancelled (at_operation t)))) (remove_sender i s)"

definition request_resolve ::
  "(string \<Rightarrow> (string + 'd) oneshot \<Rightarrow> access_error + 'r) \<Rightarrow> uuid \<Rightarrow> 'r access_task
    \<Rightarrow> ('d, 'r) access_state \<Rightarrow> ('d, 'r) access_state"
where
  "request_resolve result i t s =
    set_stage i (Finished (result (at_operation t) (answers_of s i)))
      (if answers_of s i = Closed then remove_sender i s else s)"

text \<open>\<open>handle_granted\<close>, \<open>handle_denied\<close> and their twins for secrets.\<close>

definition handle_answer :: "uuid \<Rightarrow> string + 'd \<Rightarrow> ('d, 'r) access_state \<Rightarrow> ('d, 'r) access_state" where
  "handle_answer i d s =
    (if i \<in> senders s then (remove_sender i s)\<lparr>answers_of := (answers_of s)(i := Answered d)\<rparr> else s)"

text \<open>\<open>cancel_all\<close>, for one of the two maps.\<close>

definition cancel_requests :: "('d, 'r) access_state \<Rightarrow> ('d, 'r) access_state" where
  "cancel_requests s = s
    \<lparr>senders := {},
     answers_of := (\<lambda>i. if i \<in> senders s then Answered (Inl ''Control plane connection closed.'')
       else answers_of s i)\<rparr>"

inductive access_step ::
  "(64 word \<Rightarrow> string \<Rightarrow> (string + 'd) oneshot \<Rightarrow> access_error + 'r)
    \<Rightarrow> ('d, 'r) access_state \<Rightarrow> ('d, 'r) access_state \<Rightarrow> bool"
  for result
where
  access_register: "access_tasks s i = None \<Longrightarrow> access_step result s (request_register i m s)"
| access_send: "access_tasks s i = Some t \<Longrightarrow> at_stage t = Asking \<Longrightarrow> access_step result s (request_send i t s)"
| access_cancel: "access_tasks s i = Some t \<Longrightarrow> at_stage t = Open_Request \<Longrightarrow> cancelled_runs s i \<Longrightarrow>
    access_step result s (request_cancel i t s)"
| access_resolve: "access_tasks s i = Some t \<Longrightarrow> at_stage t = Open_Request \<Longrightarrow> answers_of s i \<noteq> Unanswered \<Longrightarrow>
    access_step result s (request_resolve (result now) i t s)"
| access_answer: "access_step result s (handle_answer i d s)"
| access_close: "access_step result s (cancel_requests s)"
| access_run_cancelled: "access_step result s (s\<lparr>cancelled_runs := (cancelled_runs s)(i := True)\<rparr>)"
| access_disconnect: "access_step result s (s\<lparr>channel_open := False\<rparr>)"

type_synonym token_state = "(expiring_token, expiring_token) access_state"
type_synonym secret_state = "(secret_map, (string \<times> string) list) access_state"

text \<open>\<open>request\<close> and \<open>request_managed_secrets\<close>, with the handlers of their map.\<close>

definition token_step :: "token_state \<Rightarrow> token_state \<Rightarrow> bool" where
  "token_step = access_step token_result"

definition secret_step :: "secret_state \<Rightarrow> secret_state \<Rightarrow> bool" where
  "secret_step = access_step secret_result"

section \<open>The invariant of a request\<close>

fun stage_ok ::
  "(64 word \<Rightarrow> string \<Rightarrow> (string + 'd) oneshot \<Rightarrow> access_error + 'r) \<Rightarrow> bool \<Rightarrow> (string + 'd) oneshot
    \<Rightarrow> 'r stage option \<Rightarrow> bool"
where
  "stage_ok result present r None \<longleftrightarrow> \<not> present"
| "stage_ok result present r (Some (Finished x)) \<longleftrightarrow> \<not> present \<and>
    ((\<exists>now operation d. r = Answered d \<and> x = result now operation (Answered d)) \<or>
     (\<exists>operation. x = Inl (ChannelClosed operation) \<or> x = Inl (RunCancelled operation)))"
| "stage_ok result present r (Some _) \<longleftrightarrow>
    present \<and> r = Unanswered \<or> \<not> present \<and> (\<exists>d. r = Answered d)"

definition access_ok ::
  "(64 word \<Rightarrow> string \<Rightarrow> (string + 'd) oneshot \<Rightarrow> access_error + 'r) \<Rightarrow> ('d, 'r) access_state \<Rightarrow> uuid \<Rightarrow> bool"
where
  "access_ok result s i \<longleftrightarrow>
    stage_ok result (i \<in> senders s) (answers_of s i) (map_option at_stage (access_tasks s i))"

lemma stage_ok_answer:
  "stage_ok result True r g \<Longrightarrow> stage_ok result False (Answered d) g"
  by (cases "(result, True, r, g)" rule: stage_ok.cases) auto

lemmas access_operations = set_stage_def remove_sender_def request_register_def request_send_def
  request_cancel_def request_resolve_def handle_answer_def cancel_requests_def

lemma access_ok_initial: "initial_access s \<Longrightarrow> access_ok result s i"
  by (simp add: initial_access_def access_ok_def)

lemma access_ok_resolve:
  assumes "access_ok result s i" "access_tasks s j = Some t" "at_stage t = Open_Request" "answers_of s j \<noteq> Unanswered"
  shows "access_ok result (request_resolve (result now) j t s) i"
proof (cases "j = i")
  case True
  with assms obtain d where "answers_of s i = Answered d" "i \<notin> senders s" by (auto simp: access_ok_def)
  then show ?thesis using True assms(2) by (auto simp: access_ok_def access_operations)
next
  case False
  then show ?thesis using assms(1) by (simp add: access_ok_def access_operations)
qed

lemma access_ok_send:
  assumes "access_ok result s i" "access_tasks s j = Some t" "at_stage t = Asking"
  shows "access_ok result (request_send j t s) i"
  using assms by (cases "j = i") (auto simp: access_ok_def access_operations)

lemma access_ok_cancel:
  assumes "access_ok result s i" "access_tasks s j = Some t"
  shows "access_ok result (request_cancel j t s) i"
  using assms by (cases "j = i") (auto simp: access_ok_def access_operations)

lemma access_ok_handlers:
  assumes "access_ok result s i"
  shows "access_ok result (handle_answer j d s) i" "access_ok result (cancel_requests s) i"
proof -
  have answered: "i \<in> senders s \<Longrightarrow> stage_ok result False (Answered d) (map_option at_stage (access_tasks s i))" for d
    using assms stage_ok_answer by (simp add: access_ok_def)
  then show "access_ok result (handle_answer j d s) i" "access_ok result (cancel_requests s) i"
    using assms by (auto simp: access_ok_def access_operations)
qed

lemma access_ok_step:
  assumes "access_step result s s'" "access_ok result s i"
  shows "access_ok result s' i"
  using assms(1)
proof (cases rule: access_step.cases)
  case (access_register j m)
  then show ?thesis using assms(2) by (cases "j = i") (auto simp: access_ok_def access_operations)
next
  case (access_resolve j t now)
  then show ?thesis using access_ok_resolve [OF assms(2) access_resolve(2-4)] by simp
next
  case (access_run_cancelled j)
  then show ?thesis using assms(2) by (simp add: access_ok_def)
next
  case access_disconnect
  then show ?thesis using assms(2) by (simp add: access_ok_def)
qed (simp_all only: access_ok_handlers [OF assms(2)] access_ok_send [OF assms(2)] access_ok_cancel [OF assms(2)])

section \<open>The client keeps the contract\<close>

definition waiting_access :: "('d, 'r) access_state \<Rightarrow> uuid \<Rightarrow> bool" where
  "waiting_access s i \<longleftrightarrow> map_option at_stage (access_tasks s i) \<in> {Some Asking, Some Open_Request}"

lemma waiting_access_ok:
  "access_ok result s i \<Longrightarrow> waiting_access s i \<Longrightarrow>
    i \<in> senders s \<and> answers_of s i = Unanswered \<or> i \<notin> senders s \<and> (\<exists>d. answers_of s i = Answered d)"
  by (auto simp: access_ok_def waiting_access_def)

lemma access_registers:
  assumes "access_step result s s'" "waiting_access s' i" "\<not> waiting_access s i"
  shows "i \<in> senders s' \<and> answers_of s' i = Unanswered"
  using assms
  by (cases rule: access_step.cases) (auto simp: waiting_access_def access_operations split: if_splits)

lemma access_answer_stays:
  assumes "access_step result s s'" "access_ok result s i" "waiting_access s i" "answers_of s i = Answered d"
  shows "answers_of s' i = Answered d"
proof -
  have free: "i \<notin> senders s" using waiting_access_ok [OF assms(2,3)] assms(4) by auto
  from assms(1) show ?thesis
  proof (cases rule: access_step.cases)
    case (access_register j m)
    then show ?thesis using assms(3,4) by (auto simp: waiting_access_def access_operations)
  qed (use free assms(4) in \<open>auto simp: access_operations\<close>)
qed

lemma access_client:
  "request_client initial_access (access_step result) (\<lambda>s. \<forall>i. access_ok result s i)
    waiting_access (\<lambda>s i. i \<in> senders s) answers_of"
proof unfold_locales
  fix s s' :: "('a, 'b) access_state" and i
  assume "\<forall>i. access_ok result s i" "access_step result s s'" "waiting_access s' i"
  then show "i \<in> senders s' \<and> answers_of s' i = Unanswered \<or> (\<exists>d. answers_of s' i = Answered d)"
    using access_ok_step waiting_access_ok by blast
next
  fix s s' :: "('a, 'b) access_state" and i
  assume "access_step result s s'" "waiting_access s' i" "\<not> waiting_access s i"
  then show "i \<in> senders s' \<and> answers_of s' i = Unanswered" by (rule access_registers)
next
  fix s s' :: "('a, 'b) access_state" and i d
  assume "\<forall>i. access_ok result s i" "access_step result s s'" "waiting_access s i" "answers_of s i = Answered d"
  then show "answers_of s' i = Answered d" using access_answer_stays by blast
qed (auto simp: access_ok_initial access_ok_step initial_access_def waiting_access_def)

interpretation tokens: request_client initial_access token_step
  "\<lambda>s. \<forall>i. access_ok token_result s i" waiting_access "\<lambda>s i. i \<in> senders s" answers_of
  unfolding token_step_def secret_step_def by (rule access_client)

interpretation secrets: request_client initial_access secret_step
  "\<lambda>s. \<forall>i. access_ok secret_result s i" waiting_access "\<lambda>s i. i \<in> senders s" answers_of
  unfolding token_step_def secret_step_def by (rule access_client)

section \<open>Properties\<close>

lemma is_usable_iff: "is_usable now t \<longleftrightarrow> unat now + 300 < unat (expires_at_epoch_seconds t)"
proof -
  have less: "unat (expires_at_epoch_seconds t) < 2 ^ 64" using unsigned_less [of "expires_at_epoch_seconds t"] by simp
  have safety: "unat TOKEN_REFRESH_SAFETY_SECONDS = 300" by (simp add: TOKEN_REFRESH_SAFETY_SECONDS_def)
  show ?thesis
  proof (cases "unat now + 300 < 2 ^ 64")
    case True
    then have "unat (now + TOKEN_REFRESH_SAFETY_SECONDS) = unat now + 300"
      using unat_add_lem [of now TOKEN_REFRESH_SAFETY_SECONDS] by (simp add: safety)
    then show ?thesis using True by (simp add: is_usable_def saturating_add_def safety word_less_nat_alt)
  next
    case False
    have "\<not> (- 1 :: 64 word) < x" for x by (simp add: not_less word_order.extremum)
    with False less show ?thesis by (simp add: is_usable_def saturating_add_def safety)
  qed
qed

lemma token_result_Inr:
  "token_result now operation r = Inr t \<Longrightarrow> r = Answered (Inr t) \<and> token t \<noteq> [] \<and> is_usable now t"
  by (auto simp: token_result_def split: oneshot.splits sum.splits if_splits)

lemma token_result_decided: "token_result now operation (Answered d) \<noteq> Inl (NoDecision other)"
  by (cases d) (auto simp: token_result_def)

lemma secret_result_Inr: "secret_result now operation (Answered d) = Inr m \<Longrightarrow> d = Inr (SecretMap m)"
  by (cases d) (auto simp: secret_result_def)

definition no_access :: "('d, 'r) access_state" where
  "no_access = \<lparr>senders = {}, answers_of = (\<lambda>_. Unanswered), cancelled_runs = (\<lambda>_. False),
    access_tasks = Map.empty, messages = [], channel_open = True\<rparr>"

lemma reach_no_access: "reachable initial_access step no_access"
  by (intro reachable_initial) (simp add: initial_access_def no_access_def)


definition granted_access :: token_state where
  "granted_access = request_resolve (token_result 0) 3
    \<lparr>at_message = RepositoryTokenRequest 1 2 3 Source ''o'' ''r'', at_operation = purpose_operation Source,
      at_stage = Open_Request\<rparr>
    (handle_answer 3 (Inr \<lparr>token = ''t'', expires_at_epoch_seconds = 1000\<rparr>)
      (request_send 3 \<lparr>at_message = RepositoryTokenRequest 1 2 3 Source ''o'' ''r'',
          at_operation = purpose_operation Source, at_stage = Asking\<rparr>
        (request_register 3 (token_request 1 2 3 Source ''o'' ''r'') no_access)))"

lemma granted_access_task: "access_tasks granted_access 3 = Some \<lparr>at_message = RepositoryTokenRequest 1 2 3 Source ''o'' ''r'',
    at_operation = purpose_operation Source,
    at_stage = Finished (Inr \<lparr>token = ''t'', expires_at_epoch_seconds = 1000\<rparr>)\<rparr>"
  by (simp add: granted_access_def no_access_def access_operations token_request_def token_result_def is_usable_iff)

lemma reach_granted_access: "reachable initial_access token_step granted_access"
proof -
  let ?r = "request_register 3 (token_request 1 2 3 Source ''o'' ''r'') no_access :: token_state"
  let ?t = "\<lambda>g. \<lparr>at_message = RepositoryTokenRequest 1 2 3 Source ''o'' ''r'',
    at_operation = purpose_operation Source, at_stage = g\<rparr> :: expiring_token access_task"
  let ?k = "\<lparr>token = ''t'', expires_at_epoch_seconds = 1000\<rparr>"
  have "reachable initial_access token_step ?r"
    by (rule reachable_step [OF reach_no_access], unfold token_step_def secret_step_def, rule access_register) (simp add: no_access_def)
  then have "reachable initial_access token_step (request_send 3 (?t Asking) ?r)"
    by (rule reachable_step) (unfold token_step_def, rule access_send; simp add: request_register_def token_request_def)
  then have "reachable initial_access token_step
      (handle_answer 3 (Inr ?k) (request_send 3 (?t Asking) ?r))"
    by (rule reachable_step) (unfold token_step_def, rule access_answer)
  then show ?thesis
    unfolding granted_access_def
    by (rule reachable_step) (unfold token_step_def, rule access_resolve; simp add: access_operations token_request_def no_access_def)
qed


text \<open>
  The test for a usable token is exact on 64-bit seconds: a token is usable when it
  expires more than 300 seconds from now, also where the addition saturates; clearing a token
  and printing it reveal nothing of it.
\<close>

theorem token_expiry_exact:
  "(is_usable now t \<longleftrightarrow> unat now + 300 < unat (expires_at_epoch_seconds t)) \<and>
   token (clear_token t) = [] \<and>
   debug_expiring_token t = debug_expiring_token (clear_token t)"
  by (simp add: is_usable_iff clear_token_def debug_expiring_token_def)

text \<open>
  The same holds for managed secrets: a waiting request is pending or answered, and the
  secrets a finished request returns are those the control plane granted to it.
\<close>

theorem secrets_delivered:
  assumes "reachable initial_access secret_step s"
  shows "(waiting_access s i \<longrightarrow> i \<in> senders s \<and> answers_of s i = Unanswered \<or> (\<exists>d. answers_of s i = Answered d)) \<and>
    (\<forall>t m. access_tasks s i = Some t \<longrightarrow> at_stage t = Finished (Inr m) \<longrightarrow>
      answers_of s i = Answered (Inr (SecretMap m)))"
proof -
  have ok: "access_ok secret_result s i" using secrets.reachable_invariant [OF assms] by blast
  have "answers_of s i = Answered (Inr (SecretMap m))"
    if "access_tasks s i = Some t" "at_stage t = Finished (Inr m)" for t m
    using ok that by (auto simp: access_ok_def dest: secret_result_Inr [OF sym])
  with secrets.pending_or_answered [OF assms] show ?thesis by blast
qed

theorem secrets_delivered_witness:
  "waiting_access (request_register 3 (secret_request 1 2 3 ''u'' None) no_access :: secret_state) 3 \<and>
    3 \<in> senders (request_register 3 (secret_request 1 2 3 ''u'' None) no_access :: secret_state)"
proof -
  let ?s = "request_register 3 (secret_request 1 2 3 ''u'' None) no_access :: secret_state"
  have "reachable initial_access secret_step ?s"
    by (rule reachable_step [OF reach_no_access], unfold token_step_def secret_step_def, rule access_register) (simp add: no_access_def)
  moreover have "waiting_access ?s 3" "answers_of ?s 3 = Unanswered"
    by (simp_all add: waiting_access_def request_register_def)
  ultimately show ?thesis using secrets_delivered by fastforce
qed

end
