(* ===== verification/Hash_Files.thy ===== *)
theory Hash_Files
  imports Expression Paths "HOL-Library.Product_Lexorder"
begin

text \<open>
  The \<open>hashFiles\<close> function of the expression crate: its patterns, the selection of files and
  the digest. The file system, the traversal of \<open>walkdir\<close>, \<open>globset\<close>, SHA-256 and the clock
  are the fields of \<open>hash_world\<close>.
\<close>

section \<open>The world\<close>

datatype io_error = NotFound | OtherIo string

record walk_entry =
  we_path :: string
  we_depth :: nat
  we_is_symlink :: bool

datatype walk_result = Walked walk_entry | WalkLoop | WalkFailed "string option" "io_error option"

record 'm hash_world =
  hw_canonicalize :: "string \<Rightarrow> io_error + string"
  hw_walk :: "string \<Rightarrow> bool \<Rightarrow> (walk_entry \<Rightarrow> bool) \<Rightarrow> walk_result list"
  hw_is_file :: "string \<Rightarrow> io_error + bool"
  hw_read :: "string \<Rightarrow> io_error + (io_error + string) list"
  hw_timed_out :: "nat \<Rightarrow> bool"
  hw_sha256 :: "string \<Rightarrow> string"
  hw_glob :: "string \<Rightarrow> string + 'm"
  hw_glob_match :: "'m \<Rightarrow> string \<Rightarrow> bool"

definition io_text :: "io_error \<Rightarrow> string" where
  "io_text e = (case e of NotFound \<Rightarrow> ''not found'' | OtherIo t \<Rightarrow> t)"

text \<open>A result of the world as an error of the expression crate.\<close>

definition io_result :: "string \<Rightarrow> io_error + 'a \<Rightarrow> expr_failure + 'a" where
  "io_result path r = (case r of Inl e \<Rightarrow> Inl (ExprErr (HashFilesIo path (io_text e))) | Inr x \<Rightarrow> Inr x)"

section \<open>Patterns\<close>

text \<open>\<open>str::lines\<close>: a line ends with a newline, or with a carriage return and a newline.\<close>

definition strip_return :: "string \<Rightarrow> string" where
  "strip_return s = (case strip_suffix s [CHR 0x0D] of None \<Rightarrow> s | Some l \<Rightarrow> l)"

definition text_lines :: "string \<Rightarrow> string list" where
  "text_lines s =
    (let segments = split_char (CHR 0x0A) s in
     map strip_return (butlast segments) @ (if last segments = [] then [] else [last segments]))"

definition slash_component :: "string \<Rightarrow> string \<Rightarrow> component \<Rightarrow> expr_failure + string" where
  "slash_component path result c =
    (case c of
      RootDir \<Rightarrow> Inr (result @ ''/'')
    | NormalComponent v \<Rightarrow>
        if utf8_ok v then
          Inr ((if result \<noteq> [] \<and> \<not> ends_with result ''/'' then result @ ''/'' else result) @ v)
        else Inl (ExprErr (HashFilesNonUtf8Path path))
    | CurDir \<Rightarrow> Inr result
    | ParentDir \<Rightarrow> Inl (ExprErr (InvalidHashFilesPattern path ''unsupported path component'')))"

definition slash_path :: "string \<Rightarrow> expr_failure + string" where
  "slash_path path = foldE (slash_component path) [] (path_components path)"

lemma trim_start_length: "length (trim_start s) \<le> length s"
proof -
  have "length (concat (dropWhile P xs)) \<le> length (concat xs)" for P and xs :: "string list"
    by (induction xs) auto
  from this [of is_whitespace "utf8_chars s"] show ?thesis by (simp add: trim_start_def)
qed

function strip_negations :: "bool \<Rightarrow> string \<Rightarrow> bool \<times> string" where
  "strip_negations exclude pattern =
    (case strip_prefix pattern ''!'' of
      None \<Rightarrow> (exclude, pattern)
    | Some remainder \<Rightarrow> strip_negations (\<not> exclude) (trim_start remainder))"
  by pat_completeness auto
termination
  by (relation "measure (length \<circ> snd)")
    (auto simp: strip_prefix_Some intro: le_less_trans [OF trim_start_length])

definition strip_hash_pattern_negation :: "string \<Rightarrow> bool \<times> string" where
  "strip_hash_pattern_negation pattern = strip_negations False pattern"

declare strip_negations.simps [simp del]

definition is_brace :: "string \<Rightarrow> bool" where
  "is_brace ch \<longleftrightarrow> ch = ''{'' \<or> ch = ''}''"

definition escape_step :: "string \<Rightarrow> string \<times> nat \<Rightarrow> string \<times> nat" where
  "escape_step ch state =
    (case state of (escaped, backslashes) \<Rightarrow>
     ((if is_brace ch \<and> even backslashes then escaped @ [CHR 0x5C] else escaped) @ ch,
      if ch = [CHR 0x5C] then backslashes + 1 else 0))"

definition escape_globset_alternation :: "string \<Rightarrow> string" where
  "escape_globset_alternation pattern = fst (fold escape_step (utf8_chars pattern) ([], 0))"

function strip_current :: "string \<Rightarrow> string" where
  "strip_current s = (case strip_prefix s ''./'' of None \<Rightarrow> s | Some relative \<Rightarrow> strip_current relative)"
  by pat_completeness auto
termination
  by (relation "measure length") (auto simp: strip_prefix_Some)

declare strip_current.simps [simp del]

definition normalize_hash_pattern ::
  "string \<Rightarrow> string \<Rightarrow> expr_failure + string option"
where
  "normalize_hash_pattern workspace pattern =
    bindE (slash_path workspace) (\<lambda>workspace_text.
    let relative =
          (if pattern = workspace_text then []
           else case strip_prefix pattern (workspace_text @ ''/'') of
             Some relative \<Rightarrow> relative
           | None \<Rightarrow> if is_absolute pattern then trim_start_matches (CHR ''/'') pattern else pattern);
        stripped = strip_current relative;
        normalized = (if stripped = ''.'' then [] else stripped) in
    if starts_with normalized ''~'' then Inr None
    else if list_ex (\<lambda>segment. segment = ''.'' \<or> segment = ''..'') (split_char (CHR ''/'') normalized) then
      Inl (ExprErr (InvalidHashFilesPattern pattern ''relative '.' and '..' segments are not allowed''))
    else
      Inr (Some (escape_globset_alternation (if normalized = [] then ''**'' else normalized))))"

record 'm hash_pattern =
  hp_exclude :: bool
  hp_matcher :: 'm
  hp_descendant :: "'m option"

definition build_hash_matcher :: "'m hash_world \<Rightarrow> string \<Rightarrow> string \<Rightarrow> expr_failure + 'm" where
  "build_hash_matcher W original pattern =
    (case hw_glob W pattern of
      Inl e \<Rightarrow> Inl (ExprErr (InvalidHashFilesPattern original e)) | Inr m \<Rightarrow> Inr m)"

text \<open>The body of the loop over the lines of an argument.\<close>

definition compile_hash_line ::
  "'m hash_world \<Rightarrow> string \<Rightarrow> 'm hash_pattern list \<Rightarrow> string \<Rightarrow> expr_failure + 'm hash_pattern list"
where
  "compile_hash_line W workspace compiled line =
    (if line = [] \<or> starts_with line ''#'' then Inr compiled
     else
       let (exclude, stripped) = strip_hash_pattern_negation line in
       bindE (ensure (stripped \<noteq> []) (ExprErr (InvalidHashFilesPattern line ''pattern cannot be empty''))) (\<lambda>_.
       bindE (normalize_hash_pattern workspace stripped) (\<lambda>normalized.
       (case normalized of
         None \<Rightarrow> Inr compiled
       | Some pattern \<Rightarrow>
           bindE (build_hash_matcher W line pattern) (\<lambda>matcher.
           bindE (if ends_with pattern ''**'' then Inr None
               else
                 let base = trim_end_matches (CHR ''/'') pattern in
                 bindE (build_hash_matcher W line (if base = [] then ''**'' else base @ ''/**'')) (\<lambda>m.
                 Inr (Some m))) (\<lambda>descendant.
           Inr (compiled @ [\<lparr>hp_exclude = exclude, hp_matcher = matcher, hp_descendant = descendant\<rparr>])))))))"

definition compile_hash_patterns ::
  "'m hash_world \<Rightarrow> string \<Rightarrow> string list \<Rightarrow> expr_failure + 'm hash_pattern list"
where
  "compile_hash_patterns W workspace arguments =
    foldE (\<lambda>compiled argument.
      foldE (compile_hash_line W workspace) compiled (map trim (text_lines argument))) [] arguments"

definition pattern_matches :: "'m hash_world \<Rightarrow> 'm hash_pattern \<Rightarrow> string \<Rightarrow> bool" where
  "pattern_matches W p relative_path \<longleftrightarrow> hw_glob_match W (hp_matcher p) relative_path \<or>
    (case hp_descendant p of None \<Rightarrow> False | Some m \<Rightarrow> hw_glob_match W m relative_path)"

definition path_included :: "'m hash_world \<Rightarrow> 'm hash_pattern list \<Rightarrow> string \<Rightarrow> bool" where
  "path_included W patterns relative =
    fold (\<lambda>p included. if pattern_matches W p relative then \<not> hp_exclude p else included) patterns False"

section \<open>Selection\<close>

text \<open>\<open>strip_prefix(&workspace).expect(...)\<close>.\<close>

definition path_suffix :: "string \<Rightarrow> string \<Rightarrow> expr_failure + string" where
  "path_suffix path base =
    ok_or (strip_path_prefix path base) ExprPanic"

text \<open>\<open>filter_entry\<close>: links that leave the workspace are not followed.\<close>

definition keep_entry :: "'m hash_world \<Rightarrow> string \<Rightarrow> walk_entry \<Rightarrow> bool" where
  "keep_entry W workspace e \<longleftrightarrow> \<not> we_is_symlink e \<or>
    (case hw_canonicalize W (we_path e) of Inl _ \<Rightarrow> False | Inr target \<Rightarrow> path_prefix target workspace)"

type_synonym matched = "(string \<times> string) list"

text \<open>The part of the walk's loop after the checks of the clock and of the walk's errors.\<close>

definition select_entry ::
  "'m hash_world \<Rightarrow> string \<Rightarrow> 'm hash_pattern list \<Rightarrow> matched \<Rightarrow> walk_entry \<Rightarrow> expr_failure + matched"
where
  "select_entry W workspace patterns matched e =
    (if we_depth e = 0 then Inr matched
     else
       bindE (path_suffix (we_path e) workspace) (\<lambda>suffix.
       bindE (slash_path suffix) (\<lambda>relative.
       if \<not> path_included W patterns relative then Inr matched
       else
         (case hw_canonicalize W (we_path e) of
           Inl NotFound \<Rightarrow> Inr matched
         | Inl (OtherIo t) \<Rightarrow> Inl (ExprErr (HashFilesIo (we_path e) t))
         | Inr resolved \<Rightarrow>
             if \<not> path_prefix resolved workspace then Inr matched
             else
               bindE (io_result (we_path e) (hw_is_file W resolved)) (\<lambda>is_file.
               Inr (if is_file then matched @ [(we_path e, resolved)] else matched))))))"

definition walk_step ::
  "'m hash_world \<Rightarrow> string \<Rightarrow> 'm hash_pattern list \<Rightarrow> nat \<times> matched \<Rightarrow> walk_result \<Rightarrow> expr_failure + nat \<times> matched"
where
  "walk_step W workspace patterns state r =
    bindE (ensure (\<not> hw_timed_out W (fst state)) (ExprErr HashFilesTimeout)) (\<lambda>_.
    (case r of
      WalkLoop \<Rightarrow> Inr (fst state + 1, snd state)
    | WalkFailed path e \<Rightarrow>
        Inl (ExprErr (HashFilesIo (case path of None \<Rightarrow> workspace | Some p \<Rightarrow> p)
          (case e of None \<Rightarrow> ''directory traversal failed'' | Some e \<Rightarrow> io_text e)))
    | Walked e \<Rightarrow>
        bindE (select_entry W workspace patterns (snd state) e) (\<lambda>matched.
        Inr (fst state + 1, matched))))"

section \<open>Digest\<close>

definition hex_digit :: "nat \<Rightarrow> char" where
  "hex_digit n = (if n < 10 then char_of (48 + n) else char_of (87 + n))"

definition hex_encode :: "string \<Rightarrow> string" where
  "hex_encode digest = concat (map (\<lambda>b. [hex_digit (byte_of b div 16), hex_digit (byte_of b mod 16)]) digest)"

text \<open>\<open>Path::cmp\<close> compares components, in the order of the enum.\<close>

definition component_key :: "component \<Rightarrow> nat \<times> string" where
  "component_key c =
    (case c of RootDir \<Rightarrow> (0, []) | CurDir \<Rightarrow> (1, []) | ParentDir \<Rightarrow> (2, []) | NormalComponent v \<Rightarrow> (3, v))"

definition path_key :: "string \<Rightarrow> (nat \<times> string) list" where
  "path_key path = map component_key (path_components path)"

definition read_step ::
  "'m hash_world \<Rightarrow> string \<Rightarrow> nat \<times> string \<Rightarrow> io_error + string \<Rightarrow> expr_failure + nat \<times> string"
where
  "read_step W path state chunk =
    bindE (io_result path chunk) (\<lambda>bytes.
    bindE (ensure (\<not> hw_timed_out W (fst state)) (ExprErr HashFilesTimeout)) (\<lambda>_.
    Inr (fst state + 1, snd state @ bytes)))"

definition hash_step ::
  "'m hash_world \<Rightarrow> nat \<times> string \<Rightarrow> string \<times> string \<Rightarrow> expr_failure + nat \<times> string"
where
  "hash_step W state file =
    (case file of (display_path, resolved_path) \<Rightarrow>
     bindE (ensure (\<not> hw_timed_out W (fst state)) (ExprErr HashFilesTimeout)) (\<lambda>_.
     bindE (io_result display_path (hw_read W resolved_path)) (\<lambda>chunks.
     bindE (foldE (read_step W display_path) (fst state + 1, []) chunks) (\<lambda>(tick, content).
     Inr (tick, snd state @ hw_sha256 W content)))))"

definition hash_options :: "string list \<Rightarrow> expr_failure + bool \<times> string list" where
  "hash_options arguments =
    (case arguments of
      option # rest \<Rightarrow>
        if starts_with option ''--'' then
          if eq_ignore_ascii_case option ''--follow-symbolic-links'' then Inr (True, rest)
          else Inl (ExprErr (InvalidHashFilesOption option))
        else Inr (False, arguments)
    | [] \<Rightarrow> Inr (False, arguments))"

definition hash_files :: "'m hash_world \<Rightarrow> string \<Rightarrow> string list \<Rightarrow> expr_failure + string" where
  "hash_files W workspace_path arguments =
    bindE (hash_options arguments) (\<lambda>(follow, pattern_arguments).
    bindE (case hw_canonicalize W workspace_path of
        Inl e \<Rightarrow> Inl (ExprErr (HashFilesWorkspace workspace_path (io_text e))) | Inr w \<Rightarrow> Inr w) (\<lambda>workspace.
    bindE (compile_hash_patterns W workspace pattern_arguments) (\<lambda>patterns.
    if \<not> list_ex (\<lambda>p. \<not> hp_exclude p) patterns then Inr []
    else
      bindE (foldE (walk_step W workspace patterns) (0, [])
        (hw_walk W workspace follow (keep_entry W workspace))) (\<lambda>(tick, matched).
      let matched_paths = sort_key (\<lambda>m. path_key (fst m)) matched in
      if matched_paths = [] then Inr []
      else
        bindE (foldE (hash_step W) (tick, []) matched_paths) (\<lambda>(_, aggregate).
        Inr (hex_encode (hw_sha256 W aggregate)))))))"

section \<open>What is hashed\<close>

text \<open>An entry of the walk that is hashed, with the file it resolves to.\<close>

definition entry_selected ::
  "'m hash_world \<Rightarrow> string \<Rightarrow> 'm hash_pattern list \<Rightarrow> walk_entry \<Rightarrow> string \<Rightarrow> bool"
where
  "entry_selected W workspace patterns e resolved \<longleftrightarrow> we_depth e \<noteq> 0 \<and>
    (\<exists>suffix relative. path_suffix (we_path e) workspace = Inr suffix \<and>
      slash_path suffix = Inr relative \<and> path_included W patterns relative) \<and>
    hw_canonicalize W (we_path e) = Inr resolved \<and> path_prefix resolved workspace \<and>
    hw_is_file W resolved = Inr True"

definition file_digest :: "'m hash_world \<Rightarrow> string \<times> string \<Rightarrow> string" where
  "file_digest W file = hw_sha256 W (concat (map projr (projr (hw_read W (snd file)))))"

lemma io_result_Inr [result_simps]: "io_result path r = Inr x \<longleftrightarrow> r = Inr x"
  by (cases r) (auto simp: io_result_def)

lemma select_entry_Inr:
  assumes "select_entry W workspace patterns matched e = Inr matched'"
  shows "matched' = matched \<and> (\<forall>r. \<not> entry_selected W workspace patterns e r) \<or>
    (\<exists>r. entry_selected W workspace patterns e r \<and> matched' = matched @ [(we_path e, r)])"
proof (cases "we_depth e = 0")
  case True
  then show ?thesis using assms by (simp add: select_entry_def entry_selected_def)
next
  case False
  with assms obtain suffix relative where rel: "path_suffix (we_path e) workspace = Inr suffix"
      "slash_path suffix = Inr relative"
    by (auto simp: select_entry_def bindE_Inr)
  show ?thesis
  proof (cases "path_included W patterns relative")
    case out: False
    then show ?thesis using assms rel False by (auto simp: select_entry_def entry_selected_def)
  next
    case included: True
    show ?thesis
    proof (cases "hw_canonicalize W (we_path e)")
      case (Inl error)
      then show ?thesis using assms rel False included
        by (cases error) (auto simp: select_entry_def entry_selected_def)
    next
      case (Inr r)
      show ?thesis
      proof (cases "path_prefix r workspace")
        case True
        then obtain b where b: "hw_is_file W r = Inr b"
          "matched' = (if b then matched @ [(we_path e, r)] else matched)"
          using assms rel False included Inr by (auto simp: select_entry_def bindE_Inr io_result_Inr)
        then show ?thesis using rel False included Inr True by (auto simp: entry_selected_def)
      next
        case outside: False
        then show ?thesis using assms rel False included Inr by (auto simp: select_entry_def entry_selected_def)
      qed
    qed
  qed
qed

text \<open>The walk's loop collects the selected entries.\<close>

lemma walk_selects:
  assumes "foldE (walk_step W workspace patterns) (t, matched) rs = Inr (t', matched')"
  shows "set matched' = set matched \<union>
    {(we_path e, r) | e r. Walked e \<in> set rs \<and> entry_selected W workspace patterns e r}"
  using assms
proof (induction rs arbitrary: t matched)
  case (Cons x rs)
  from Cons.prems obtain t1 m1 where step: "walk_step W workspace patterns (t, matched) x = Inr (t1, m1)"
    "foldE (walk_step W workspace patterns) (t1, m1) rs = Inr (t', matched')" by (auto simp: bindE_Inr)
  note IH = Cons.IH [OF step(2)]
  show ?case
  proof (cases x)
    case (Walked e)
    then have sel: "select_entry W workspace patterns matched e = Inr m1"
      using step(1) by (auto simp: walk_step_def result_simps)
    have unique: "r = r'" if "entry_selected W workspace patterns e r" "entry_selected W workspace patterns e r'" for r r'
      using that by (simp add: entry_selected_def)
    from select_entry_Inr [OF sel] show ?thesis
      unfolding IH using Walked unique by auto
  next
    case WalkLoop
    then show ?thesis using step(1) unfolding IH by (auto simp: walk_step_def result_simps)
  next
    case (WalkFailed path error)
    then show ?thesis using step(1) by (auto simp: walk_step_def result_simps)
  qed
qed simp

lemma read_concat:
  assumes "foldE (read_step W path) (t, content) chunks = Inr (t', content')"
  shows "content' = content @ concat (map projr chunks)"
  using assms
proof (induction chunks arbitrary: t content)
  case (Cons c chunks)
  from Cons.prems obtain t1 c1 where step: "read_step W path (t, content) c = Inr (t1, c1)"
    "foldE (read_step W path) (t1, c1) chunks = Inr (t', content')" by (auto simp: bindE_Inr)
  from step(1) obtain bytes where "c = Inr bytes" "c1 = content @ bytes"
    by (auto simp: read_step_def result_simps)
  with Cons.IH [OF step(2)] show ?case by simp
qed simp

lemma hash_concat:
  assumes "foldE (hash_step W) (t, aggregate) files = Inr (t', aggregate')"
  shows "aggregate' = aggregate @ concat (map (file_digest W) files)"
  using assms
proof (induction files arbitrary: t aggregate)
  case (Cons f files)
  obtain d r where f: "f = (d, r)" by fastforce
  from Cons.prems obtain t1 a1 where step: "hash_step W (t, aggregate) f = Inr (t1, a1)"
    "foldE (hash_step W) (t1, a1) files = Inr (t', aggregate')" by (auto simp: bindE_Inr)
  from step(1) obtain chunks content where c: "hw_read W r = Inr chunks"
    "foldE (read_step W d) (t + 1, []) chunks = Inr (t1, content)" "a1 = aggregate @ hw_sha256 W content"
    by (auto simp: f hash_step_def result_simps)
  from read_concat [OF c(2)] Cons.IH [OF step(2)] c(1,3) show ?case by (simp add: f file_digest_def)
qed simp

text \<open>
  The function reaches no panic on a walk that stays below its root, which is what the
  evaluator assumes of it: \<open>strip_prefix\<close> is expected to succeed on every walked path.
\<close>

lemma no_panic_steps:
  "slash_path path \<noteq> Inl ExprPanic" "normalize_hash_pattern workspace pattern \<noteq> Inl ExprPanic"
proof -
  have slash: "foldE (slash_component path) r components \<noteq> Inl ExprPanic" for r path components
  proof (induction components arbitrary: r)
    case (Cons c components)
    then show ?case by (cases c) (auto simp: slash_component_def bindE_Inl split: if_splits)
  qed simp
  then show "slash_path path \<noteq> Inl ExprPanic" by (simp add: slash_path_def)
  from slash show "normalize_hash_pattern workspace pattern \<noteq> Inl ExprPanic"
    by (auto simp: normalize_hash_pattern_def slash_path_def bindE_Inl Let_def split: if_splits)
qed

lemma no_panic_compile: "compile_hash_patterns W workspace arguments \<noteq> Inl ExprPanic"
proof -
  have build: "build_hash_matcher W line pattern \<noteq> Inl ExprPanic" for line pattern
    by (auto simp: build_hash_matcher_def split: sum.splits)
  have "compile_hash_line W workspace compiled line \<noteq> Inl ExprPanic" for compiled line
    using build no_panic_steps(2)
    by (auto simp: compile_hash_line_def Let_def bindE_Inl ensure_Inl case_prod_unfold
        split: if_splits option.splits)
  then have "foldE (compile_hash_line W workspace) compiled ls \<noteq> Inl ExprPanic" for compiled ls
    by (induction ls arbitrary: compiled) (auto simp: bindE_Inl)
  then have "foldE (\<lambda>compiled argument.
      foldE (compile_hash_line W workspace) compiled (map trim (text_lines argument))) compiled arguments
      \<noteq> Inl ExprPanic" for compiled
    by (induction arguments arbitrary: compiled) (auto simp: bindE_Inl)
  then show ?thesis by (simp add: compile_hash_patterns_def)
qed

lemma no_panic_walk:
  assumes "\<And>e. Walked e \<in> set rs \<Longrightarrow> path_prefix (we_path e) workspace"
  shows "foldE (walk_step W workspace patterns) s rs \<noteq> Inl ExprPanic"
  using assms
proof (induction rs arbitrary: s)
  case (Cons x rs)
  have "select_entry W workspace patterns m e \<noteq> Inl ExprPanic" if "x = Walked e" for m e
  proof -
    have "path_suffix (we_path e) workspace \<noteq> Inl ExprPanic"
      using Cons.prems [of e] that by (simp add: path_suffix_def strip_path_prefix_def ok_or_def)
    then show ?thesis
      using no_panic_steps(1)
      by (auto simp: select_entry_def bindE_Inl io_result_def split: if_splits sum.splits io_error.splits)
  qed
  then have "walk_step W workspace patterns s x \<noteq> Inl ExprPanic"
    by (cases x) (auto simp: walk_step_def bindE_Inl ensure_Inl)
  then show ?case using Cons by (auto simp: bindE_Inl)
qed simp

lemma no_panic_hash: "foldE (hash_step W) s files \<noteq> Inl ExprPanic"
proof (induction files arbitrary: s)
  case (Cons f files)
  have "foldE (read_step W path) t chunks \<noteq> Inl ExprPanic" for path t chunks
    by (induction chunks arbitrary: t) (auto simp: read_step_def bindE_Inl ensure_Inl io_result_def split: sum.splits)
  then have "hash_step W s f \<noteq> Inl ExprPanic"
    by (auto simp: hash_step_def bindE_Inl ensure_Inl io_result_def split: sum.splits prod.splits)
  then show ?case using Cons by (auto simp: bindE_Inl)
qed simp

lemma hash_files_no_panic:
  assumes "\<And>root follow keep e. Walked e \<in> set (hw_walk W root follow keep) \<Longrightarrow> path_prefix (we_path e) root"
  shows "hash_files W workspace_path arguments \<noteq> Inl ExprPanic"
proof -
  have walk: "foldE (walk_step W root patterns) s (hw_walk W root follow keep) \<noteq> Inl ExprPanic"
    for root patterns s follow keep
    using assms by (intro no_panic_walk) blast
  show ?thesis
    using no_panic_compile [of W] no_panic_hash [of W] walk
    by (auto simp: hash_files_def hash_options_def bindE_Inl Let_def split: if_splits sum.splits list.splits)
qed


definition sample_world :: "string hash_world" where
  "sample_world = \<lparr>hw_canonicalize = Inr, hw_walk = (\<lambda>root _ _.
      [Walked \<lparr>we_path = root, we_depth = 0, we_is_symlink = False\<rparr>,
       Walked \<lparr>we_path = root @ ''/b.lock'', we_depth = 1, we_is_symlink = False\<rparr>,
       Walked \<lparr>we_path = root @ ''/a.lock'', we_depth = 1, we_is_symlink = False\<rparr>]),
    hw_is_file = (\<lambda>_. Inr True), hw_read = (\<lambda>p. Inr [Inr p]), hw_timed_out = (\<lambda>_. False),
    hw_sha256 = (\<lambda>s. s), hw_glob = Inr, hw_glob_match = (\<lambda>g p. g = ''**'')\<rparr>"


end
