(* ===== verification/Problem_Matcher.thy ===== *)
theory Problem_Matcher
  imports Agent_Base Protocol
begin

text \<open>
  \<open>gitzero-agent/src/problem_matcher.rs\<close>: matchers registered by \<open>::add-matcher::\<close>, the state
  of their multi-line patterns and the annotations they report. The file system, the
  deserializer of matcher files and the regular expressions of users are the fields of
  \<open>matcher_world\<close>.
\<close>

section \<open>Limits and configuration\<close>

definition MAX_MATCHER_CONFIG_BYTES :: nat where
  "MAX_MATCHER_CONFIG_BYTES = 256 * 1024"

definition MAX_MATCHERS_PER_CONFIG :: nat where
  "MAX_MATCHERS_PER_CONFIG = 32"

definition MAX_MATCHERS_PER_JOB :: nat where
  "MAX_MATCHERS_PER_JOB = 128"

definition MAX_PATTERNS_PER_MATCHER :: nat where
  "MAX_PATTERNS_PER_MATCHER = 10"

definition MAX_MATCHER_OWNER_BYTES :: nat where
  "MAX_MATCHER_OWNER_BYTES = 256"

definition MAX_MATCHER_REGEX_BYTES :: nat where
  "MAX_MATCHER_REGEX_BYTES = 16 * 1024"

definition MAX_MATCHER_MESSAGE_UTF16_UNITS :: nat where
  "MAX_MATCHER_MESSAGE_UTF16_UNITS = 4096"

definition MAX_MATCHER_TITLE_BYTES :: nat where
  "MAX_MATCHER_TITLE_BYTES = 255"

record problem_pattern_config =
  pc_regexp :: string
  pc_file :: "nat option"
  pc_line :: "nat option"
  pc_column :: "nat option"
  pc_severity :: "nat option"
  pc_code :: "nat option"
  pc_message :: "nat option"
  pc_from_path :: "nat option"
  pc_loop :: bool

record problem_matcher_config =
  mc_owner :: string
  mc_severity :: string
  mc_from_path :: string
  mc_pattern :: "problem_pattern_config list"

record problem_matcher_file =
  problem_matchers :: "problem_matcher_config list"

record 'rx matcher_world =
  mw_canonicalize :: "string \<Rightarrow> string option"
  mw_metadata :: "string \<Rightarrow> (bool \<times> nat) option"
  mw_read :: "string \<Rightarrow> string option option"
  mw_parse :: "string \<Rightarrow> problem_matcher_file option"
  mw_regex :: "string \<Rightarrow> 'rx option"
  mw_captures_len :: "'rx \<Rightarrow> nat"
  mw_captures :: "'rx \<Rightarrow> string \<Rightarrow> string option list option"

section \<open>Matchers\<close>

record 'rx problem_pattern =
  pp_regex :: 'rx
  pp_file :: "nat option"
  pp_line :: "nat option"
  pp_column :: "nat option"
  pp_severity :: "nat option"
  pp_code :: "nat option"
  pp_message :: "nat option"
  pp_from_path :: "nat option"
  pp_loop :: bool

record captured_issue =
  ci_file :: "string option"
  ci_line :: "string option"
  ci_column :: "string option"
  ci_severity :: "string option"
  ci_code :: "string option"
  ci_message :: "string option"
  ci_from_path :: "string option"

record matched_issue =
  mi_owner :: string
  mi_captured :: captured_issue

record 'rx problem_matcher =
  pm_owner :: string
  pm_default_severity :: string
  pm_default_from_path :: string
  pm_patterns :: "'rx problem_pattern list"
  pm_state :: "captured_issue option list"

definition default_issue :: captured_issue where
  "default_issue = \<lparr>ci_file = None, ci_line = None, ci_column = None, ci_severity = None, ci_code = None,
    ci_message = None, ci_from_path = None\<rparr>"

definition capture :: "string option list \<Rightarrow> nat option \<Rightarrow> string option" where
  "capture captures index =
    map_option (\<lambda>i. if i < length captures then (case captures ! i of None \<Rightarrow> [] | Some c \<Rightarrow> c) else []) index"

definition from_captures :: "'rx problem_pattern \<Rightarrow> string option list \<Rightarrow> captured_issue" where
  "from_captures p captures =
    \<lparr>ci_file = capture captures (pp_file p), ci_line = capture captures (pp_line p),
     ci_column = capture captures (pp_column p), ci_severity = capture captures (pp_severity p),
     ci_code = capture captures (pp_code p), ci_message = capture captures (pp_message p),
     ci_from_path = capture captures (pp_from_path p)\<rparr>"

abbreviation or_option :: "'a option \<Rightarrow> 'a option \<Rightarrow> 'a option" where
  "or_option a b \<equiv> (case a of None \<Rightarrow> b | Some x \<Rightarrow> Some x)"

definition merge_issue :: "captured_issue \<Rightarrow> captured_issue \<Rightarrow> captured_issue" where
  "merge_issue a newer =
    \<lparr>ci_file = or_option (ci_file a) (ci_file newer), ci_line = or_option (ci_line a) (ci_line newer),
     ci_column = or_option (ci_column a) (ci_column newer),
     ci_severity = or_option (ci_severity a) (ci_severity newer),
     ci_code = or_option (ci_code a) (ci_code newer),
     ci_message = or_option (ci_message a) (ci_message newer),
     ci_from_path = or_option (ci_from_path a) (ci_from_path newer)\<rparr>"

definition or_default :: "string option \<Rightarrow> string \<Rightarrow> string option" where
  "or_default value fallback =
    (if (case value of None \<Rightarrow> True | Some v \<Rightarrow> v = []) \<and> fallback \<noteq> [] then Some fallback else value)"

definition finish_issue :: "string \<Rightarrow> string \<Rightarrow> string \<Rightarrow> captured_issue \<Rightarrow> matched_issue" where
  "finish_issue owner default_severity default_from_path c =
    \<lparr>mi_owner = owner, mi_captured =
      c\<lparr>ci_severity := or_default (ci_severity c) default_severity,
        ci_from_path := or_default (ci_from_path c) default_from_path\<rparr>\<rparr>"

abbreviation finish_for :: "'rx problem_matcher \<Rightarrow> captured_issue \<Rightarrow> matched_issue" where
  "finish_for m \<equiv> finish_issue (pm_owner m) (pm_default_severity m) (pm_default_from_path m)"

definition validate_owner :: "string \<Rightarrow> agent_failure + unit" where
  "validate_owner owner =
    ensure (\<not> (owner = [] \<or> length owner > MAX_MATCHER_OWNER_BYTES \<or>
        contains_any owner [CHR 0x00, carriage_return, newline]))
      (Bail ''problem matcher owner is invalid'')"

definition validate_severity :: "string \<Rightarrow> agent_failure + unit" where
  "validate_severity severity =
    ensure (to_ascii_lowercase severity \<in> {[], ''error'', ''warning'', ''notice''})
      (Bail ''problem matcher default severity is unsupported'')"

section \<open>Compilation\<close>

text \<open>The loop over the seven captures; \<open>assigned\<close> holds the names of earlier ones.\<close>

definition assign_capture ::
  "nat \<Rightarrow> string list \<Rightarrow> string \<times> nat option \<Rightarrow> agent_failure + string list"
where
  "assign_capture captures_len assigned entry =
    (case entry of (name, index) \<Rightarrow>
     (case index of
       None \<Rightarrow> Inr assigned
     | Some i \<Rightarrow>
         bindE (ensure (i < captures_len)
           (Bail (''problem matcher capture index for '' @ name @ '' is out of range''))) (\<lambda>_.
         bindE (ensure (name \<notin> set assigned)
           (Bail (''problem matcher assigns '' @ name @ '' more than once''))) (\<lambda>_.
         Inr (bs_insert name assigned)))))"

definition capture_entries :: "problem_pattern_config \<Rightarrow> (string \<times> nat option) list" where
  "capture_entries p =
    [(''file'', pc_file p), (''line'', pc_line p), (''column'', pc_column p), (''severity'', pc_severity p),
     (''code'', pc_code p), (''message'', pc_message p), (''fromPath'', pc_from_path p)]"

definition pattern_of :: "'rx \<Rightarrow> problem_pattern_config \<Rightarrow> 'rx problem_pattern" where
  "pattern_of regex p =
    \<lparr>pp_regex = regex, pp_file = pc_file p, pp_line = pc_line p, pp_column = pc_column p,
     pp_severity = pc_severity p, pp_code = pc_code p, pp_message = pc_message p,
     pp_from_path = pc_from_path p, pp_loop = pc_loop p\<rparr>"

definition compile_pattern ::
  "'rx matcher_world \<Rightarrow> nat \<Rightarrow> string list \<times> 'rx problem_pattern list \<Rightarrow> nat \<times> problem_pattern_config \<Rightarrow>
    agent_failure + string list \<times> 'rx problem_pattern list"
where
  "compile_pattern W pattern_count state entry =
    (case entry of (index, p) \<Rightarrow> case state of (assigned, patterns) \<Rightarrow>
     bindE (ensure (\<not> (pc_loop p \<and> (index = 0 \<or> index + 1 \<noteq> pattern_count)))
       (Bail ''only the last pattern in a multiline matcher may loop'')) (\<lambda>_.
     bindE (ensure (\<not> (pc_loop p \<and> pc_message p = None))
       (Bail ''a looping problem matcher pattern must capture a message'')) (\<lambda>_.
     bindE (ensure (\<not> (length (pc_regexp p) > MAX_MATCHER_REGEX_BYTES \<or> contains_char (pc_regexp p) (CHR 0x00)))
       (Bail ''problem matcher regular expression is invalid or too large'')) (\<lambda>_.
     bindE (ok_or (mw_regex W (pc_regexp p)) (Bail ''compile problem matcher regular expression'')) (\<lambda>regex.
     bindE (foldE (assign_capture (mw_captures_len W regex)) assigned (capture_entries p)) (\<lambda>assigned.
     Inr (assigned, patterns @ [pattern_of regex p])))))))"

definition compile_matcher ::
  "'rx matcher_world \<Rightarrow> problem_matcher_config \<Rightarrow> agent_failure + 'rx problem_matcher"
where
  "compile_matcher W config =
    bindE (validate_owner (mc_owner config)) (\<lambda>_.
    bindE (validate_severity (mc_severity config)) (\<lambda>_.
    bindE (ensure (\<not> (mc_pattern config = [] \<or> length (mc_pattern config) > MAX_PATTERNS_PER_MATCHER))
      (Bail ''problem matcher must contain a bounded non-empty pattern list'')) (\<lambda>_.
    bindE (ensure (\<not> (length (mc_from_path config) > 4096 \<or> contains_char (mc_from_path config) (CHR 0x00)))
      (Bail ''problem matcher default fromPath is invalid'')) (\<lambda>_.
    bindE (foldE (compile_pattern W (length (mc_pattern config))) ([], []) (enumerate 0 (mc_pattern config)))
      (\<lambda>(assigned, patterns).
    bindE (ensure (''message'' \<in> set assigned) (Bail ''problem matcher must capture a message'')) (\<lambda>_.
    Inr \<lparr>pm_owner = mc_owner config, pm_default_severity = mc_severity config,
      pm_default_from_path = mc_from_path config, pm_patterns = patterns,
      pm_state = replicate (length patterns - 1) None\<rparr>))))))"

section \<open>Matching\<close>

text \<open>Reads and writes of \<open>self.state[i]\<close> and \<open>self.state[i - 1]\<close> that panic out of range.\<close>

definition index_at :: "'a list \<Rightarrow> nat \<Rightarrow> agent_failure + 'a" where
  "index_at xs i = (if i < length xs then Inr (xs ! i) else Inl AgentPanic)"

definition store_at :: "nat \<Rightarrow> 'a \<Rightarrow> 'a list \<Rightarrow> agent_failure + 'a list" where
  "store_at i v xs = (if i < length xs then Inr (xs[i := v]) else Inl AgentPanic)"

definition store_before :: "nat \<Rightarrow> 'a \<Rightarrow> 'a list \<Rightarrow> agent_failure + 'a list" where
  "store_before i v xs = (case i of 0 \<Rightarrow> Inl AgentPanic | Suc j \<Rightarrow> store_at j v xs)"

definition running_at :: "captured_issue option list \<Rightarrow> nat \<Rightarrow> agent_failure + captured_issue option" where
  "running_at st index = (case index of 0 \<Rightarrow> Inr None | Suc j \<Rightarrow> index_at st j)"

definition or_default_issue :: "captured_issue option \<Rightarrow> captured_issue" where
  "or_default_issue r = (case r of None \<Rightarrow> default_issue | Some c \<Rightarrow> c)"

text \<open>
  One turn of the loop from the last pattern to the first: the new state, and the issue when
  the loop returns.
\<close>

definition match_turn ::
  "'rx matcher_world \<Rightarrow> 'rx problem_matcher \<Rightarrow> string \<Rightarrow> nat \<Rightarrow> captured_issue option list \<Rightarrow>
    agent_failure + captured_issue option list \<times> matched_issue option"
where
  "match_turn W m line index st =
    bindE (running_at st index) (\<lambda>running.
    if index \<noteq> 0 \<and> running = None then Inr (st, None)
    else
      bindE (index_at (pm_patterns m) index) (\<lambda>pattern.
      (case mw_captures W (pp_regex pattern) line of
        Some captures \<Rightarrow>
          let merged = merge_issue (or_default_issue running) (from_captures pattern captures) in
          if index + 1 = length (pm_patterns m) then
            bindE (if pp_loop pattern then store_before index running (replicate (length st) None)
              else Inr (replicate (length st) None)) (\<lambda>st.
            Inr (st, Some (finish_for m merged)))
          else bindE (store_at index (Some merged) st) (\<lambda>st. Inr (st, None))
      | None \<Rightarrow>
          bindE (if index + 1 = length (pm_patterns m) then store_before index None st
            else store_at index None st) (\<lambda>st. Inr (st, None)))))"

fun match_loop ::
  "'rx matcher_world \<Rightarrow> 'rx problem_matcher \<Rightarrow> string \<Rightarrow> nat \<Rightarrow> captured_issue option list \<Rightarrow>
    agent_failure + captured_issue option list \<times> matched_issue option"
where
  "match_loop W m line 0 st = Inr (st, None)"
| "match_loop W m line (Suc index) st =
    bindE (match_turn W m line index st) (\<lambda>(st, issue).
    case issue of Some i \<Rightarrow> Inr (st, Some i) | None \<Rightarrow> match_loop W m line index st)"

definition matches ::
  "'rx matcher_world \<Rightarrow> string \<Rightarrow> 'rx problem_matcher \<Rightarrow> agent_failure + 'rx problem_matcher \<times> matched_issue option"
where
  "matches W line m =
    (if length (pm_patterns m) = 1 then
       bindE (index_at (pm_patterns m) 0) (\<lambda>pattern.
       Inr (m, map_option (\<lambda>captures. finish_for m (from_captures pattern captures))
         (mw_captures W (pp_regex pattern) line)))
     else
       bindE (match_loop W m line (length (pm_patterns m)) (pm_state m)) (\<lambda>(st, issue).
       Inr (m\<lparr>pm_state := st\<rparr>, issue)))"

definition reset :: "'rx problem_matcher \<Rightarrow> 'rx problem_matcher" where
  "reset m = m\<lparr>pm_state := replicate (length (pm_state m)) None\<rparr>"

section \<open>Annotations\<close>

definition coordinate :: "string option \<Rightarrow> 32 word option" where
  "coordinate value =
    Option.bind (Option.bind value parse_u32) (\<lambda>w. if 0 < w \<and> w \<le> 0x7FFFFFFF then Some w else None)"

definition matcher_candidate :: "string \<Rightarrow> string option \<Rightarrow> string \<Rightarrow> string" where
  "matcher_candidate file from_path workspace =
    (let candidate = replace_char (CHR 0x5C) (CHR ''/'') file in
     if is_absolute candidate then candidate
     else
       path_join workspace
         (case from_path of
           None \<Rightarrow> candidate
         | Some f \<Rightarrow>
             if trim f = [] then candidate
             else (case path_parent (replace_char (CHR 0x5C) (CHR ''/'') f) of
               None \<Rightarrow> candidate
             | Some parent \<Rightarrow> if parent = [] then candidate else path_join parent candidate)))"

definition matcher_path ::
  "'rx matcher_world \<Rightarrow> string option \<Rightarrow> string option \<Rightarrow> string option \<Rightarrow> string option"
where
  "matcher_path W file from_path workspace =
    Option.bind workspace (\<lambda>workspace.
    Option.bind file (\<lambda>untrimmed.
    let file = trim untrimmed in
    if file = [] \<or> contains_any file [CHR 0x00, carriage_return, newline] then None
    else
      Option.bind (mw_canonicalize W workspace) (\<lambda>root.
      Option.bind (mw_canonicalize W (matcher_candidate file from_path workspace)) (\<lambda>candidate.
      Option.bind (strip_path_prefix candidate root) (\<lambda>relative.
      if (case mw_metadata W candidate of None \<Rightarrow> False | Some (is_file, _) \<Rightarrow> is_file) \<and> utf8_ok relative then
        let path = replace_char (CHR 0x5C) (CHR ''/'') relative in
        if path \<noteq> [] \<and> length path \<le> 4096 then Some path else None
      else None)))))"

definition severity_level :: "string option \<Rightarrow> check_annotation_level option" where
  "severity_level severity =
    (let level = to_ascii_lowercase (case severity of None \<Rightarrow> ''error'' | Some s \<Rightarrow> s) in
     if level = ''error'' then Some FailureLevel
     else if level = ''warning'' then Some WarningLevel
     else if level = ''notice'' then Some NoticeLevel else None)"

definition into_annotation ::
  "'rx matcher_world \<Rightarrow> string option \<Rightarrow> matched_issue \<Rightarrow> check_annotation option"
where
  "into_annotation W workspace issue =
    (let captured = mi_captured issue in
     Option.bind (severity_level (ci_severity captured)) (\<lambda>level.
     Option.bind (ci_message captured) (\<lambda>message.
     if trim message = [] then None
     else
       let code = (case ci_code captured of None \<Rightarrow> [] | Some c \<Rightarrow> trim c);
           start_line = (case coordinate (ci_line captured) of None \<Rightarrow> 1 | Some l \<Rightarrow> l);
           start_column = coordinate (ci_column captured) in
       Some \<lparr>ca_path =
           (case matcher_path W (ci_file captured) (ci_from_path captured) workspace of
             None \<Rightarrow> ''.github'' | Some p \<Rightarrow> p),
         ca_start_line = start_line, ca_end_line = start_line,
         ca_start_column = start_column, ca_end_column = start_column,
         ca_annotation_level = level,
         ca_message = truncate_utf16 MAX_MATCHER_MESSAGE_UTF16_UNITS message,
         ca_title = Some (truncate_utf8 MAX_MATCHER_TITLE_BYTES (if code \<noteq> [] then code else mi_owner issue))\<rparr>)))"

lemma dropWhile_shorter: "dropWhile P s = c # rest \<Longrightarrow> length rest < length s"
  using length_dropWhile_le [of P s] by simp

text \<open>The regular expression \<open>\x1b\[[0-9;]*m?\<close>, removed wherever it matches.\<close>

function (sequential) strip_ansi_color :: "string \<Rightarrow> string" where
  "strip_ansi_color (e # b # s) =
    (if e = CHR 0x1B \<and> b = CHR ''['' then
       (case dropWhile (\<lambda>c. is_ascii_digit c \<or> c = CHR '';'') s of
         [] \<Rightarrow> []
       | c # rest \<Rightarrow> if c = CHR ''m'' then strip_ansi_color rest else strip_ansi_color (c # rest))
     else e # strip_ansi_color (b # s))"
| "strip_ansi_color s = s"
  by pat_completeness auto
termination
  by (relation "measure length") (auto dest: dropWhile_shorter)

section \<open>The registry\<close>

record 'rx problem_matcher_registry =
  fallback_workspace :: "string option"
  workspaces :: "(string \<times> string) list"
  matcher_root :: "string option"
  matcher_scopes :: "(string \<times> 'rx problem_matcher list) list"

definition new_registry :: "string \<Rightarrow> string \<Rightarrow> 'rx problem_matcher_registry" where
  "new_registry workspace root =
    \<lparr>fallback_workspace = Some workspace, workspaces = [], matcher_root = Some root, matcher_scopes = []\<rparr>"

definition register_workspace ::
  "string \<Rightarrow> string \<Rightarrow> 'rx problem_matcher_registry \<Rightarrow> 'rx problem_matcher_registry"
where
  "register_workspace scope workspace r = r\<lparr>workspaces := bt_insert scope workspace (workspaces r)\<rparr>"

definition scope_workspace :: "string \<Rightarrow> 'rx problem_matcher_registry \<Rightarrow> string option" where
  "scope_workspace scope r = or_option (bt_get (workspaces r) scope) (fallback_workspace r)"

definition read_config ::
  "'rx matcher_world \<Rightarrow> string \<Rightarrow> string \<Rightarrow> 'rx problem_matcher_registry \<Rightarrow> agent_failure + problem_matcher_file"
where
  "read_config W scope path r =
    bindE (ensure (\<not> (path = [] \<or> length path > 4096 \<or> contains_any path [CHR 0x00, carriage_return, newline]))
      (Bail ''problem matcher file path is invalid'')) (\<lambda>_.
    bindE (ok_or (scope_workspace scope r) (Bail ''problem matcher workspace is unavailable'')) (\<lambda>workspace.
    bindE (ok_or (matcher_root r) (Bail ''problem matcher root is unavailable'')) (\<lambda>root.
    bindE (ok_or (mw_canonicalize W root) (Bail ''resolve isolated problem matcher root'')) (\<lambda>root.
    bindE (ok_or (mw_canonicalize W (if is_absolute path then path else path_join workspace path))
      (Bail ''resolve problem matcher configuration'')) (\<lambda>candidate.
    bindE (ensure (path_prefix candidate root)
      (Bail ''problem matcher configuration is outside the isolated run directory'')) (\<lambda>_.
    bindE (ok_or (mw_metadata W candidate) (Bail ''inspect problem matcher file'')) (\<lambda>(is_file, len).
    bindE (ensure (\<not> (\<not> is_file \<or> len > MAX_MATCHER_CONFIG_BYTES))
      (Bail ''problem matcher configuration is not a bounded regular file'')) (\<lambda>_.
    bindE (ok_or (mw_read W candidate) (Bail ''open problem matcher configuration'')) (\<lambda>opened.
    bindE (ok_or opened (Bail ''read problem matcher configuration'')) (\<lambda>content.
    let source = take (MAX_MATCHER_CONFIG_BYTES + 1) content in
    bindE (ensure (\<not> length source > MAX_MATCHER_CONFIG_BYTES)
      (Bail ''problem matcher configuration exceeds its size limit'')) (\<lambda>_.
    ok_or (mw_parse W source) (Bail ''parse problem matcher configuration''))))))))))))"

abbreviation lower_owner :: "'rx problem_matcher \<Rightarrow> string" where
  "lower_owner m \<equiv> to_ascii_lowercase (pm_owner m)"

definition compile_config_matcher ::
  "'rx matcher_world \<Rightarrow> string list \<times> 'rx problem_matcher list \<Rightarrow> problem_matcher_config \<Rightarrow>
    agent_failure + string list \<times> 'rx problem_matcher list"
where
  "compile_config_matcher W state config =
    (case state of (owners, matchers) \<Rightarrow>
     bindE (compile_matcher W config) (\<lambda>compiled.
     bindE (ensure (lower_owner compiled \<notin> set owners)
       (Bail ''problem matcher file contains a duplicate owner'')) (\<lambda>_.
     Inr (bs_insert (lower_owner compiled) owners, matchers @ [compiled]))))"

definition scope_matchers :: "string \<Rightarrow> 'rx problem_matcher_registry \<Rightarrow> 'rx problem_matcher list" where
  "scope_matchers scope r = (case bt_get (matcher_scopes r) scope of None \<Rightarrow> [] | Some ms \<Rightarrow> ms)"

definition put_matchers ::
  "string \<Rightarrow> 'rx problem_matcher list \<Rightarrow> 'rx problem_matcher_registry \<Rightarrow> 'rx problem_matcher_registry"
where
  "put_matchers scope ms r = r\<lparr>matcher_scopes := bt_insert scope ms (matcher_scopes r)\<rparr>"

text \<open>
  The second half of \<open>add_from_file\<close>: the active matchers are drained before the check of the
  total number, so a failure leaves the scope without matchers.
\<close>

definition activate_matchers ::
  "string \<Rightarrow> 'rx problem_matcher list \<Rightarrow> ('rx problem_matcher_registry, unit) act"
where
  "activate_matchers scope matchers r =
    (let new_owners = bs_collect (map lower_owner matchers);
         retained = filter (\<lambda>m. lower_owner m \<notin> set new_owners) (scope_matchers scope r) in
     if length matchers + length retained > MAX_MATCHERS_PER_JOB then
       bailA ''job registered too many problem matchers'' (put_matchers scope [] r)
     else (Inr (), put_matchers scope (matchers @ retained) r))"

definition add_from_file ::
  "'rx matcher_world \<Rightarrow> string \<Rightarrow> string \<Rightarrow> ('rx problem_matcher_registry, unit) act"
where
  "add_from_file W scope path =
    bindA (readA (read_config W scope path)) (\<lambda>config.
    bindA (liftA config) (\<lambda>file.
    if length (problem_matchers file) > MAX_MATCHERS_PER_CONFIG then
      bailA ''problem matcher file contains too many matchers''
    else
      bindA (liftA (foldE (compile_config_matcher W) ([], []) (problem_matchers file))) (\<lambda>(owners, matchers).
      if matchers = [] then retA () else activate_matchers scope matchers)))"

text \<open>\<open>retain\<close> on the matchers of a scope, when there is an entry for it.\<close>

definition retain_matchers ::
  "string \<Rightarrow> ('rx problem_matcher \<Rightarrow> bool) \<Rightarrow> 'rx problem_matcher_registry \<Rightarrow> 'rx problem_matcher_registry"
where
  "retain_matchers scope P r =
    (case bt_get (matcher_scopes r) scope of None \<Rightarrow> r | Some ms \<Rightarrow> put_matchers scope (filter P ms) r)"

definition remove_owner :: "string \<Rightarrow> string \<Rightarrow> ('rx problem_matcher_registry, unit) act" where
  "remove_owner scope owner =
    bindA (liftA (validate_owner owner)) (\<lambda>_.
    updateA (retain_matchers scope (\<lambda>m. \<not> eq_ignore_ascii_case (pm_owner m) owner)))"

definition collect_owner :: "string list \<Rightarrow> problem_matcher_config \<Rightarrow> agent_failure + string list" where
  "collect_owner owners config =
    bindE (validate_owner (mc_owner config)) (\<lambda>_. Inr (bs_insert (to_ascii_lowercase (mc_owner config)) owners))"

definition remove_from_file ::
  "'rx matcher_world \<Rightarrow> string \<Rightarrow> string \<Rightarrow> ('rx problem_matcher_registry, unit) act"
where
  "remove_from_file W scope path =
    bindA (readA (read_config W scope path)) (\<lambda>config.
    bindA (liftA config) (\<lambda>file.
    if length (problem_matchers file) > MAX_MATCHERS_PER_CONFIG then
      bailA ''problem matcher file contains too many matchers''
    else
      bindA (liftA (foldE collect_owner [] (problem_matchers file))) (\<lambda>owners.
      updateA (retain_matchers scope (\<lambda>m. lower_owner m \<notin> set owners)))))"

definition reset_others :: "nat \<Rightarrow> 'rx problem_matcher list \<Rightarrow> 'rx problem_matcher list" where
  "reset_others index ms = map (\<lambda>(i, m). if i = index then m else reset m) (enumerate 0 ms)"

text \<open>The loop over the indices of the matchers; the first argument counts what is left.\<close>

fun scan_loop ::
  "'rx matcher_world \<Rightarrow> string option \<Rightarrow> string \<Rightarrow> nat \<Rightarrow> nat \<Rightarrow> 'rx problem_matcher list \<Rightarrow>
    agent_failure + 'rx problem_matcher list \<times> check_annotation option"
where
  "scan_loop W workspace line 0 index ms = Inr (ms, None)"
| "scan_loop W workspace line (Suc n) index ms =
    bindE (index_at ms index) (\<lambda>m.
    bindE (matches W line m) (\<lambda>(m, issue).
    let ms = ms[index := m] in
    case issue of
      None \<Rightarrow> scan_loop W workspace line n (Suc index) ms
    | Some i \<Rightarrow>
        let ms = reset_others index ms in
        (case into_annotation W workspace i of
          Some a \<Rightarrow> Inr (ms, Some a)
        | None \<Rightarrow> scan_loop W workspace line n (Suc index) ms)))"

definition scan ::
  "'rx matcher_world \<Rightarrow> string \<Rightarrow> string \<Rightarrow> ('rx problem_matcher_registry, check_annotation option) act"
where
  "scan W scope line r =
    (case bt_get (matcher_scopes r) scope of
      None \<Rightarrow> (Inr None, r)
    | Some ms \<Rightarrow>
        (case scan_loop W (scope_workspace scope r) (strip_ansi_color line) (length ms) 0 ms of
          Inl e \<Rightarrow> (Inl e, r)
        | Inr (ms, annotation) \<Rightarrow> (Inr annotation, put_matchers scope ms r)))"

definition reset_scope :: "string \<Rightarrow> 'rx problem_matcher_registry \<Rightarrow> 'rx problem_matcher_registry" where
  "reset_scope scope r =
    (case bt_get (matcher_scopes r) scope of None \<Rightarrow> r | Some ms \<Rightarrow> put_matchers scope (map reset ms) r)"

section \<open>Invariant of the matchers\<close>

definition captures_message :: "'rx problem_pattern \<Rightarrow> bool" where
  "captures_message p \<longleftrightarrow> pp_message p \<noteq> None"

definition has_message :: "captured_issue \<Rightarrow> bool" where
  "has_message c \<longleftrightarrow> ci_message c \<noteq> None"

text \<open>The captures of a pattern exist in its regular expression; only a last pattern loops.\<close>

definition pattern_captures :: "'rx problem_pattern \<Rightarrow> nat option list" where
  "pattern_captures p =
    [pp_file p, pp_line p, pp_column p, pp_severity p, pp_code p, pp_message p, pp_from_path p]"

definition pattern_ok :: "'rx matcher_world \<Rightarrow> nat \<Rightarrow> nat \<Rightarrow> 'rx problem_pattern \<Rightarrow> bool" where
  "pattern_ok W count i p \<longleftrightarrow> (pp_loop p \<longrightarrow> 0 < i \<and> i + 1 = count \<and> captures_message p) \<and>
    (\<forall>k. Some k \<in> set (pattern_captures p) \<longrightarrow> k < mw_captures_len W (pp_regex p))"

text \<open>An issue kept after pattern \<open>i\<close> has the message if a pattern up to \<open>i\<close> captures it.\<close>

definition state_ok :: "'rx problem_pattern list \<Rightarrow> captured_issue option list \<Rightarrow> bool" where
  "state_ok ps st \<longleftrightarrow> length st = length ps - 1 \<and>
    (\<forall>i<length st. \<forall>c j. st ! i = Some c \<longrightarrow> j \<le> i \<longrightarrow> captures_message (ps ! j) \<longrightarrow> has_message c)"

definition message_patterns :: "'rx problem_pattern list \<Rightarrow> nat" where
  "message_patterns ps = length (filter (\<lambda>p. captures_message p) ps)"

definition matcher_ok :: "'rx matcher_world \<Rightarrow> 'rx problem_matcher \<Rightarrow> bool" where
  "matcher_ok W m \<longleftrightarrow> pm_patterns m \<noteq> [] \<and> length (pm_patterns m) \<le> MAX_PATTERNS_PER_MATCHER \<and>
    validate_owner (pm_owner m) = Inr () \<and> message_patterns (pm_patterns m) = 1 \<and>
    (\<forall>i<length (pm_patterns m). pattern_ok W (length (pm_patterns m)) i (pm_patterns m ! i)) \<and>
    state_ok (pm_patterns m) (pm_state m)"

lemma assign_captures:
  assumes "foldE (assign_capture n) assigned entries = Inr assigned'"
  shows "set assigned' = set assigned \<union> {name. \<exists>i. (name, Some i) \<in> set entries}"
    "\<And>name i. (name, Some i) \<in> set entries \<Longrightarrow> name \<notin> set assigned \<and> i < n"
proof -
  have "set assigned' = set assigned \<union> {name. \<exists>i. (name, Some i) \<in> set entries} \<and>
    (\<forall>name i. (name, Some i) \<in> set entries \<longrightarrow> name \<notin> set assigned \<and> i < n)"
    using assms
  proof (induction entries arbitrary: assigned)
    case (Cons e entries)
    obtain name index where e: "e = (name, index)" by (cases e)
    from Cons.prems obtain a where a: "assign_capture n assigned e = Inr a"
      "foldE (assign_capture n) a entries = Inr assigned'" by (auto simp: bindE_Inr)
    note IH = Cons.IH [OF a(2)]
    show ?case
    proof (cases index)
      case None
      then show ?thesis using a(1) IH by (simp add: assign_capture_def e)
    next
      case (Some i)
      then have "set a = insert name (set assigned)" "name \<notin> set assigned" "i < n"
        using a(1) by (auto simp: assign_capture_def e result_simps)
      with IH show ?thesis by (auto simp: e Some)
    qed
  qed simp
  then show "set assigned' = set assigned \<union> {name. \<exists>i. (name, Some i) \<in> set entries}"
    "\<And>name i. (name, Some i) \<in> set entries \<Longrightarrow> name \<notin> set assigned \<and> i < n" by blast+
qed

definition compiled_ok ::
  "'rx matcher_world \<Rightarrow> nat \<Rightarrow> string list \<times> 'rx problem_pattern list \<Rightarrow> bool"
where
  "compiled_ok W count state \<longleftrightarrow>
    message_patterns (snd state) = (if ''message'' \<in> set (fst state) then 1 else 0) \<and>
    (\<forall>i<length (snd state). pattern_ok W count i (snd state ! i))"

lemma captures_entries: "pattern_captures (pattern_of regex p) = map snd (capture_entries p)"
  by (simp add: pattern_captures_def pattern_of_def capture_entries_def)

lemma message_entry: "(''message'', Some i) \<in> set (capture_entries p) \<longleftrightarrow> pc_message p = Some i"
  by (auto simp: capture_entries_def)

lemma compile_pattern_ok:
  assumes "compile_pattern W count state (index, p) = Inr state'" "compiled_ok W count state"
    "length (snd state) = index"
  shows "compiled_ok W count state' \<and> length (snd state') = Suc index"
proof -
  obtain assigned patterns where st: "state = (assigned, patterns)" by (cases state)
  from assms(1) obtain regex assigned' where c:
    "foldE (assign_capture (mw_captures_len W regex)) assigned (capture_entries p) = Inr assigned'"
    "\<not> (pc_loop p \<and> (index = 0 \<or> index + 1 \<noteq> count))" "\<not> (pc_loop p \<and> pc_message p = None)"
    "state' = (assigned', patterns @ [pattern_of regex p])"
    unfolding compile_pattern_def st prod.case by (simp only: result_simps sum.inject) blast
  note a = assign_captures [OF c(1)]
  have "k < mw_captures_len W regex" if "Some k \<in> set (pattern_captures (pattern_of regex p))" for k
    using a(2) that by (auto simp: captures_entries)
  then have new: "pattern_ok W count index (pattern_of regex p)"
    unfolding pattern_ok_def using c(2,3) by (simp add: pattern_of_def captures_message_def)
  have "''message'' \<in> set assigned' \<longleftrightarrow> ''message'' \<in> set assigned \<or> pc_message p \<noteq> None"
    using a(1) message_entry by auto
  moreover have "pc_message p \<noteq> None \<Longrightarrow> ''message'' \<notin> set assigned"
    using a(2) message_entry by blast
  ultimately have "message_patterns (patterns @ [pattern_of regex p]) = (if ''message'' \<in> set assigned' then 1 else 0)"
    using assms(2) by (auto simp: compiled_ok_def st message_patterns_def captures_message_def pattern_of_def)
  moreover have "\<forall>i<Suc (length patterns). pattern_ok W count i ((patterns @ [pattern_of regex p]) ! i)"
    using new assms(2,3) by (auto simp: compiled_ok_def st nth_append less_Suc_eq)
  ultimately show ?thesis using assms(3) by (simp add: compiled_ok_def st c(4))
qed

lemma compile_patterns_ok:
  "foldE (compile_pattern W count) state (enumerate n ps) = Inr state' \<Longrightarrow> compiled_ok W count state \<Longrightarrow>
    length (snd state) = n \<Longrightarrow> compiled_ok W count state' \<and> length (snd state') = n + length ps"
proof (induction ps arbitrary: n state)
  case (Cons p ps)
  from Cons.prems(1) obtain s where s: "compile_pattern W count state (n, p) = Inr s"
    "foldE (compile_pattern W count) s (enumerate (Suc n) ps) = Inr state'" by (auto simp: bindE_Inr)
  from compile_pattern_ok [OF s(1) Cons.prems(2,3)] Cons.IH [OF s(2)] show ?case by simp
qed simp

lemma compile_matcher_ok: "compile_matcher W config = Inr m \<Longrightarrow> matcher_ok W m"
proof -
  assume "compile_matcher W config = Inr m"
  then obtain assigned patterns where c:
    "foldE (compile_pattern W (length (mc_pattern config))) ([], []) (enumerate 0 (mc_pattern config)) =
      Inr (assigned, patterns)"
    "validate_owner (mc_owner config) = Inr ()" "mc_pattern config \<noteq> []"
    "length (mc_pattern config) \<le> MAX_PATTERNS_PER_MATCHER" "''message'' \<in> set assigned"
    "m = \<lparr>pm_owner = mc_owner config, pm_default_severity = mc_severity config,
      pm_default_from_path = mc_from_path config, pm_patterns = patterns,
      pm_state = replicate (length patterns - 1) None\<rparr>"
    by (auto simp: compile_matcher_def result_simps)
  have "compiled_ok W (length (mc_pattern config)) (assigned, patterns) \<and>
      length patterns = length (mc_pattern config)"
    using compile_patterns_ok [OF c(1)] by (simp add: compiled_ok_def message_patterns_def)
  with c show ?thesis by (auto simp: matcher_ok_def compiled_ok_def state_ok_def)
qed

lemma compile_matcher_no_panic: "compile_matcher W config \<noteq> Inl AgentPanic"
proof -
  have assign: "foldE (assign_capture n) a es \<noteq> Inl AgentPanic" for n a es
    by (induction es arbitrary: a) (auto simp: assign_capture_def result_simps split: option.splits)
  have "foldE (compile_pattern W n) st es \<noteq> Inl AgentPanic" for n st es
    by (induction es arbitrary: st) (auto simp: compile_pattern_def assign result_simps)
  then show ?thesis
    by (auto simp: compile_matcher_def validate_owner_def validate_severity_def result_simps)
qed

section \<open>Matching keeps the invariant\<close>

definition issue_ok :: "'rx problem_matcher \<Rightarrow> matched_issue option \<Rightarrow> bool" where
  "issue_ok m issue \<longleftrightarrow> (\<forall>i. issue = Some i \<longrightarrow> mi_owner i = pm_owner m \<and> has_message (mi_captured i))"

lemma message_finish [simp]: "has_message (mi_captured (finish_for m c)) = has_message c" "mi_owner (finish_for m c) = pm_owner m"
  by (simp_all add: finish_issue_def has_message_def)

lemma message_merge: "has_message (merge_issue a b) \<longleftrightarrow> has_message a \<or> has_message b"
  by (simp add: merge_issue_def has_message_def split: option.splits)

lemma message_captures: "has_message (from_captures p cs) \<longleftrightarrow> captures_message p"
  by (simp add: from_captures_def capture_def has_message_def captures_message_def)

lemma message_pattern:
  assumes "message_patterns ps = 1"
  shows "\<exists>j<length ps. captures_message (ps ! j)"
proof -
  from assms have "filter (\<lambda>p. captures_message p) ps \<noteq> []" by (auto simp: message_patterns_def)
  then show ?thesis by (auto simp: filter_empty_conv in_set_conv_nth)
qed

lemma state_ok_clear: "length st = length ps - 1 \<Longrightarrow> state_ok ps (replicate (length st) None)"
  by (simp add: state_ok_def)

lemma state_ok_store:
  assumes "state_ok ps st" "\<And>c j. v = Some c \<Longrightarrow> j \<le> i \<Longrightarrow> captures_message (ps ! j) \<Longrightarrow> has_message c"
  shows "state_ok ps (st[i := v])"
proof -
  have "has_message c" if "k < length st" "st[i := v] ! k = Some c" "j \<le> k" "captures_message (ps ! j)" for k c j
    using that assms by (cases "k = i") (simp_all add: state_ok_def)
  then show ?thesis using assms(1) by (simp add: state_ok_def)
qed

text \<open>The issue running at an index has the messages captured before it.\<close>

lemma running_at_ok:
  assumes "state_ok ps st" "index \<le> length st"
  shows "\<exists>r. running_at st index = Inr r \<and>
    (\<forall>c j. r = Some c \<longrightarrow> j < index \<longrightarrow> captures_message (ps ! j) \<longrightarrow> has_message c)"
proof (cases index)
  case (Suc k)
  then have "running_at st index = Inr (st ! k)" "k < length st"
    using assms(2) by (simp_all add: running_at_def index_at_def)
  with assms(1) Suc show ?thesis by (simp add: state_ok_def less_Suc_eq_le)
qed (simp add: running_at_def)

text \<open>What a pattern that matched adds to the issue running before it.\<close>

lemma merged_message:
  assumes "\<And>c j. r = Some c \<Longrightarrow> j < index \<Longrightarrow> captures_message (ps ! j) \<Longrightarrow> has_message c"
    "index = 0 \<or> r \<noteq> None" "j \<le> index" "captures_message (ps ! j)"
  shows "has_message (merge_issue (or_default_issue r) (from_captures (ps ! index) cs))"
  using assms by (cases "j = index"; cases r)
    (auto simp: message_merge message_captures or_default_issue_def le_less)

lemma match_turn_ok:
  assumes st: "state_ok (pm_patterns m) st" and len: "2 \<le> length (pm_patterns m)"
    and index: "index < length (pm_patterns m)" and msg: "message_patterns (pm_patterns m) = 1"
  shows "\<exists>st' issue. match_turn W m line index st = Inr (st', issue) \<and> state_ok (pm_patterns m) st' \<and> issue_ok m issue"
proof -
  let ?ps = "pm_patterns m"
  have lst: "length st = length ?ps - 1" using st by (simp add: state_ok_def)
  have "index \<le> length st" using index lst by simp
  with running_at_ok [OF st] obtain r where r: "running_at st index = Inr r"
    "\<And>c j. r = Some c \<Longrightarrow> j < index \<Longrightarrow> captures_message (?ps ! j) \<Longrightarrow> has_message c" by blast
  have pat: "index_at ?ps index = Inr (?ps ! index)" using index by (simp add: index_at_def)
  show ?thesis
  proof (cases "index \<noteq> 0 \<and> r = None")
    case True
    then show ?thesis using r(1) st by (simp add: match_turn_def issue_ok_def)
  next
    case active: False
    show ?thesis
    proof (cases "mw_captures W (pp_regex (?ps ! index)) line")
      case None
      have "state_ok ?ps (st[index - 1 := None])" "state_ok ?ps (st[index := None])"
        by (rule state_ok_store [OF st]; simp)+
      then show ?thesis using None active r(1) pat index len lst
        by (cases index) (auto simp: match_turn_def store_before_def store_at_def issue_ok_def)
    next
      case (Some cs)
      let ?merged = "merge_issue (or_default_issue r) (from_captures (?ps ! index) cs)"
      have merged: "has_message ?merged" if "j \<le> index" "captures_message (?ps ! j)" for j
        by (rule merged_message [OF r(2) _ that]) (use active in auto)
      show ?thesis
      proof (cases "index + 1 = length ?ps")
        case False
        then have "index < length st" using index lst by simp
        moreover have "state_ok ?ps (st[index := Some ?merged])"
          by (rule state_ok_store [OF st]) (use merged in auto)
        ultimately show ?thesis using Some False active r(1) pat
          by (auto simp: match_turn_def store_at_def issue_ok_def Let_def)
      next
        case last: True
        obtain j where "j < length ?ps" "captures_message (?ps ! j)" using message_pattern [OF msg] by blast
        then have issue: "issue_ok m (Some (finish_for m ?merged))" using merged [of j] last by (simp add: issue_ok_def)
        obtain k where k: "index = Suc k" "k < length st" using last len lst by (cases index) auto
        have clear: "state_ok ?ps (replicate (length st) None)" using lst by (rule state_ok_clear)
        have "state_ok ?ps ((replicate (length st) None)[k := r])"
          by (rule state_ok_store [OF clear]) (use r(2) k in \<open>simp add: less_Suc_eq_le\<close>)
        then show ?thesis using Some last active r(1) pat issue clear k
          by (auto simp: match_turn_def store_before_def store_at_def Let_def)
      qed
    qed
  qed
qed

lemma match_loop_ok:
  assumes "2 \<le> length (pm_patterns m)" "message_patterns (pm_patterns m) = 1"
  shows "n \<le> length (pm_patterns m) \<Longrightarrow> state_ok (pm_patterns m) st \<Longrightarrow>
    \<exists>st' issue. match_loop W m line n st = Inr (st', issue) \<and> state_ok (pm_patterns m) st' \<and> issue_ok m issue"
proof (induction n arbitrary: st)
  case 0
  then show ?case by (simp add: issue_ok_def)
next
  case (Suc n)
  then obtain st' issue where turn: "match_turn W m line n st = Inr (st', issue)"
    "state_ok (pm_patterns m) st'" "issue_ok m issue"
    using match_turn_ok [OF Suc.prems(2) assms(1) _ assms(2), of n W line] by auto
  then show ?case using Suc.IH [OF _ turn(2)] Suc.prems by (cases issue) auto
qed

lemma matches_ok:
  assumes "matcher_ok W m"
  shows "\<exists>m' issue. matches W line m = Inr (m', issue) \<and> matcher_ok W m' \<and> pm_owner m' = pm_owner m \<and> issue_ok m issue"
proof (cases "length (pm_patterns m) = 1")
  case True
  then have "index_at (pm_patterns m) 0 = Inr (pm_patterns m ! 0)" by (simp add: index_at_def)
  moreover have "captures_message (pm_patterns m ! 0)"
    using assms True message_pattern [of "pm_patterns m"] by (auto simp: matcher_ok_def)
  ultimately show ?thesis using assms True
    by (auto simp: matches_def issue_ok_def message_captures)
next
  case False
  then have "2 \<le> length (pm_patterns m)"
    using assms by (cases "pm_patterns m") (auto simp: matcher_ok_def Suc_le_eq)
  from match_loop_ok [OF this, of "length (pm_patterns m)" "pm_state m" W line] assms
  obtain st issue where "match_loop W m line (length (pm_patterns m)) (pm_state m) = Inr (st, issue)"
    "state_ok (pm_patterns m) st" "issue_ok m issue" by (auto simp: matcher_ok_def)
  with assms False show ?thesis by (auto simp: matches_def matcher_ok_def)
qed

lemma reset_ok: "matcher_ok W m \<Longrightarrow> matcher_ok W (reset m)" "lower_owner (reset m) = lower_owner m"
  by (auto simp: matcher_ok_def reset_def state_ok_def)

section \<open>Annotations are well-formed\<close>

definition line_ok :: "32 word \<Rightarrow> bool" where
  "line_ok w \<longleftrightarrow> 0 < w \<and> w \<le> 0x7FFFFFFF"

text \<open>What the API of check annotations asks for; columns are given for a single line only.\<close>

definition columns_ok :: "check_annotation \<Rightarrow> bool" where
  "columns_ok a \<longleftrightarrow>
    (case (ca_start_column a, ca_end_column a) of
      (None, None) \<Rightarrow> True
    | (Some c, Some d) \<Rightarrow> ca_start_line a = ca_end_line a \<and> line_ok c \<and> line_ok d \<and> c \<le> d
    | _ \<Rightarrow> False)"

definition annotation_ok :: "check_annotation \<Rightarrow> bool" where
  "annotation_ok a \<longleftrightarrow> ca_path a \<noteq> [] \<and> length (ca_path a) \<le> MAX_CHECK_ANNOTATION_PATH_BYTES \<and>
    line_ok (ca_start_line a) \<and> line_ok (ca_end_line a) \<and> ca_start_line a \<le> ca_end_line a \<and> columns_ok a \<and>
    ca_message a \<noteq> [] \<and>
    (\<forall>t. ca_title a = Some t \<longrightarrow> length t \<le> MAX_CHECK_ANNOTATION_TITLE_BYTES)"

lemma coordinate_ok: "coordinate v = Some w \<Longrightarrow> line_ok w"
  by (auto simp: coordinate_def line_ok_def bind_eq_Some_conv split: if_splits)

lemma matcher_path_ok: "matcher_path W file from_path workspace = Some p \<Longrightarrow> p \<noteq> [] \<and> length p \<le> 4096"
  by (auto simp: matcher_path_def bind_eq_Some_conv Let_def split: if_splits)

lemma truncate_utf16_nonempty:
  assumes "s \<noteq> []" "2 \<le> n"
  shows "truncate_utf16 n s \<noteq> []"
proof -
  obtain ch chs where u: "utf8_chars s = ch # chs" using assms(1) by (cases s) auto
  then have "ch \<noteq> []" using utf8_chars_nonempty [of s] by auto
  moreover have "char_len_utf16 ch \<le> n" using assms(2) by (simp add: char_len_utf16_def)
  ultimately show ?thesis using assms(1) u by (simp add: truncate_utf16_def)
qed

lemma trim_Nil [simp]: "trim [] = []"
  by (simp add: trim_def trim_start_def trim_end_def)

lemma into_annotation_ok: "into_annotation W workspace issue = Some a \<Longrightarrow> annotation_ok a"
proof -
  assume a: "into_annotation W workspace issue = Some a"
  let ?c = "mi_captured issue"
  from a obtain message where m: "trim message \<noteq> []" and
    fields: "ca_path a = (case matcher_path W (ci_file ?c) (ci_from_path ?c) workspace of
        None \<Rightarrow> ''.github'' | Some p \<Rightarrow> p)"
      "ca_start_line a = (case coordinate (ci_line ?c) of None \<Rightarrow> 1 | Some l \<Rightarrow> l)"
      "ca_end_line a = ca_start_line a" "ca_start_column a = coordinate (ci_column ?c)"
      "ca_end_column a = coordinate (ci_column ?c)"
      "ca_message a = truncate_utf16 MAX_MATCHER_MESSAGE_UTF16_UNITS message"
      "\<exists>t. ca_title a = Some (truncate_utf8 MAX_MATCHER_TITLE_BYTES t)"
    by (force simp: into_annotation_def Let_def bind_eq_Some_conv split: if_split_asm)
  have "ca_path a \<noteq> []" "length (ca_path a) \<le> MAX_CHECK_ANNOTATION_PATH_BYTES"
    using matcher_path_ok [of W "ci_file ?c" "ci_from_path ?c" workspace]
    by (auto simp: fields(1) MAX_CHECK_ANNOTATION_PATH_BYTES_def split: option.split)
  moreover have "line_ok (ca_start_line a)"
    using coordinate_ok [of "ci_line ?c"] by (auto simp: fields(2) line_ok_def split: option.split)
  moreover have "columns_ok a"
    using coordinate_ok [of "ci_column ?c"] by (auto simp: columns_ok_def fields(3-5) split: option.split)
  moreover have "ca_message a \<noteq> []"
    unfolding fields(6) using m by (intro truncate_utf16_nonempty) (auto simp: MAX_MATCHER_MESSAGE_UTF16_UNITS_def)
  moreover have "\<forall>t. ca_title a = Some t \<longrightarrow> length t \<le> MAX_CHECK_ANNOTATION_TITLE_BYTES"
    using fields(7) truncate_utf8_props(1)
    by (auto simp: MAX_MATCHER_TITLE_BYTES_def MAX_CHECK_ANNOTATION_TITLE_BYTES_def)
  ultimately show ?thesis by (simp add: annotation_ok_def fields(3))
qed

section \<open>The invariant of the registry\<close>

definition scope_ok :: "'rx matcher_world \<Rightarrow> 'rx problem_matcher list \<Rightarrow> bool" where
  "scope_ok W ms \<longleftrightarrow> length ms \<le> MAX_MATCHERS_PER_JOB \<and> distinct (map lower_owner ms) \<and> (\<forall>m\<in>set ms. matcher_ok W m)"

definition registry_ok :: "'rx matcher_world \<Rightarrow> 'rx problem_matcher_registry \<Rightarrow> bool" where
  "registry_ok W r \<longleftrightarrow> bt_wf (workspaces r) \<and> bt_wf (matcher_scopes r) \<and>
    (\<forall>scope ms. bt_get (matcher_scopes r) scope = Some ms \<longrightarrow> scope_ok W ms)"

lemma registry_ok_put: "registry_ok W r \<Longrightarrow> scope_ok W ms \<Longrightarrow> registry_ok W (put_matchers scope ms r)"
  by (auto simp: registry_ok_def put_matchers_def bt_wf_insert bt_get_insert split: if_splits)

lemma scope_ok_filter: "scope_ok W ms \<Longrightarrow> scope_ok W (filter P ms)"
  by (auto simp: scope_ok_def distinct_map_filter intro: order_trans [OF length_filter_le])

lemma scope_ok_matchers: "registry_ok W r \<Longrightarrow> scope_ok W (scope_matchers scope r)"
  by (auto simp: registry_ok_def scope_matchers_def scope_ok_def split: option.splits)

lemma compile_config_ok:
  assumes "foldE (compile_config_matcher W) ([], []) configs = Inr (owners, matchers)"
  shows "distinct (map lower_owner matchers)" "\<forall>m\<in>set matchers. matcher_ok W m"
proof -
  let ?P = "\<lambda>s. set (fst s) = lower_owner ` set (snd s) \<and> distinct (map lower_owner (snd s)) \<and>
    (\<forall>m\<in>set (snd s). matcher_ok W m)"
  have "?P (owners, matchers)"
  proof (rule foldE_invariant [where P = ?P, OF assms])
    fix s config s'
    assume "compile_config_matcher W s config = Inr s'" "?P s"
    then show "?P s'"
      by (cases s) (auto simp: compile_config_matcher_def result_simps dest: compile_matcher_ok)
  qed simp
  then show "distinct (map lower_owner matchers)" "\<forall>m\<in>set matchers. matcher_ok W m" by auto
qed

lemma activate_keeps:
  assumes "distinct (map lower_owner matchers)" "\<forall>m\<in>set matchers. matcher_ok W m"
  shows "keeps (registry_ok W) (activate_matchers scope matchers)"
  unfolding gives_def
proof (intro allI impI)
  fix r assume r: "registry_ok W r"
  let ?retained = "filter (\<lambda>m. lower_owner m \<notin> set (bs_collect (map lower_owner matchers))) (scope_matchers scope r)"
  have "scope_ok W ?retained" by (rule scope_ok_filter [OF scope_ok_matchers [OF r]])
  moreover have "lower_owner m \<noteq> lower_owner x" if "m \<in> set matchers" "x \<in> set ?retained" for m x
    using that(2) imageI [OF that(1), of lower_owner] by auto
  ultimately have "length matchers + length ?retained \<le> MAX_MATCHERS_PER_JOB \<Longrightarrow> scope_ok W (matchers @ ?retained)"
    using assms unfolding scope_ok_def by (auto simp del: set_filter)
  moreover have "scope_ok W []" by (simp add: scope_ok_def)
  ultimately show "registry_ok W (snd (activate_matchers scope matchers r)) \<and>
      fst (activate_matchers scope matchers r) \<noteq> Inl AgentPanic \<and>
      (\<forall>x. fst (activate_matchers scope matchers r) = Inr x \<longrightarrow> True)"
    using r by (simp add: activate_matchers_def Let_def bailA_def registry_ok_put)
qed

lemma read_config_no_panic: "read_config W scope path r \<noteq> Inl AgentPanic"
  by (auto simp: read_config_def result_simps Let_def)

lemma add_from_file_keeps: "keeps (registry_ok W) (add_from_file W scope path)"
proof -
  have no_panic: "foldE (compile_config_matcher W) s configs \<noteq> Inl AgentPanic" for s configs
    by (induction configs arbitrary: s)
      (auto simp: compile_config_matcher_def result_simps compile_matcher_no_panic)
  show ?thesis
    unfolding add_from_file_def
    by (intro gives_bind [where Q = "\<lambda>c. c \<noteq> Inl AgentPanic"] gives_bind [where Q = "\<lambda>_. True"]
        gives_bind [where Q = "\<lambda>(owners, matchers). distinct (map lower_owner matchers) \<and> (\<forall>m\<in>set matchers. matcher_ok W m)"]
        gives_rules)
      (auto simp: read_config_no_panic no_panic dest: compile_config_ok
        intro!: gives_rules activate_keeps gives_bind [where Q = "\<lambda>(owners, matchers). distinct (map lower_owner matchers) \<and> (\<forall>m\<in>set matchers. matcher_ok W m)"])
qed

lemma retain_ok: "registry_ok W r \<Longrightarrow> registry_ok W (retain_matchers scope P r)"
  by (auto simp: retain_matchers_def registry_ok_def intro!: registry_ok_put [unfolded registry_ok_def]
      scope_ok_filter split: option.split)

lemma remove_owner_keeps: "keeps (registry_ok W) (remove_owner scope owner)"
  unfolding remove_owner_def
  by (intro gives_bind [where Q = "\<lambda>_. True"] gives_rules) (auto simp: validate_owner_def result_simps intro: retain_ok)

lemma remove_from_file_keeps: "keeps (registry_ok W) (remove_from_file W scope path)"
proof -
  have "foldE collect_owner s configs \<noteq> Inl AgentPanic" for s configs
    by (induction configs arbitrary: s) (auto simp: collect_owner_def validate_owner_def result_simps)
  then show ?thesis
    unfolding remove_from_file_def
    by (intro gives_bind [where Q = "\<lambda>c. c \<noteq> Inl AgentPanic"] gives_bind [where Q = "\<lambda>_. True"] gives_rules)
      (auto simp: read_config_no_panic intro!: gives_rules gives_bind [where Q = "\<lambda>_. True"] retain_ok)
qed

lemma reset_others_ok: "scope_ok W ms \<Longrightarrow> scope_ok W (reset_others index ms)"
proof -
  assume ok: "scope_ok W ms"
  have "map lower_owner (reset_others index ms) = map lower_owner ms"
    by (rule nth_equalityI) (auto simp: reset_others_def reset_ok nth_enumerate_eq)
  moreover have "\<forall>m\<in>set (reset_others index ms). matcher_ok W m"
    using ok by (auto simp: reset_others_def scope_ok_def reset_ok in_set_enumerate_eq split: if_splits)
  ultimately show ?thesis using ok by (simp add: scope_ok_def reset_others_def)
qed

lemma scope_ok_update:
  assumes "scope_ok W ms" "matcher_ok W m" "i < length ms" "pm_owner m = pm_owner (ms ! i)"
  shows "scope_ok W (ms[i := m])"
proof -
  have "map lower_owner (ms[i := m]) = map lower_owner ms"
    using assms(3,4) by (intro nth_equalityI) (auto simp: nth_list_update)
  moreover have "\<forall>x\<in>set (ms[i := m]). matcher_ok W x"
    using assms(1,2) set_update_subset_insert [of ms i m] by (auto simp: scope_ok_def)
  ultimately show ?thesis using assms(1) by (simp add: scope_ok_def)
qed

lemma scan_loop_ok:
  "scope_ok W ms \<Longrightarrow> index + n = length ms \<Longrightarrow>
    \<exists>ms' a. scan_loop W workspace line n index ms = Inr (ms', a) \<and> scope_ok W ms' \<and>
      (\<forall>x. a = Some x \<longrightarrow> annotation_ok x)"
proof (induction n arbitrary: index ms)
  case (Suc n)
  then have i: "index < length ms" "index_at ms index = Inr (ms ! index)" by (auto simp: index_at_def)
  then have "matcher_ok W (ms ! index)" using Suc.prems(1) by (auto simp: scope_ok_def)
  from matches_ok [OF this, of line] obtain m issue where m: "matches W line (ms ! index) = Inr (m, issue)"
    "matcher_ok W m" "pm_owner m = pm_owner (ms ! index)" by blast
  have ok: "scope_ok W (ms[index := m])" by (rule scope_ok_update [OF Suc.prems(1) m(2) i(1) m(3)])
  show ?case
  proof (cases issue)
    case None
    then show ?thesis using Suc.IH [OF ok, of "Suc index"] Suc.prems(2) i(2) m(1) by simp
  next
    case (Some x)
    let ?ms = "reset_others index (ms[index := m])"
    have "scope_ok W ?ms" "length ?ms = length ms" using reset_others_ok [OF ok] by (auto simp: reset_others_def)
    then show ?thesis using Some Suc.IH [of ?ms "Suc index"] Suc.prems(2) i(2) m(1)
      by (cases "into_annotation W workspace x") (auto dest: into_annotation_ok)
  qed
qed simp

lemma scan_gives: "gives (registry_ok W) (scan W scope line) (\<lambda>r. \<forall>a. r = Some a \<longrightarrow> annotation_ok a)"
  unfolding gives_def
proof (intro allI impI)
  fix r assume r: "registry_ok W r"
  show "registry_ok W (snd (scan W scope line r)) \<and> fst (scan W scope line r) \<noteq> Inl AgentPanic \<and>
    (\<forall>x. fst (scan W scope line r) = Inr x \<longrightarrow> (\<forall>a. x = Some a \<longrightarrow> annotation_ok a))"
  proof (cases "bt_get (matcher_scopes r) scope")
    case None
    then show ?thesis using r by (simp add: scan_def)
  next
    case (Some ms)
    then have "scope_ok W ms" using r by (auto simp: registry_ok_def)
    from scan_loop_ok [OF this, of 0 "length ms" "scope_workspace scope r" "strip_ansi_color line"]
    obtain ms' a where "scan_loop W (scope_workspace scope r) (strip_ansi_color line) (length ms) 0 ms = Inr (ms', a)"
      "scope_ok W ms'" "\<forall>x. a = Some x \<longrightarrow> annotation_ok x" by auto
    then show ?thesis using Some r by (auto simp: scan_def intro: registry_ok_put)
  qed
qed

lemma reset_scope_ok: "registry_ok W r \<Longrightarrow> registry_ok W (reset_scope scope r)"
proof (cases "bt_get (matcher_scopes r) scope")
  case (Some ms)
  assume r: "registry_ok W r"
  with Some have "scope_ok W (map reset ms)"
    by (auto simp: registry_ok_def scope_ok_def reset_ok comp_def)
  then show ?thesis using Some registry_ok_put [OF r] by (simp add: reset_scope_def)
qed (simp add: reset_scope_def)

lemma register_workspace_ok: "registry_ok W r \<Longrightarrow> registry_ok W (register_workspace scope workspace r)"
  by (simp add: registry_ok_def register_workspace_def bt_wf_insert)

lemma new_registry_ok: "registry_ok W (new_registry workspace root)"
  by (simp add: registry_ok_def new_registry_def)

section \<open>Any sequence of calls\<close>

datatype registry_op =
    RegisterWorkspace string string
  | AddFromFile string string
  | RemoveOwner string string
  | RemoveFromFile string string
  | ScanLine string string
  | ResetScope string

fun registry_act ::
  "'rx matcher_world \<Rightarrow> registry_op \<Rightarrow> ('rx problem_matcher_registry, check_annotation option) act"
where
  "registry_act W (RegisterWorkspace scope w) = bindA (updateA (register_workspace scope w)) (\<lambda>_. retA None)"
| "registry_act W (AddFromFile scope path) = bindA (add_from_file W scope path) (\<lambda>_. retA None)"
| "registry_act W (RemoveOwner scope owner) = bindA (remove_owner scope owner) (\<lambda>_. retA None)"
| "registry_act W (RemoveFromFile scope path) = bindA (remove_from_file W scope path) (\<lambda>_. retA None)"
| "registry_act W (ScanLine scope line) = scan W scope line"
| "registry_act W (ResetScope scope) = bindA (updateA (reset_scope scope)) (\<lambda>_. retA None)"

lemmas registry_keeps = add_from_file_keeps remove_owner_keeps remove_from_file_keeps

interpretation registry: guarded_object "registry_act W" "registry_ok W" annotation_ok
proof
  fix op
  show "gives (registry_ok W) (registry_act W op) (\<lambda>r. \<forall>a. r = Some a \<longrightarrow> annotation_ok a)"
    by (cases op)
      (auto intro!: gives_bind [where Q = "\<lambda>_. True"] gives_rules registry_keeps scan_gives
        intro: reset_scope_ok register_workspace_ok)
qed

section \<open>Multi-line matchers against a specification\<close>

definition line_issue :: "'rx matcher_world \<Rightarrow> 'rx problem_pattern \<Rightarrow> string \<Rightarrow> captured_issue option" where
  "line_issue W p line = map_option (from_captures p) (mw_captures W (pp_regex p) line)"

text \<open>
  The newest lines, the newest first, match the patterns up to \<open>i\<close> in order: the captures of
  all of them, an earlier capture of a field before a later one.
\<close>

fun window :: "'rx matcher_world \<Rightarrow> 'rx problem_pattern list \<Rightarrow> nat \<Rightarrow> string list \<Rightarrow> captured_issue option" where
  "window W ps i [] = None"
| "window W ps 0 (l # ls) = map_option (merge_issue default_issue) (line_issue W (ps ! 0) l)"
| "window W ps (Suc i) (l # ls) =
    Option.bind (window W ps i ls) (\<lambda>c. map_option (merge_issue c) (line_issue W (ps ! Suc i) l))"

text \<open>
  The abstract state: the lines since the last report, and what a looping last pattern
  continues with right after one.
\<close>

type_synonym window_state = "captured_issue option \<times> string list"

definition before_last :: "'rx matcher_world \<Rightarrow> 'rx problem_pattern list \<Rightarrow> window_state \<Rightarrow> captured_issue option" where
  "before_last W ps a = (if snd a = [] then fst a else window W ps (length ps - 2) (snd a))"

definition window_step ::
  "'rx matcher_world \<Rightarrow> 'rx problem_matcher \<Rightarrow> string \<Rightarrow> window_state \<Rightarrow> window_state \<times> matched_issue option"
where
  "window_step W m line a =
    (let ps = pm_patterns m in
     case (before_last W ps a, line_issue W (last ps) line) of
       (Some c, Some d) \<Rightarrow> ((if pp_loop (last ps) then Some c else None, []), Some (finish_for m (merge_issue c d)))
     | _ \<Rightarrow> ((None, line # snd a), None))"

fun window_run ::
  "'rx matcher_world \<Rightarrow> 'rx problem_matcher \<Rightarrow> window_state \<Rightarrow> string list \<Rightarrow> matched_issue option list"
where
  "window_run W m a [] = []"
| "window_run W m a (l # ls) = (case window_step W m l a of (a', issue) \<Rightarrow> issue # window_run W m a' ls)"

text \<open>The code on the same lines.\<close>

fun matches_lines ::
  "'rx matcher_world \<Rightarrow> 'rx problem_matcher \<Rightarrow> string list \<Rightarrow> agent_failure + matched_issue option list"
where
  "matches_lines W m [] = Inr []"
| "matches_lines W m (l # ls) =
    bindE (matches W l m) (\<lambda>(m', issue). bindE (matches_lines W m' ls) (\<lambda>issues. Inr (issue # issues)))"

definition window_states :: "'rx matcher_world \<Rightarrow> 'rx problem_pattern list \<Rightarrow> window_state \<Rightarrow> captured_issue option list" where
  "window_states W ps a =
    map (\<lambda>i. if snd a = [] then (if i + 2 = length ps then fst a else None) else window W ps i (snd a))
      [0..<length ps - 1]"

lemma match_loop_two:
  assumes "pm_patterns m = [p, q]"
  shows "match_loop W m line 2 [r] =
    Inr (case (r, line_issue W q line) of
        (Some c, Some d) \<Rightarrow> ([if pp_loop q then r else None], Some (finish_for m (merge_issue c d)))
      | _ \<Rightarrow> ([map_option (merge_issue default_issue) (line_issue W p line)], None))"
  using assms
  by (cases r; cases "mw_captures W (pp_regex p) line"; cases "mw_captures W (pp_regex q) line")
    (simp_all add: eval_nat_numeral match_turn_def running_at_def index_at_def store_at_def store_before_def
      line_issue_def or_default_issue_def)

lemma match_loop_three:
  assumes "pm_patterns m = [p, q, s]"
  shows "match_loop W m line 3 [r1, r2] =
    Inr (case (r2, line_issue W s line) of
        (Some c, Some d) \<Rightarrow> ([None, if pp_loop s then r2 else None], Some (finish_for m (merge_issue c d)))
      | _ \<Rightarrow> ([map_option (merge_issue default_issue) (line_issue W p line),
          Option.bind r1 (\<lambda>c. map_option (merge_issue c) (line_issue W q line))], None))"
  using assms
  by (cases r1; cases r2; cases "mw_captures W (pp_regex p) line"; cases "mw_captures W (pp_regex q) line";
      cases "mw_captures W (pp_regex s) line")
    (simp_all add: eval_nat_numeral match_turn_def running_at_def index_at_def store_at_def store_before_def
      line_issue_def or_default_issue_def)

lemma window_step_two:
  assumes "pm_patterns m = [p, q]" "pm_state m = window_states W [p, q] a"
  shows "matches W line m = Inr (m\<lparr>pm_state := window_states W [p, q] (fst (window_step W m line a))\<rparr>,
    snd (window_step W m line a))"
proof -
  have st: "pm_state m = [before_last W [p, q] a]"
    by (simp add: assms(2) window_states_def before_last_def)
  show ?thesis
    using assms(1) by (cases "before_last W [p, q] a"; cases "line_issue W q line")
      (simp_all add: matches_def st match_loop_two [OF assms(1)] window_step_def window_states_def
        numeral_2_eq_2 [symmetric])
qed

lemma window_step_three:
  assumes "pm_patterns m = [p, q, s]" "pm_state m = window_states W [p, q, s] a"
  shows "matches W line m = Inr (m\<lparr>pm_state := window_states W [p, q, s] (fst (window_step W m line a))\<rparr>,
    snd (window_step W m line a))"
proof -
  let ?first = "if snd a = [] then None else window W [p, q, s] 0 (snd a)"
  have st: "pm_state m = [?first, before_last W [p, q, s] a]"
    by (simp add: assms(2) window_states_def before_last_def upt_rec)
  have second: "window W [p, q, s] (Suc 0) (line # snd a) =
      Option.bind ?first (\<lambda>c. map_option (merge_issue c) (line_issue W q line))"
    by (cases "snd a") auto
  show ?thesis
    using assms(1) by (cases "before_last W [p, q, s] a"; cases "line_issue W s line")
      (simp_all add: matches_def st match_loop_three [OF assms(1)] window_step_def window_states_def
        numeral_3_eq_3 [symmetric] upt_rec second del: window.simps(3))
qed

lemma window_refines:
  assumes "length (pm_patterns m) = 2 \<or> length (pm_patterns m) = 3"
    "pm_state m = window_states W (pm_patterns m) a"
  shows "matches W line m =
    Inr (m\<lparr>pm_state := window_states W (pm_patterns m) (fst (window_step W m line a))\<rparr>, snd (window_step W m line a))"
  using assms window_step_two [of m _ _ W a line] window_step_three [of m _ _ _ W a line]
  by (auto simp: numeral_2_eq_2 numeral_3_eq_3 length_Suc_conv)

lemma window_step_patterns:
  "pm_patterns m' = pm_patterns m \<Longrightarrow> pm_owner m' = pm_owner m \<Longrightarrow> pm_default_severity m' = pm_default_severity m \<Longrightarrow>
    pm_default_from_path m' = pm_default_from_path m \<Longrightarrow> window_step W m' line a = window_step W m line a"
  by (simp add: window_step_def Let_def split: option.split)

lemma window_run_patterns: "window_run W (m\<lparr>pm_state := st\<rparr>) a ls = window_run W m a ls"
  by (induction ls arbitrary: a) (simp_all add: window_step_patterns [of "m\<lparr>pm_state := st\<rparr>" m])

lemma matches_lines_refines:
  assumes "length (pm_patterns m) = 2 \<or> length (pm_patterns m) = 3"
  shows "pm_state m = window_states W (pm_patterns m) a \<Longrightarrow> matches_lines W m ls = Inr (window_run W m a ls)"
  using assms
proof (induction ls arbitrary: m a)
  case (Cons l ls)
  obtain a' issue where step: "window_step W m l a = (a', issue)" by (cases "window_step W m l a")
  let ?m = "m\<lparr>pm_state := window_states W (pm_patterns m) a'\<rparr>"
  have "matches W l m = Inr (?m, issue)" using window_refines [OF Cons.prems(2,1), of l] by (simp add: step)
  moreover have "matches_lines W ?m ls = Inr (window_run W m a' ls)"
    using Cons.IH [of ?m a'] Cons.prems(2) by (simp add: window_run_patterns)
  ultimately show ?case by (simp add: step)
qed simp


definition sample_matcher_world :: "string matcher_world" where
  "sample_matcher_world = \<lparr>mw_canonicalize = Some, mw_metadata = (\<lambda>_. Some (True, 10)), mw_read = (\<lambda>_. Some (Some [])),
    mw_parse = (\<lambda>_. None), mw_regex = Some, mw_captures_len = (\<lambda>_. 2),
    mw_captures = (\<lambda>rx line. map_option (\<lambda>rest. [Some line, Some rest]) (strip_prefix line rx))\<rparr>"

definition sample_pattern :: "string \<Rightarrow> string problem_pattern" where
  "sample_pattern prefix = \<lparr>pp_regex = prefix, pp_file = None, pp_line = None, pp_column = None, pp_severity = None,
    pp_code = None, pp_message = None, pp_from_path = None, pp_loop = False\<rparr>"

definition sample_matcher :: "string problem_matcher" where
  "sample_matcher = \<lparr>pm_owner = ''lint'', pm_default_severity = [], pm_default_from_path = [],
    pm_patterns = [(sample_pattern ''file '')\<lparr>pp_file := Some 1\<rparr>,
      (sample_pattern ''error '')\<lparr>pp_message := Some 1, pp_loop := True\<rparr>],
    pm_state = [None]\<rparr>"

lemma sample_matcher_ok: "matcher_ok sample_matcher_world sample_matcher"
  by (auto simp: matcher_ok_def sample_matcher_def sample_matcher_world_def sample_pattern_def validate_owner_def
      MAX_PATTERNS_PER_MATCHER_def MAX_MATCHER_OWNER_BYTES_def contains_any_def ensure_def message_patterns_def
      captures_message_def pattern_ok_def pattern_captures_def state_ok_def less_Suc_eq)



definition sample_config :: problem_matcher_config where
  "sample_config = \<lparr>mc_owner = ''lint'', mc_severity = ''warning'', mc_from_path = [], mc_pattern =
    [\<lparr>pc_regexp = ''error '', pc_file = None, pc_line = None, pc_column = None, pc_severity = None, pc_code = None,
      pc_message = Some 1, pc_from_path = None, pc_loop = False\<rparr>]\<rparr>"

definition sample_registry_world :: "string matcher_world" where
  "sample_registry_world = sample_matcher_world\<lparr>mw_parse := (\<lambda>_. Some \<lparr>problem_matchers = [sample_config]\<rparr>)\<rparr>"

lemma sample_read_config:
  "read_config sample_registry_world ''0/job'' ''m.json'' (new_registry ''/w'' ''/w'') =
    Inr \<lparr>problem_matchers = [sample_config]\<rparr>"
proof -
  have "path_prefix ''/w/m.json'' ''/w''" "path_join ''/w'' ''m.json'' = ''/w/m.json''" "\<not> is_absolute ''m.json''" by code_simp+
  then show ?thesis
    by (simp add: read_config_def new_registry_def scope_workspace_def sample_registry_world_def
        sample_matcher_world_def contains_any_def MAX_MATCHER_CONFIG_BYTES_def result_simps ok_or_def ensure_def)
qed

lemma sample_compiled:
  "compile_config_matcher sample_registry_world ([], []) sample_config =
    Inr ([''lint''], [\<lparr>pm_owner = ''lint'', pm_default_severity = ''warning'', pm_default_from_path = [],
      pm_patterns = [(sample_pattern ''error '')\<lparr>pp_message := Some 1\<rparr>], pm_state = []\<rparr>])"
  by (simp add: compile_config_matcher_def compile_matcher_def validate_owner_def validate_severity_def sample_config_def
      ensure_def MAX_MATCHER_OWNER_BYTES_def MAX_PATTERNS_PER_MATCHER_def contains_any_def to_ascii_lowercase_def
      ascii_lower_def is_ascii_uppercase_def compile_pattern_def MAX_MATCHER_REGEX_BYTES_def ok_or_def
      sample_registry_world_def sample_matcher_world_def capture_entries_def assign_capture_def pattern_of_def
      sample_pattern_def)


end
