(* ===== verification/Workflow_Commands.thy ===== *)
theory Workflow_Commands
  imports Problem_Matcher "HOL-Library.Multiset"
begin

text \<open>
  Workflow commands (\<open>gitzero-agent/src/executor.rs\<close>, \<open>WorkflowCommandProcessor\<close>): the lines a
  step prints to mask values, to stop commands, to annotate files and to set outputs, and
  the masking of what a job prints.
\<close>

section \<open>Limits\<close>

definition MAX_LOG_CHUNK_BYTES :: nat where
  "MAX_LOG_CHUNK_BYTES = 32 * 1024"

definition MAX_DYNAMIC_MASKS_PER_JOB :: nat where
  "MAX_DYNAMIC_MASKS_PER_JOB = 1024"

definition MAX_DYNAMIC_MASK_BYTES_PER_JOB :: nat where
  "MAX_DYNAMIC_MASK_BYTES_PER_JOB = 1024 * 1024"

definition MAX_LEGACY_COMMAND_VALUES_PER_STEP :: nat where
  "MAX_LEGACY_COMMAND_VALUES_PER_STEP = 1024"

definition MAX_LEGACY_COMMAND_BYTES_PER_STEP :: nat where
  "MAX_LEGACY_COMMAND_BYTES_PER_STEP = 1024 * 1024"

definition MAX_ERROR_ANNOTATIONS_PER_STEP :: nat where
  "MAX_ERROR_ANNOTATIONS_PER_STEP = 10"

definition MAX_WARNING_ANNOTATIONS_PER_STEP :: nat where
  "MAX_WARNING_ANNOTATIONS_PER_STEP = 10"

definition MAX_NOTICE_ANNOTATIONS_PER_STEP :: nat where
  "MAX_NOTICE_ANNOTATIONS_PER_STEP = 10"

text \<open>\<open>usize::saturating_add\<close>.\<close>

definition saturating_add :: "nat \<Rightarrow> nat \<Rightarrow> nat" where
  "saturating_add a b = min (a + b) (2 ^ 64 - 1)"

section \<open>Parsing\<close>

definition workflow_command_scope :: "string \<Rightarrow> string" where
  "workflow_command_scope step_id =
    (case split_char (CHR ''/'') step_id of plan # job # _ \<Rightarrow> plan @ ''/'' @ job | _ \<Rightarrow> step_id)"

definition log_stream_key :: "log_stream \<Rightarrow> nat" where
  "log_stream_key stream = (case stream of Stdout \<Rightarrow> 0 | Stderr \<Rightarrow> 1 | System \<Rightarrow> 2)"

definition strip_prefix_ignore_ascii_case :: "string \<Rightarrow> string \<Rightarrow> string option" where
  "strip_prefix_ignore_ascii_case value prefix =
    (if length prefix \<le> length value \<and> is_char_boundary value (length prefix) \<and>
        eq_ignore_ascii_case (take (length prefix) value) prefix
     then Some (drop (length prefix) value) else None)"

definition decode_workflow_command_data :: "string \<Rightarrow> string" where
  "decode_workflow_command_data value =
    replace_str ''%25'' ''%'' (replace_str ''%0a'' [newline] (replace_str ''%0A'' [newline]
      (replace_str ''%0d'' [carriage_return] (replace_str ''%0D'' [carriage_return] value))))"

definition decode_workflow_command_property :: "string \<Rightarrow> string" where
  "decode_workflow_command_property value =
    replace_str ''%25'' ''%'' (replace_str ''%2c'' '','' (replace_str ''%2C'' '',''
      (replace_str ''%3a'' '':'' (replace_str ''%3A'' '':''
        (replace_str ''%0a'' [newline] (replace_str ''%0A'' [newline]
          (replace_str ''%0d'' [carriage_return] (replace_str ''%0D'' [carriage_return] value))))))))"

text \<open>The first property with a name, in the loops over \<open>key=value\<close> pairs.\<close>

definition find_property :: "string \<Rightarrow> string \<Rightarrow> string option" where
  "find_property name property_text =
    (case filter (\<lambda>(key, value). eq_ignore_ascii_case (trim key) name)
        (List.map_filter (split_once (CHR ''='')) (split_char (CHR '','') property_text)) of
      [] \<Rightarrow> None | (key, value) # _ \<Rightarrow> Some (decode_workflow_command_property value))"

datatype problem_matcher_removal = RemovalOwner string | RemovalFile string

definition is_problem_matcher_workflow_command :: "string \<Rightarrow> bool" where
  "is_problem_matcher_workflow_command line \<longleftrightarrow>
    strip_prefix_ignore_ascii_case line ''::add-matcher::'' \<noteq> None \<or>
    strip_prefix_ignore_ascii_case line ''::remove-matcher::'' \<noteq> None \<or>
    strip_prefix_ignore_ascii_case line ''::remove-matcher '' \<noteq> None"

definition removal_of :: "string \<Rightarrow> string \<Rightarrow> agent_failure + problem_matcher_removal option" where
  "removal_of property_text encoded =
    (let owner = (case find_property ''owner'' property_text of
           None \<Rightarrow> None | Some name \<Rightarrow> if name = [] then None else Some name);
         data = decode_workflow_command_data encoded in
     case owner of
       Some name \<Rightarrow>
         if data = [] then Inr (Some (RemovalOwner name))
         else Inl (Bail ''remove-matcher command cannot specify both owner and file'')
     | None \<Rightarrow>
         if data \<noteq> [] then Inr (Some (RemovalFile data))
         else Inl (Bail ''remove-matcher command must specify an owner or file''))"

definition parse_remove_matcher_command :: "string \<Rightarrow> agent_failure + problem_matcher_removal option" where
  "parse_remove_matcher_command line =
    (case strip_prefix_ignore_ascii_case line ''::remove-matcher'' of
      None \<Rightarrow> Inr None
    | Some body \<Rightarrow>
        (case strip_prefix body ''::'' of
          Some data \<Rightarrow> removal_of [] data
        | None \<Rightarrow>
            (case strip_prefix body '' '' of
              None \<Rightarrow> Inr None
            | Some properties \<Rightarrow>
                bindE (ok_or (split_once_str ''::'' properties)
                  (Bail ''remove-matcher command is missing its data delimiter'')) (\<lambda>(property_text, data).
                removal_of property_text data))))"

definition is_annotation_workflow_command :: "string \<Rightarrow> bool" where
  "is_annotation_workflow_command line =
    (case strip_prefix line ''::'' of
      None \<Rightarrow> False
    | Some body \<Rightarrow>
        let header = (case split_once_str ''::'' body of None \<Rightarrow> body | Some (h, _) \<Rightarrow> h);
            command = (case split_once (CHR '' '') header of None \<Rightarrow> header | Some (c, _) \<Rightarrow> c) in
        to_ascii_lowercase command \<in> {''notice'', ''warning'', ''error''})"

definition annotation_property ::
  "(string \<times> string) list \<Rightarrow> string \<Rightarrow> agent_failure + (string \<times> string) list"
where
  "annotation_property properties p =
    bindE (ok_or (split_once (CHR ''='') p)
      (Bail ''annotation workflow command contains a property without a value'')) (\<lambda>(key, value).
    Inr (bt_insert (to_ascii_lowercase (trim key)) (decode_workflow_command_property value) properties))"

definition annotation_coordinate :: "(string \<times> string) list \<Rightarrow> string \<Rightarrow> agent_failure + 32 word option" where
  "annotation_coordinate properties name =
    (case bt_get properties name of
      None \<Rightarrow> Inr None
    | Some value \<Rightarrow>
        bindE (ok_or (parse_u32 value)
          (Bail (''annotation workflow command property '' @ [CHR 0x27] @ name @ [CHR 0x27] @ '' is not an integer'')))
          (\<lambda>coordinate.
        if coordinate = 0 \<or> coordinate > 0x7FFFFFFF then
          Inl (Bail (''annotation workflow command property '' @ [CHR 0x27] @ name @ [CHR 0x27] @
            '' is outside GitHub'' @ [CHR 0x27] @ ''s range''))
        else Inr (Some coordinate)))"

text \<open>The loop over the components of a path, with its break.\<close>

fun normal_components :: "string list \<Rightarrow> component list \<Rightarrow> agent_failure + string list" where
  "normal_components acc [] = Inr acc"
| "normal_components acc (CurDir # cs) = normal_components acc cs"
| "normal_components acc (NormalComponent c # cs) =
    (if utf8_ok c then normal_components (acc @ [c]) cs
     else Inl (Bail ''annotation workflow command path is not UTF-8''))"
| "normal_components acc (ParentDir # cs) = Inr [''.github'']"
| "normal_components acc (RootDir # cs) = Inr [''.github'']"

definition normalize_annotation_path :: "string \<Rightarrow> string option \<Rightarrow> agent_failure + string" where
  "normalize_annotation_path raw workspace =
    (let value = replace_char (CHR 0x5C) (CHR ''/'') raw;
         relative =
           (if is_absolute value then
              (case Option.bind workspace (strip_path_prefix value) of None \<Rightarrow> ''.github'' | Some r \<Rightarrow> r)
            else if 1 < length value \<and> value ! 1 = CHR '':'' then ''.github'' else value) in
     bindE (normal_components [] (path_components relative)) (\<lambda>normalized.
     let path = (if normalized = [] then ''.github'' else join_with ''/'' normalized) in
     if length path > MAX_CHECK_ANNOTATION_PATH_BYTES \<or> contains_any path [CHR 0x00, carriage_return, newline] then
       Inl (Bail ''annotation workflow command contains an invalid file path'')
     else Inr path))"

definition annotation_columns ::
  "32 word \<Rightarrow> 32 word \<Rightarrow> 32 word option \<Rightarrow> 32 word option \<Rightarrow> agent_failure + 32 word option \<times> 32 word option"
where
  "annotation_columns start_line end_line start_column end_column =
    (if start_line = end_line then
       (case (start_column, end_column) of
         (None, None) \<Rightarrow> Inr (None, None)
       | (Some s, None) \<Rightarrow> Inr (Some s, Some s)
       | (None, Some e) \<Rightarrow> Inr (Some e, Some e)
       | (Some s, Some e) \<Rightarrow>
           if e \<ge> s then Inr (Some s, Some e)
           else Inl (Bail ''annotation workflow command endColumn precedes col''))
     else Inr (None, None))"

definition annotation_level_of :: "string \<Rightarrow> check_annotation_level option" where
  "annotation_level_of command =
    (let level = to_ascii_lowercase command in
     if level = ''notice'' then Some NoticeLevel
     else if level = ''warning'' then Some WarningLevel
     else if level = ''error'' then Some FailureLevel else None)"

text \<open>The checks of the message, the path, the lines, the columns and the title, in their order.\<close>

definition build_annotation ::
  "check_annotation_level \<Rightarrow> (string \<times> string) list \<Rightarrow> string \<Rightarrow> string option \<Rightarrow> agent_failure + check_annotation"
where
  "build_annotation level properties data workspace =
    (let message = decode_workflow_command_data data in
     bindE (ensure (\<not> (message = [] \<or> length message > MAX_CHECK_ANNOTATION_MESSAGE_BYTES \<or>
         contains_char message (CHR 0x00)))
       (Bail ''annotation workflow command contains an invalid message'')) (\<lambda>_.
     bindE (normalize_annotation_path
       (case bt_get properties ''file'' of None \<Rightarrow> ''.github'' | Some f \<Rightarrow> f) workspace) (\<lambda>path.
     bindE (annotation_coordinate properties ''line'') (\<lambda>line.
     let start_line = (case line of None \<Rightarrow> 1 | Some l \<Rightarrow> l) in
     bindE (annotation_coordinate properties ''endline'') (\<lambda>end_line.
     let end_line = (case end_line of None \<Rightarrow> start_line | Some l \<Rightarrow> l) in
     bindE (ensure (\<not> end_line < start_line)
       (Bail ''annotation workflow command endLine precedes line'')) (\<lambda>_.
     bindE (annotation_coordinate properties ''col'') (\<lambda>start_column.
     bindE (annotation_coordinate properties ''endcolumn'') (\<lambda>end_column.
     bindE (annotation_columns start_line end_line start_column end_column) (\<lambda>(start_column, end_column).
     let title = (case bt_get properties ''title'' of None \<Rightarrow> None | Some t \<Rightarrow> if t = [] then None else Some t) in
     bindE (ensure (\<not> (case title of None \<Rightarrow> False
         | Some t \<Rightarrow> length t > MAX_CHECK_ANNOTATION_TITLE_BYTES \<or> contains_char t (CHR 0x00)))
       (Bail ''annotation workflow command contains an invalid title'')) (\<lambda>_.
     Inr \<lparr>ca_path = path, ca_start_line = start_line, ca_end_line = end_line, ca_start_column = start_column,
       ca_end_column = end_column, ca_annotation_level = level, ca_message = message, ca_title = title\<rparr>))))))))))"

definition parse_workflow_annotation ::
  "string \<Rightarrow> string option \<Rightarrow> agent_failure + check_annotation option"
where
  "parse_workflow_annotation line workspace =
    (if \<not> is_annotation_workflow_command line then Inr None
     else
       bindE (ok_or (strip_prefix line ''::'') AgentPanic) (\<lambda>body.
       bindE (ok_or (split_once_str ''::'' body)
         (Bail ''annotation workflow command is missing its data delimiter'')) (\<lambda>(header, data).
       let (command, property_text) = (case split_once (CHR '' '') header of None \<Rightarrow> (header, []) | Some p \<Rightarrow> p) in
       (case annotation_level_of command of
         None \<Rightarrow> Inr None
       | Some level \<Rightarrow>
           bindE (foldE annotation_property []
             (filter (\<lambda>p. p \<noteq> []) (split_char (CHR '','') property_text))) (\<lambda>properties.
           bindE (build_annotation level properties data workspace) (\<lambda>a. Inr (Some a)))))))"

definition level_text :: "check_annotation_level \<Rightarrow> string" where
  "level_text level = (case level of NoticeLevel \<Rightarrow> ''notice'' | WarningLevel \<Rightarrow> ''warning'' | FailureLevel \<Rightarrow> ''error'')"

definition annotation_log_line :: "check_annotation \<Rightarrow> string" where
  "annotation_log_line a =
    (case ca_title a of
      Some title \<Rightarrow> level_text (ca_annotation_level a) @ '': '' @ title @ '': '' @ ca_message a
    | None \<Rightarrow> level_text (ca_annotation_level a) @ '': '' @ ca_message a)"

definition truncate_utf8_bytes :: "string \<Rightarrow> nat \<Rightarrow> string" where
  "truncate_utf8_bytes value maximum = truncate_utf8 maximum value"

definition bound_masked_annotation :: "check_annotation \<Rightarrow> check_annotation" where
  "bound_masked_annotation a =
    a\<lparr>ca_path := (if length (ca_path a) > MAX_CHECK_ANNOTATION_PATH_BYTES then ''.github'' else ca_path a),
      ca_message := truncate_utf8_bytes (ca_message a) MAX_CHECK_ANNOTATION_MESSAGE_BYTES,
      ca_title := map_option (\<lambda>t. truncate_utf8_bytes t MAX_CHECK_ANNOTATION_TITLE_BYTES) (ca_title a)\<rparr>"

definition parse_named_workflow_command ::
  "string \<Rightarrow> string \<Rightarrow> agent_failure + (string \<times> string) option"
where
  "parse_named_workflow_command line command =
    (case strip_prefix_ignore_ascii_case line (''::'' @ command @ '' '') of
      None \<Rightarrow> Inr None
    | Some command_body \<Rightarrow>
        bindE (ok_or (split_once_str ''::'' command_body)
          (Bail (''legacy '' @ command @ '' command is missing its data delimiter''))) (\<lambda>(properties, data).
        bindE (ok_or (find_property ''name'' properties)
          (Bail (''legacy '' @ command @ '' command is missing its name property''))) (\<lambda>name.
        Inr (Some (name, decode_workflow_command_data data)))))"

definition mask_secret :: "string \<Rightarrow> string \<Rightarrow> string" where
  "mask_secret secret value = (if contains_str value secret then replace_str secret ''***'' value else value)"

definition mask_text :: "string list \<Rightarrow> string \<Rightarrow> string" where
  "mask_text secrets value = fold mask_secret secrets value"

section \<open>The processor\<close>

record command_scope =
  scope_masks :: "string list"
  mask_bytes :: nat
  stop_token :: "string option"

record legacy_command_values =
  legacy_outputs :: "(string \<times> string) list"
  legacy_state :: "(string \<times> string) list"
  command_count :: nat
  command_bytes :: nat

record 'rx processor =
  global_masks :: "string list"
  command_scopes :: "(string \<times> command_scope) list"
  legacy_values :: "(string \<times> legacy_command_values) list"
  matcher_registry :: "'rx problem_matcher_registry"
  recorded_annotations :: "check_annotation list"
  annotation_counts :: "((string \<times> check_annotation_level) \<times> nat) list"
  preprocessed_logs :: "uuid set"
  partial_commands :: "((string \<times> nat) \<times> string) list"
  fatal_error :: "string option"

datatype line_disposition = Original | Suppress | Replace string

definition default_scope :: command_scope where
  "default_scope = \<lparr>scope_masks = [], mask_bytes = 0, stop_token = None\<rparr>"

definition default_legacy :: legacy_command_values where
  "default_legacy = \<lparr>legacy_outputs = [], legacy_state = [], command_count = 0, command_bytes = 0\<rparr>"

text \<open>Masks in the order they are applied: the longest first, then by their bytes.\<close>

definition sort_masks :: "string list \<Rightarrow> string list" where
  "sort_masks masks = sort_key (\<lambda>m. (- int (length m), m)) masks"

definition with_global_masks :: "string list \<Rightarrow> string \<Rightarrow> string \<Rightarrow> 'rx processor" where
  "with_global_masks masks workspace root =
    \<lparr>global_masks = remdups_adj (sort_masks masks), command_scopes = [], legacy_values = [],
     matcher_registry = new_registry workspace root, recorded_annotations = [], annotation_counts = [],
     preprocessed_logs = {}, partial_commands = [], fatal_error = None\<rparr>"

definition mark_preprocessed_log :: "uuid \<Rightarrow> 'rx processor \<Rightarrow> 'rx processor" where
  "mark_preprocessed_log i P = P\<lparr>preprocessed_logs := insert i (preprocessed_logs P)\<rparr>"

definition take_preprocessed_log :: "uuid \<Rightarrow> 'rx processor \<Rightarrow> bool \<times> 'rx processor" where
  "take_preprocessed_log i P = (i \<in> preprocessed_logs P, P\<lparr>preprocessed_logs := preprocessed_logs P - {i}\<rparr>)"

definition register_command_workspace :: "string \<Rightarrow> string \<Rightarrow> 'rx processor \<Rightarrow> 'rx processor" where
  "register_command_workspace scope workspace P =
    P\<lparr>matcher_registry := register_workspace scope workspace (matcher_registry P)\<rparr>"

definition ensure_healthy :: "'rx processor \<Rightarrow> agent_failure + unit" where
  "ensure_healthy P =
    (case fatal_error P of Some e \<Rightarrow> Inl (Bail (''workflow command processing failed: '' @ e)) | None \<Rightarrow> Inr ())"

definition register_global_mask :: "string \<Rightarrow> 'rx processor \<Rightarrow> 'rx processor" where
  "register_global_mask value P =
    (if value = [] \<or> value \<in> set (global_masks P) then P
     else P\<lparr>global_masks := sort_masks (global_masks P @ [value])\<rparr>)"

definition fail_processor :: "string \<Rightarrow> 'rx processor \<Rightarrow> 'rx processor" where
  "fail_processor e P = (case fatal_error P of None \<Rightarrow> P\<lparr>fatal_error := Some e\<rparr> | Some _ \<Rightarrow> P)"

text \<open>\<open>WorkflowCommandScope::register_mask\<close>; a failure leaves the masks unsorted.\<close>

definition register_candidate :: "string \<Rightarrow> (command_scope, unit) act" where
  "register_candidate candidate S =
    (if candidate = [] \<or> candidate \<in> set (scope_masks S) then (Inr (), S)
     else if length (scope_masks S) \<ge> MAX_DYNAMIC_MASKS_PER_JOB \<or>
         saturating_add (mask_bytes S) (length candidate) > MAX_DYNAMIC_MASK_BYTES_PER_JOB then
       bailA ''workflow added too many dynamic masks'' S
     else
       (Inr (), S\<lparr>mask_bytes := mask_bytes S + length candidate, scope_masks := scope_masks S @ [candidate]\<rparr>))"

definition register_mask :: "string \<Rightarrow> (command_scope, unit) act" where
  "register_mask value =
    bindA (foldA (\<lambda>_. register_candidate) () (value # split_whitespace value)) (\<lambda>_.
    updateA (\<lambda>S. S\<lparr>scope_masks := sort_key (\<lambda>m. - int (length m)) (scope_masks S)\<rparr>))"

text \<open>\<open>scopes.entry(scope).or_default()\<close> as a field.\<close>

definition command_scope_of :: "string \<Rightarrow> 'rx processor \<Rightarrow> command_scope" where
  "command_scope_of scope P = (case bt_get (command_scopes P) scope of None \<Rightarrow> default_scope | Some S \<Rightarrow> S)"

definition put_command_scope :: "string \<Rightarrow> command_scope \<Rightarrow> 'rx processor \<Rightarrow> 'rx processor" where
  "put_command_scope scope S P = P\<lparr>command_scopes := bt_insert scope S (command_scopes P)\<rparr>"

definition set_stop_token :: "string \<Rightarrow> string option \<Rightarrow> 'rx processor \<Rightarrow> 'rx processor" where
  "set_stop_token scope token P = put_command_scope scope ((command_scope_of scope P)\<lparr>stop_token := token\<rparr>) P"

definition scope_stop_token :: "string \<Rightarrow> 'rx processor \<Rightarrow> string option" where
  "scope_stop_token scope P = Option.bind (bt_get (command_scopes P) scope) stop_token"

definition put_registry :: "'rx problem_matcher_registry \<Rightarrow> 'rx processor \<Rightarrow> 'rx processor" where
  "put_registry r P = P\<lparr>matcher_registry := r\<rparr>"

definition annotation_limit :: "check_annotation_level \<Rightarrow> nat" where
  "annotation_limit level =
    (case level of FailureLevel \<Rightarrow> MAX_ERROR_ANNOTATIONS_PER_STEP
     | WarningLevel \<Rightarrow> MAX_WARNING_ANNOTATIONS_PER_STEP
     | NoticeLevel \<Rightarrow> MAX_NOTICE_ANNOTATIONS_PER_STEP)"

definition record_annotation :: "string \<Rightarrow> check_annotation \<Rightarrow> 'rx processor \<Rightarrow> 'rx processor" where
  "record_annotation step_id a P =
    (let key = (step_id, ca_annotation_level a);
         count = (case bt_get (annotation_counts P) key of None \<Rightarrow> 0 | Some n \<Rightarrow> n) in
     if count \<ge> annotation_limit (ca_annotation_level a) then
       P\<lparr>annotation_counts := bt_insert key count (annotation_counts P)\<rparr>
     else
       P\<lparr>annotation_counts := bt_insert key (count + 1) (annotation_counts P),
         recorded_annotations :=
           (if length (recorded_annotations P) < MAX_CHECK_ANNOTATIONS
            then recorded_annotations P @ [a] else recorded_annotations P)\<rparr>)"

definition take_annotations :: "'rx processor \<Rightarrow> check_annotation list \<times> 'rx processor" where
  "take_annotations P = (recorded_annotations P, P\<lparr>recorded_annotations := []\<rparr>)"

definition step_legacy :: "string \<Rightarrow> 'rx processor \<Rightarrow> legacy_command_values" where
  "step_legacy step_id P = (case bt_get (legacy_values P) step_id of None \<Rightarrow> default_legacy | Some v \<Rightarrow> v)"

definition put_legacy :: "string \<Rightarrow> legacy_command_values \<Rightarrow> 'rx processor \<Rightarrow> 'rx processor" where
  "put_legacy step_id v P = P\<lparr>legacy_values := bt_insert step_id v (legacy_values P)\<rparr>"

definition store_legacy_value :: "string \<Rightarrow> string \<Rightarrow> bool \<Rightarrow> (legacy_command_values, unit) act" where
  "store_legacy_value name value is_state v =
    (let counted = v\<lparr>command_count := saturating_add (command_count v) 1,
           command_bytes := saturating_add (saturating_add (command_bytes v) (length name)) (length value)\<rparr> in
     if command_count counted > MAX_LEGACY_COMMAND_VALUES_PER_STEP \<or>
        command_bytes counted > MAX_LEGACY_COMMAND_BYTES_PER_STEP then
       bailA ''legacy workflow commands exceeded the per-step safety limit'' counted
     else if is_state then (Inr (), counted\<lparr>legacy_state := bt_insert name value (legacy_state counted)\<rparr>)
     else (Inr (), counted\<lparr>legacy_outputs := bt_insert name value (legacy_outputs counted)\<rparr>))"

definition record_legacy_value ::
  "string \<Rightarrow> string \<Rightarrow> string \<Rightarrow> bool \<Rightarrow> ('rx processor, unit) act"
where
  "record_legacy_value step_id name value is_state =
    (if name = [] \<or> length name > 1024 \<or> contains_any name [CHR 0x00, newline, carriage_return, CHR ''=''] \<or>
        contains_char value (CHR 0x00) then
       bailA ''legacy workflow command contains an invalid name or value''
     else fieldA (step_legacy step_id) (put_legacy step_id) (store_legacy_value name value is_state))"

definition take_legacy_outputs :: "string \<Rightarrow> ('rx processor, (string \<times> string) list) act" where
  "take_legacy_outputs step_id P =
    (case ensure_healthy P of
      Inl e \<Rightarrow> (Inl e, P)
    | Inr _ \<Rightarrow>
        (case bt_get (legacy_values P) step_id of
          None \<Rightarrow> (Inr [], P)
        | Some v \<Rightarrow> (Inr (legacy_outputs v), put_legacy step_id (v\<lparr>legacy_outputs := []\<rparr>) P)))"

definition take_legacy_state :: "string \<Rightarrow> ('rx processor, (string \<times> string) list) act" where
  "take_legacy_state step_id P =
    (case ensure_healthy P of
      Inl e \<Rightarrow> (Inl e, P)
    | Inr _ \<Rightarrow>
        (case bt_get (legacy_values P) step_id of
          None \<Rightarrow> (Inr [], P)
        | Some v \<Rightarrow> (Inr (legacy_state v), put_legacy step_id (v\<lparr>legacy_state := []\<rparr>) P)))"

section \<open>Lines and logs\<close>

definition registry_call :: "('rx problem_matcher_registry, 'a) act \<Rightarrow> ('rx processor, 'a) act" where
  "registry_call = fieldA matcher_registry put_registry"

definition remove_matcher ::
  "'rx matcher_world \<Rightarrow> string \<Rightarrow> problem_matcher_removal \<Rightarrow> ('rx processor, unit) act"
where
  "remove_matcher W scope removal =
    (case removal of
      RemovalOwner owner \<Rightarrow> registry_call (remove_owner scope owner)
    | RemovalFile path \<Rightarrow> registry_call (remove_from_file W scope path))"

text \<open>The end of \<open>process_line\<close>: annotations, legacy commands and the problem matchers.\<close>

definition process_reported_line ::
  "'rx matcher_world \<Rightarrow> string \<Rightarrow> string \<Rightarrow> ('rx processor, line_disposition) act"
where
  "process_reported_line W step_id line =
    (let scope = workflow_command_scope step_id in
     bindA (readA (\<lambda>P. scope_workspace scope (matcher_registry P))) (\<lambda>workspace.
     bindA (liftA (parse_workflow_annotation line workspace)) (\<lambda>annotation.
     (case annotation of
       Some a \<Rightarrow> bindA (updateA (record_annotation step_id a)) (\<lambda>_. retA (Replace (annotation_log_line a)))
     | None \<Rightarrow>
         bindA (liftA (parse_named_workflow_command line ''set-output'')) (\<lambda>output.
         (case output of
           Some (name, value) \<Rightarrow> bindA (record_legacy_value step_id name value False) (\<lambda>_. retA Suppress)
         | None \<Rightarrow>
             bindA (liftA (parse_named_workflow_command line ''save-state'')) (\<lambda>saved.
             (case saved of
               Some (name, value) \<Rightarrow> bindA (record_legacy_value step_id name value True) (\<lambda>_. retA Suppress)
             | None \<Rightarrow>
                 bindA (registry_call (scan W scope line)) (\<lambda>scanned.
                 (case scanned of
                   Some a \<Rightarrow> bindA (updateA (record_annotation step_id a)) (\<lambda>_. retA Original)
                 | None \<Rightarrow> retA Original))))))))))"

definition process_command_line ::
  "'rx matcher_world \<Rightarrow> string \<Rightarrow> string \<Rightarrow> ('rx processor, line_disposition) act"
where
  "process_command_line W step_id line =
    (let scope = workflow_command_scope step_id in
     case strip_prefix_ignore_ascii_case line ''::add-mask::'' of
       Some value \<Rightarrow>
         bindA (fieldA (command_scope_of scope) (put_command_scope scope)
           (register_mask (decode_workflow_command_data value))) (\<lambda>_. retA Suppress)
     | None \<Rightarrow>
     case strip_prefix_ignore_ascii_case line ''::stop-commands::'' of
       Some encoded \<Rightarrow>
         let token = decode_workflow_command_data encoded in
         bindA (if token \<noteq> [] then updateA (set_stop_token scope (Some token)) else retA ()) (\<lambda>_. retA Suppress)
     | None \<Rightarrow>
     case strip_prefix_ignore_ascii_case line ''::add-matcher::'' of
       Some path \<Rightarrow>
         bindA (registry_call (add_from_file W scope (decode_workflow_command_data path))) (\<lambda>_. retA Suppress)
     | None \<Rightarrow>
         bindA (liftA (parse_remove_matcher_command line)) (\<lambda>removal.
         (case removal of
           Some r \<Rightarrow> bindA (remove_matcher W scope r) (\<lambda>_. retA Suppress)
         | None \<Rightarrow> process_reported_line W step_id line)))"

definition process_line ::
  "'rx matcher_world \<Rightarrow> string \<Rightarrow> string \<Rightarrow> ('rx processor, line_disposition) act"
where
  "process_line W step_id line =
    (let scope = workflow_command_scope step_id in
     bindA (readA (scope_stop_token scope)) (\<lambda>token.
     (case token of
       Some t \<Rightarrow>
         if line = ''::'' @ t @ ''::'' then bindA (updateA (set_stop_token scope None)) (\<lambda>_. retA Suppress)
         else retA Original
     | None \<Rightarrow> process_command_line W step_id line)))"

definition visible_segment :: "string \<Rightarrow> line_disposition \<Rightarrow> string" where
  "visible_segment segment d =
    (case d of Original \<Rightarrow> segment | Suppress \<Rightarrow> []
     | Replace r \<Rightarrow> if ends_with segment [newline] then r @ [newline] else r)"

definition process_segment ::
  "'rx matcher_world \<Rightarrow> string \<Rightarrow> string \<Rightarrow> string \<Rightarrow> ('rx processor, string) act"
where
  "process_segment W step_id visible segment =
    bindA (process_line W step_id (trim_line_end segment)) (\<lambda>d. retA (visible @ visible_segment segment d))"

definition process_complete_log ::
  "'rx matcher_world \<Rightarrow> string \<Rightarrow> string \<Rightarrow> ('rx processor, string) act"
where
  "process_complete_log W step_id data = foldA (process_segment W step_id) [] (split_inclusive data)"

definition is_suppressible_command :: "string \<Rightarrow> string \<Rightarrow> 'rx processor \<Rightarrow> bool" where
  "is_suppressible_command step_id line P =
    (case scope_stop_token (workflow_command_scope step_id) P of
      Some token \<Rightarrow> line = ''::'' @ token @ ''::''
    | None \<Rightarrow>
        strip_prefix_ignore_ascii_case line ''::add-mask::'' \<noteq> None \<or>
        strip_prefix_ignore_ascii_case line ''::stop-commands::'' \<noteq> None \<or>
        strip_prefix_ignore_ascii_case line ''::set-output '' \<noteq> None \<or>
        strip_prefix_ignore_ascii_case line ''::save-state '' \<noteq> None \<or>
        is_annotation_workflow_command line \<or> is_problem_matcher_workflow_command line)"

definition put_partial :: "string \<times> nat \<Rightarrow> string \<Rightarrow> 'rx processor \<Rightarrow> 'rx processor" where
  "put_partial key data P = P\<lparr>partial_commands := bt_insert key data (partial_commands P)\<rparr>"

definition remove_partial :: "string \<times> nat \<Rightarrow> 'rx processor \<Rightarrow> 'rx processor" where
  "remove_partial key P = P\<lparr>partial_commands := bt_remove key (partial_commands P)\<rparr>"

definition process_log ::
  "'rx matcher_world \<Rightarrow> string \<Rightarrow> log_stream \<Rightarrow> string \<Rightarrow> ('rx processor, string) act"
where
  "process_log W step_id stream data P =
    (let key = (step_id, log_stream_key stream) in
     case bt_get (partial_commands P) key of
       Some partial \<Rightarrow>
         if length (partial @ data) > MAX_DYNAMIC_MASK_BYTES_PER_JOB then
           bailA ''workflow command exceeded the dynamic-mask safety limit'' (put_partial key (partial @ data) P)
         else if ends_with data [newline] \<or> length data < MAX_LOG_CHUNK_BYTES then
           process_complete_log W step_id (partial @ data) (remove_partial key P)
         else (Inr [], put_partial key (partial @ data) P)
     | None \<Rightarrow>
         if length data \<ge> MAX_LOG_CHUNK_BYTES \<and> \<not> ends_with data [newline] \<and>
            is_suppressible_command step_id (trim_line_end data) P
         then (Inr [], put_partial key data P)
         else process_complete_log W step_id data P)"

definition finish_partial ::
  "'rx matcher_world \<Rightarrow> string \<Rightarrow> unit \<Rightarrow> string \<times> nat \<Rightarrow> ('rx processor, unit) act"
where
  "finish_partial W step_id u key P =
    (case bt_get (partial_commands P) key of
      None \<Rightarrow> (Inl AgentPanic, P)
    | Some complete \<Rightarrow> bindA (process_complete_log W step_id complete) (\<lambda>_. retA ()) (remove_partial key P))"

definition finish_step_state :: "string \<Rightarrow> 'rx processor \<Rightarrow> 'rx processor" where
  "finish_step_state step_id P =
    (let scope = workflow_command_scope step_id;
         P = (case bt_get (command_scopes P) scope of None \<Rightarrow> P | Some S \<Rightarrow> put_command_scope scope (S\<lparr>stop_token := None\<rparr>) P) in
     P\<lparr>matcher_registry := reset_scope scope (matcher_registry P), legacy_values := bt_remove step_id (legacy_values P)\<rparr>)"

definition finish_step :: "'rx matcher_world \<Rightarrow> string \<Rightarrow> ('rx processor, unit) act" where
  "finish_step W step_id =
    bindA (readA (\<lambda>P. filter (\<lambda>key. fst key = step_id) (bt_keys (partial_commands P)))) (\<lambda>keys.
    bindA (foldA (finish_partial W step_id) () keys) (\<lambda>_.
    updateA (finish_step_state step_id)))"

definition finish_stream :: "'rx matcher_world \<Rightarrow> string \<Rightarrow> log_stream \<Rightarrow> ('rx processor, unit) act" where
  "finish_stream W step_id stream P =
    (let key = (step_id, log_stream_key stream) in
     case bt_get (partial_commands P) key of
       None \<Rightarrow> (Inr (), P)
     | Some complete \<Rightarrow> bindA (process_complete_log W step_id complete) (\<lambda>_. retA ()) (remove_partial key P))"

definition mask_for_step :: "string \<Rightarrow> 'rx processor \<Rightarrow> string \<Rightarrow> string" where
  "mask_for_step step_id P value =
    (case bt_get (command_scopes P) (workflow_command_scope step_id) of
      None \<Rightarrow> mask_text (global_masks P) value
    | Some S \<Rightarrow> mask_text (scope_masks S) (mask_text (global_masks P) value))"

definition mask_all :: "'rx processor \<Rightarrow> string \<Rightarrow> string" where
  "mask_all P value =
    fold (\<lambda>S. mask_text (scope_masks S)) (bt_values (command_scopes P)) (mask_text (global_masks P) value)"

definition value_is_masked_for_step :: "string \<Rightarrow> 'rx processor \<Rightarrow> string \<Rightarrow> bool" where
  "value_is_masked_for_step step_id P value \<longleftrightarrow>
    list_ex (contains_str value) (global_masks P) \<or>
    (case bt_get (command_scopes P) (workflow_command_scope step_id) of
      None \<Rightarrow> False | Some S \<Rightarrow> list_ex (contains_str value) (scope_masks S))"

section \<open>Masking\<close>

text \<open>Masks that the replacement text cannot be part of.\<close>

definition maskable :: "string \<Rightarrow> bool" where
  "maskable s \<longleftrightarrow> s \<noteq> [] \<and> CHR ''*'' \<notin> set s"

lemma mask_secret_occurrence:
  assumes "contains_str (mask_secret secret v) s" "maskable s"
  shows "contains_str v s" "s \<noteq> secret"
  using assms replace_str_occurrence [of secret "''***''" v s]
  by (auto simp: mask_secret_def maskable_def split: if_splits)

lemma mask_text_keeps: "contains_str (mask_text secrets v) s \<Longrightarrow> maskable s \<Longrightarrow> contains_str v s"
  unfolding mask_text_def
  by (induction secrets arbitrary: v) (auto dest: mask_secret_occurrence)

lemma mask_text_masks: "s \<in> set secrets \<Longrightarrow> maskable s \<Longrightarrow> \<not> contains_str (mask_text secrets v) s"
proof (induction secrets arbitrary: v)
  case (Cons x xs)
  have unfold: "mask_text (x # xs) v = mask_text xs (mask_secret x v)" by (simp add: mask_text_def)
  show ?case
  proof (cases "s \<in> set xs")
    case True
    then show ?thesis using Cons unfold by simp
  next
    case False
    then have "\<not> contains_str (mask_secret x v) s" using Cons.prems mask_secret_occurrence(2) by auto
    then show ?thesis using Cons.prems(2) unfold mask_text_keeps by metis
  qed
qed simp

section \<open>Encoding of command data\<close>

text \<open>
  The encoding of the toolkit that writes workflow commands. A word of it is a character other
  than \<open>%\<close>, or a \<open>%\<close> with two characters other than \<open>%\<close>.
\<close>

definition escape_data_char :: "char \<Rightarrow> string" where
  "escape_data_char c =
    (if c = CHR ''%'' then ''%25'' else if c = carriage_return then ''%0D''
     else if c = newline then ''%0A'' else [c])"

definition escape_property_char :: "char \<Rightarrow> string" where
  "escape_property_char c =
    (if c = CHR '':'' then ''%3A'' else if c = CHR '','' then ''%2C'' else escape_data_char c)"

definition escape_word :: "string \<Rightarrow> bool" where
  "escape_word w \<longleftrightarrow> (\<exists>c. w = [c] \<and> c \<noteq> CHR ''%'') \<or> (\<exists>a b. w = [CHR ''%'', a, b] \<and> a \<noteq> CHR ''%'' \<and> b \<noteq> CHR ''%'')"

definition replace_word :: "string \<Rightarrow> string \<Rightarrow> string \<Rightarrow> string" where
  "replace_word p r w = (if w = p then r else w)"

lemma replace_word_simps [simp]: "replace_word p r p = r" "w \<noteq> p \<Longrightarrow> replace_word p r w = w"
  by (simp_all add: replace_word_def)

lemma starts_with_percent: "starts_with (c # s) [CHR ''%'', a, b] \<Longrightarrow> c = CHR ''%''"
  by (auto simp: starts_with_iff)

lemma replace_words:
  assumes "list_all escape_word ws"
  shows "replace_str [CHR ''%'', a, b] r (concat ws) = concat (map (replace_word [CHR ''%'', a, b] r) ws)"
  using assms
proof (induction ws)
  case Nil
  then show ?case by (simp add: replace_str_Nil)
next
  case (Cons w ws)
  let ?p = "[CHR ''%'', a, b]"
  from Cons have IH: "replace_str ?p r (concat ws) = concat (map (replace_word ?p r) ws)" and w: "escape_word w" by simp_all
  show ?case
  proof (cases "w = ?p")
    case True
    then show ?thesis using replace_str_match [of ?p r "concat ws"] IH by simp
  next
    case False
    have skip: "replace_str ?p r (c # s) = c # replace_str ?p r s" if "c \<noteq> CHR ''%''" for c s
      using that starts_with_percent by (intro replace_str_skip) auto
    from w consider c where "w = [c]" "c \<noteq> CHR ''%''"
      | x y where "w = [CHR ''%'', x, y]" "x \<noteq> CHR ''%''" "y \<noteq> CHR ''%''" by (auto simp: escape_word_def)
    then show ?thesis
    proof cases
      case 1
      then show ?thesis using IH False by (simp add: skip)
    next
      case 2
      then have "\<not> starts_with (w @ concat ws) ?p" using False by (auto simp: starts_with_iff)
      then have "replace_str ?p r (w @ concat ws) = CHR ''%'' # replace_str ?p r (x # y # concat ws)"
        using 2 by (simp add: replace_str_skip)
      then show ?thesis using 2 IH False by (simp add: skip)
    qed
  qed
qed

lemma escape_word_replace: "list_all escape_word ws \<Longrightarrow> r \<noteq> CHR ''%'' \<Longrightarrow> list_all escape_word (map (replace_word p [r]) ws)"
  by (auto simp: list_all_iff replace_word_def escape_word_def)

lemma escape_words:
  "list_all escape_word (map escape_data_char s)" "list_all escape_word (map escape_property_char s)"
  by (auto simp: list_all_iff escape_word_def escape_data_char_def escape_property_char_def)

lemma decode_escape_data: "decode_workflow_command_data (concat (map escape_data_char s)) = s"
proof -
  have chars: "replace_word ''%25'' ''%'' (replace_word ''%0a'' [newline] (replace_word ''%0A'' [newline]
      (replace_word ''%0d'' [carriage_return] (replace_word ''%0D'' [carriage_return] (escape_data_char c))))) = [c]" for c
    by (simp add: replace_word_def escape_data_char_def)
  show ?thesis
    by (simp add: decode_workflow_command_data_def replace_words escape_word_replace escape_words del: map_map)
      (simp add: comp_def chars)
qed

lemma decode_escape_property: "decode_workflow_command_property (concat (map escape_property_char s)) = s"
proof -
  have chars: "replace_word ''%25'' ''%'' (replace_word ''%2c'' '','' (replace_word ''%2C'' '',''
      (replace_word ''%3a'' '':'' (replace_word ''%3A'' '':'' (replace_word ''%0a'' [newline] (replace_word ''%0A'' [newline]
        (replace_word ''%0d'' [carriage_return] (replace_word ''%0D'' [carriage_return] (escape_property_char c))))))))) = [c]" for c
    by (simp add: replace_word_def escape_data_char_def escape_property_char_def)
  show ?thesis
    by (simp add: decode_workflow_command_property_def replace_words escape_word_replace escape_words del: map_map)
      (simp add: comp_def chars)
qed

text \<open>
  Decoding the data or the properties of a workflow command gives back every text the
  toolkit encoded, although the code decodes with one replacement after another: none of them
  touches what another one produced.
\<close>

theorem decode_workflow_command_roundtrip:
  "decode_workflow_command_data (concat (map escape_data_char s)) = s \<and>
   decode_workflow_command_property (concat (map escape_property_char s)) = s"
  by (simp add: decode_escape_data decode_escape_property)

section \<open>Annotations of commands are well-formed\<close>

lemma annotation_coordinate_ok: "annotation_coordinate properties name = Inr (Some w) \<Longrightarrow> line_ok w"
  by (auto simp: annotation_coordinate_def line_ok_def result_simps word_gt_0 split: option.splits if_splits)

lemma normalize_annotation_path_ok:
  assumes "normalize_annotation_path v workspace = Inr p"
  shows "p \<noteq> []" "length p \<le> MAX_CHECK_ANNOTATION_PATH_BYTES"
proof -
  have parts: "\<forall>x\<in>set ns. x \<noteq> []" if "normal_components acc cs = Inr ns" "\<forall>x\<in>set acc. x \<noteq> []"
    "\<forall>x. NormalComponent x \<in> set cs \<longrightarrow> x \<noteq> []" for acc cs ns
    using that by (induction acc cs rule: normal_components.induct) (auto split: if_splits)
  have components: "NormalComponent x \<in> set (path_components q) \<Longrightarrow> x \<noteq> []" for x q
    by (auto simp: path_components_def segment_component_def Let_def split: if_splits)
  from assms obtain relative ns where n: "normal_components [] (path_components relative) = Inr ns"
    "p = (if ns = [] then ''.github'' else join_with ''/'' ns)" "length p \<le> MAX_CHECK_ANNOTATION_PATH_BYTES"
    by (auto simp: normalize_annotation_path_def Let_def result_simps split: if_split_asm)
  then show "length p \<le> MAX_CHECK_ANNOTATION_PATH_BYTES" by simp
  have "\<forall>x\<in>set ns. x \<noteq> []" using parts [OF n(1)] components by simp
  then show "p \<noteq> []" unfolding n(2) by (cases ns; cases "tl ns") auto
qed

lemma annotation_columns_ok:
  assumes "annotation_columns l m s e = Inr (c, d)" "\<And>w. s = Some w \<Longrightarrow> line_ok w" "\<And>w. e = Some w \<Longrightarrow> line_ok w"
  shows "case (c, d) of (None, None) \<Rightarrow> True | (Some c, Some d) \<Rightarrow> l = m \<and> line_ok c \<and> line_ok d \<and> c \<le> d | _ \<Rightarrow> False"
  using assms by (auto simp: annotation_columns_def split: if_splits option.splits)

lemma checked_annotation_ok:
  assumes "normalize_annotation_path file workspace = Inr path"
    and line: "annotation_coordinate properties ''line'' = Inr line" "start_line = (case line of None \<Rightarrow> 1 | Some l \<Rightarrow> l)"
    and eline: "annotation_coordinate properties ''endline'' = Inr eline"
      "end_line = (case eline of None \<Rightarrow> start_line | Some l \<Rightarrow> l)" "\<not> end_line < start_line"
    and columns: "annotation_coordinate properties ''col'' = Inr s" "annotation_coordinate properties ''endcolumn'' = Inr e"
      "annotation_columns start_line end_line s e = Inr cd"
    and "message \<noteq> []" "\<not> (case title of None \<Rightarrow> False | Some t \<Rightarrow> MAX_CHECK_ANNOTATION_TITLE_BYTES < length t \<or> Q t)"
  shows "annotation_ok \<lparr>ca_path = path, ca_start_line = start_line, ca_end_line = end_line, ca_start_column = fst cd,
    ca_end_column = snd cd, ca_annotation_level = level, ca_message = message, ca_title = title\<rparr>" (is "annotation_ok ?a")
proof -
  have "line_ok 1" by (simp add: line_ok_def)
  then have start: "line_ok start_line" using annotation_coordinate_ok line by (cases line) auto
  then have "line_ok end_line" using annotation_coordinate_ok eline by (cases eline) auto
  moreover obtain c d where cd: "cd = (c, d)" by (cases cd)
  have "case (c, d) of (None, None) \<Rightarrow> True
      | (Some c, Some d) \<Rightarrow> start_line = end_line \<and> line_ok c \<and> line_ok d \<and> c \<le> d | _ \<Rightarrow> False"
    by (rule annotation_columns_ok [OF columns(3) [unfolded cd]])
      (use columns(1,2) annotation_coordinate_ok in auto)
  then have "columns_ok ?a" by (cases c; cases d) (simp_all add: columns_ok_def cd)
  ultimately show ?thesis
    using start eline(3) normalize_annotation_path_ok [OF assms(1)] assms(10,11)
    by (simp add: annotation_ok_def not_less split: option.splits)
qed

lemma build_annotation_ok:
  assumes "build_annotation level properties data workspace = Inr a"
  shows "annotation_ok a"
  using assms unfolding build_annotation_def Let_def
  by (simp only: result_simps case_prod_unfold sum.inject)
    (elim exE conjE, hypsubst, rule checked_annotation_ok, assumption, assumption, rule refl, assumption, rule refl,
      assumption, assumption, assumption, assumption, simp, assumption)

lemma parse_annotation_ok: "parse_workflow_annotation line workspace = Inr (Some a) \<Longrightarrow> annotation_ok a"
  by (auto simp: parse_workflow_annotation_def result_simps split: if_splits option.splits prod.splits
      dest: build_annotation_ok)

section \<open>The invariant of the processor\<close>

definition command_scope_ok :: "command_scope \<Rightarrow> bool" where
  "command_scope_ok S \<longleftrightarrow> [] \<notin> set (scope_masks S) \<and> distinct (scope_masks S) \<and>
    length (scope_masks S) \<le> MAX_DYNAMIC_MASKS_PER_JOB \<and>
    mask_bytes S = sum_list (map length (scope_masks S)) \<and> mask_bytes S \<le> MAX_DYNAMIC_MASK_BYTES_PER_JOB"

definition legacy_ok :: "legacy_command_values \<Rightarrow> bool" where
  "legacy_ok v \<longleftrightarrow> length (legacy_outputs v) + length (legacy_state v) \<le> MAX_LEGACY_COMMAND_VALUES_PER_STEP \<and>
    length (legacy_outputs v) + length (legacy_state v) \<le> command_count v"

definition annotations_ok :: "'rx processor \<Rightarrow> bool" where
  "annotations_ok P \<longleftrightarrow> length (recorded_annotations P) \<le> MAX_CHECK_ANNOTATIONS \<and>
    (\<forall>a\<in>set (recorded_annotations P). annotation_ok a) \<and> bt_wf (annotation_counts P) \<and>
    (\<forall>key n. bt_get (annotation_counts P) key = Some n \<longrightarrow> n \<le> annotation_limit (snd key))"

definition processor_ok :: "'rx matcher_world \<Rightarrow> 'rx processor \<Rightarrow> bool" where
  "processor_ok W P \<longleftrightarrow> registry_ok W (matcher_registry P) \<and> annotations_ok P \<and>
    bt_wf (command_scopes P) \<and> (\<forall>scope S. bt_get (command_scopes P) scope = Some S \<longrightarrow> command_scope_ok S) \<and>
    bt_wf (legacy_values P) \<and> (\<forall>step v. bt_get (legacy_values P) step = Some v \<longrightarrow> legacy_ok v) \<and>
    bt_wf (partial_commands P)"

lemma default_scope_ok: "command_scope_ok default_scope"
  by (simp add: command_scope_ok_def default_scope_def)

lemma default_legacy_ok: "legacy_ok default_legacy"
  by (simp add: legacy_ok_def default_legacy_def)

lemma put_command_scope_ok: "processor_ok W P \<Longrightarrow> command_scope_ok S \<Longrightarrow> processor_ok W (put_command_scope scope S P)"
  by (auto simp: processor_ok_def put_command_scope_def annotations_ok_def bt_wf_insert bt_get_insert)

lemma command_scope_of_ok: "processor_ok W P \<Longrightarrow> command_scope_ok (command_scope_of scope P)"
  by (auto simp: processor_ok_def command_scope_of_def default_scope_ok split: option.split)

lemma put_legacy_ok: "processor_ok W P \<Longrightarrow> legacy_ok v \<Longrightarrow> processor_ok W (put_legacy step v P)"
  by (auto simp: processor_ok_def put_legacy_def annotations_ok_def bt_wf_insert bt_get_insert)

lemma step_legacy_ok: "processor_ok W P \<Longrightarrow> legacy_ok (step_legacy step P)"
  by (auto simp: processor_ok_def step_legacy_def default_legacy_ok split: option.split)

lemma put_partial_ok: "processor_ok W P \<Longrightarrow> processor_ok W (put_partial key data P)"
  by (auto simp: processor_ok_def put_partial_def annotations_ok_def bt_wf_insert)

lemma remove_partial_ok: "processor_ok W P \<Longrightarrow> processor_ok W (remove_partial key P)"
  by (auto simp: processor_ok_def remove_partial_def annotations_ok_def bt_wf_remove)

lemma set_stop_token_ok: "processor_ok W P \<Longrightarrow> processor_ok W (set_stop_token scope token P)"
  unfolding set_stop_token_def
  by (rule put_command_scope_ok) (use command_scope_of_ok [of W P scope] in \<open>auto simp: command_scope_ok_def\<close>)

lemma registry_call_gives:
  "gives (registry_ok W) m Q \<Longrightarrow> gives (processor_ok W) (registry_call m) Q"
  unfolding registry_call_def
  by (rule gives_field) (auto simp: processor_ok_def put_registry_def annotations_ok_def)

lemma record_annotation_ok:
  assumes "processor_ok W P" "annotation_ok a"
  shows "processor_ok W (record_annotation step_id a P)"
proof -
  let ?key = "(step_id, ca_annotation_level a)"
  let ?count = "case bt_get (annotation_counts P) ?key of None \<Rightarrow> 0 | Some n \<Rightarrow> n"
  have ok: "annotations_ok P" using assms by (simp add: processor_ok_def)
  then have count: "?count \<le> annotation_limit (ca_annotation_level a)"
    by (auto simp: annotations_ok_def split: option.split)
  have counts: "bt_wf (bt_insert ?key n (annotation_counts P)) \<and>
      (\<forall>k m. bt_get (bt_insert ?key n (annotation_counts P)) k = Some m \<longrightarrow> m \<le> annotation_limit (snd k))"
    if "n \<le> annotation_limit (ca_annotation_level a)" for n
    using that ok by (auto simp: annotations_ok_def bt_wf_insert bt_get_insert split: if_splits)
  have "annotations_ok (record_annotation step_id a P)"
    using ok assms(2) counts [of ?count] counts [of "?count + 1"] count
    by (auto simp: record_annotation_def Let_def annotations_ok_def not_le)
  then show ?thesis using assms(1) by (auto simp: processor_ok_def record_annotation_def Let_def)
qed

section \<open>Every method keeps the invariant\<close>

lemma length_bt_insert: "length (bt_insert k v m) \<le> Suc (length m)"
  by (induction m) auto

lemma register_candidate_keeps: "keeps command_scope_ok (register_candidate candidate)"
  by (auto simp: gives_def register_candidate_def command_scope_ok_def bailA_def saturating_add_def
      MAX_DYNAMIC_MASK_BYTES_PER_JOB_def min_def split: if_splits)

lemma register_mask_keeps: "keeps command_scope_ok (register_mask value)"
  unfolding register_mask_def
proof (rule gives_bind [where Q = "\<lambda>_. True"])
  show "keeps command_scope_ok (foldA (\<lambda>_. register_candidate) () (value # split_whitespace value))"
    by (rule gives_fold [where Q = "\<lambda>_. True"]) (auto intro: register_candidate_keeps)
next
  have "sum_list (map length (sort_key f ms)) = sum_list (map length ms)" for f :: "string \<Rightarrow> int" and ms
    by (metis mset_map mset_sort sum_mset_sum_list)
  then show "keeps command_scope_ok
      (updateA (\<lambda>S. S\<lparr>scope_masks := sort_key (\<lambda>m. - int (length m)) (scope_masks S)\<rparr>))" for x :: unit
    by (intro gives_update) (auto simp: command_scope_ok_def)
qed

lemma store_legacy_value_keeps: "keeps legacy_ok (store_legacy_value name value is_state)"
proof -
  have "legacy_ok (snd (store_legacy_value name value is_state v))" if v: "legacy_ok v" for v
  proof -
    have "length (bt_insert name value (legacy_outputs v)) \<le> Suc (length (legacy_outputs v))"
      "length (bt_insert name value (legacy_state v)) \<le> Suc (length (legacy_state v))"
      by (rule length_bt_insert)+
    with v show ?thesis
      by (auto simp: store_legacy_value_def Let_def legacy_ok_def bailA_def saturating_add_def
          MAX_LEGACY_COMMAND_VALUES_PER_STEP_def min_def split: if_splits)
  qed
  moreover have "fst (store_legacy_value name value is_state v) \<noteq> Inl AgentPanic" for v
    by (auto simp: store_legacy_value_def Let_def bailA_def)
  ultimately show ?thesis by (simp add: gives_def)
qed

lemma record_legacy_value_keeps: "keeps (processor_ok W) (record_legacy_value step_id name value is_state)"
  unfolding record_legacy_value_def
  by (auto intro!: gives_rules gives_field [OF store_legacy_value_keeps] intro: put_legacy_ok step_legacy_ok)

lemma annotation_parts_no_panic:
  "annotation_coordinate properties name \<noteq> Inl AgentPanic" "normalize_annotation_path v workspace \<noteq> Inl AgentPanic"
  "annotation_columns l m start_column end_column \<noteq> Inl AgentPanic"
proof -
  show "annotation_coordinate properties name \<noteq> Inl AgentPanic"
    by (auto simp: annotation_coordinate_def result_simps split: option.split)
  have "normal_components acc cs \<noteq> Inl AgentPanic" for acc cs
    by (induction acc cs rule: normal_components.induct) auto
  then show "normalize_annotation_path v workspace \<noteq> Inl AgentPanic"
    by (auto simp: normalize_annotation_path_def Let_def result_simps)
  show "annotation_columns l m start_column end_column \<noteq> Inl AgentPanic"
    by (auto simp: annotation_columns_def split: option.split)
qed

lemma build_annotation_no_panic: "build_annotation level properties data workspace \<noteq> Inl AgentPanic"
  unfolding build_annotation_def Let_def
  by (auto simp: bindE_Inl ensure_Inl annotation_parts_no_panic case_prod_unfold)

lemma parse_workflow_annotation_no_panic: "parse_workflow_annotation line workspace \<noteq> Inl AgentPanic"
proof (cases "is_annotation_workflow_command line")
  case True
  then obtain body where "strip_prefix line ''::'' = Some body"
    by (auto simp: is_annotation_workflow_command_def split: option.splits)
  moreover have "foldE annotation_property ps qs \<noteq> Inl AgentPanic" for ps qs
    by (induction qs arbitrary: ps) (auto simp: annotation_property_def result_simps)
  ultimately show ?thesis
    by (auto simp: parse_workflow_annotation_def result_simps build_annotation_no_panic
        split: option.split prod.split)
qed (simp add: parse_workflow_annotation_def)

lemma parse_no_panic:
  "parse_named_workflow_command line command \<noteq> Inl AgentPanic" "parse_remove_matcher_command line \<noteq> Inl AgentPanic"
proof -
  show "parse_named_workflow_command line command \<noteq> Inl AgentPanic"
    by (auto simp: parse_named_workflow_command_def result_simps split: option.split)
  have "removal_of properties data \<noteq> Inl AgentPanic" for properties data
    by (auto simp: removal_of_def Let_def split: option.split)
  then show "parse_remove_matcher_command line \<noteq> Inl AgentPanic"
    by (auto simp: parse_remove_matcher_command_def result_simps split: option.split)
qed

lemmas no_panics = parse_no_panic parse_workflow_annotation_no_panic

text \<open>The rules for the methods; \<open>gives_bind_any\<close> forgets what was returned.\<close>

lemmas gives_bind_any = gives_bind [where Q = "\<lambda>_. True"]

lemma process_reported_line_keeps: "keeps (processor_ok W) (process_reported_line W step_id line)"
proof -
  have matched: "gives (processor_ok W) (registry_call (scan W scope line)) (\<lambda>r. \<forall>a. r = Some a \<longrightarrow> annotation_ok a)" for scope
    by (rule registry_call_gives [OF scan_gives])
  have parsed: "gives (processor_ok W) (liftA (parse_workflow_annotation line workspace))
      (\<lambda>r. \<forall>a. r = Some a \<longrightarrow> annotation_ok a)" for workspace
    by (rule gives_lift) (auto simp: no_panics dest: parse_annotation_ok)
  have recording: "keeps (processor_ok W) (updateA (record_annotation step_id a))" if "annotation_ok a" for a
    using that by (intro gives_update) (auto intro: record_annotation_ok)
  show ?thesis
    unfolding process_reported_line_def Let_def
    by (rule gives_bind_any [OF gives_read], simp, rule gives_bind [OF parsed], split option.split,
        auto intro!: gives_bind_any gives_bind [OF matched] recording record_legacy_value_keeps gives_rules
          simp: no_panics split: option.split)
qed

lemma remove_matcher_keeps: "keeps (processor_ok W) (remove_matcher W scope removal)"
  by (cases removal) (auto simp: remove_matcher_def intro!: registry_call_gives registry_keeps)

lemma process_command_line_keeps: "keeps (processor_ok W) (process_command_line W step_id line)"
proof -
  have mask: "keeps (processor_ok W) (fieldA (command_scope_of scope) (put_command_scope scope) (register_mask v))" for scope v
    by (rule gives_field [OF register_mask_keeps]) (auto intro: command_scope_of_ok put_command_scope_ok)
  show ?thesis
    unfolding process_command_line_def Let_def
    by (auto intro!: gives_bind_any gives_rules mask registry_call_gives registry_keeps remove_matcher_keeps
        process_reported_line_keeps intro: set_stop_token_ok simp: no_panics split: option.split)
qed

lemma process_line_keeps: "keeps (processor_ok W) (process_line W step_id line)"
  unfolding process_line_def Let_def
  by (auto intro!: gives_bind_any gives_rules process_command_line_keeps intro: set_stop_token_ok split: option.split)

lemma process_complete_log_keeps: "keeps (processor_ok W) (process_complete_log W step_id data)"
  unfolding process_complete_log_def process_segment_def
  by (rule gives_fold) (auto intro!: gives_bind_any gives_rules process_line_keeps)

text \<open>Processing lines does not touch the buffered commands, the global masks or the log marks.\<close>

definition log_frame where
  "log_frame P = (partial_commands P, global_masks P, preprocessed_logs P, fatal_error P)"

lemma log_frame_updates:
  "log_frame (put_command_scope scope S P) = log_frame P" "log_frame (set_stop_token scope token P) = log_frame P"
  "log_frame (put_legacy step v P) = log_frame P" "log_frame (put_registry r P) = log_frame P"
  "log_frame (record_annotation step a P) = log_frame P"
  by (simp_all add: log_frame_def put_command_scope_def set_stop_token_def put_legacy_def put_registry_def
      record_annotation_def Let_def)

lemma process_line_frames: "frames log_frame (process_line W step_id line)"
  unfolding process_line_def process_command_line_def process_reported_line_def remove_matcher_def registry_call_def
    record_legacy_value_def Let_def
  by (auto intro!: frames_bind frames_rules frames_update frames_field simp: log_frame_updates
      split: option.split problem_matcher_removal.split)

lemma process_complete_log_frames: "frames log_frame (process_complete_log W step_id data)"
  unfolding process_complete_log_def process_segment_def
  by (intro frames_fold frames_bind process_line_frames frames_rules)

lemma process_log_keeps: "keeps (processor_ok W) (process_log W step_id stream data)"
proof -
  have "processor_ok W (snd (process_log W step_id stream data P)) \<and> fst (process_log W step_id stream data P) \<noteq> Inl AgentPanic"
    if P: "processor_ok W P" for P
  proof -
    have complete: "processor_ok W Q \<Longrightarrow> processor_ok W (snd (process_complete_log W step_id d Q)) \<and>
        fst (process_complete_log W step_id d Q) \<noteq> Inl AgentPanic" for d Q
      using process_complete_log_keeps [of W step_id d] by (auto simp: gives_def)
    show ?thesis
      using P by (auto simp: process_log_def Let_def bailA_def complete put_partial_ok remove_partial_ok split: option.split)
  qed
  then show ?thesis by (simp add: gives_def)
qed

lemma finish_partial_ok:
  assumes "processor_ok W P" "bt_get (partial_commands P) key = Some data" "finish_partial W step_id u key P = (r, Q)"
  shows "processor_ok W Q \<and> r \<noteq> Inl AgentPanic \<and> partial_commands Q = bt_remove key (partial_commands P)"
proof -
  let ?m = "bindA (process_complete_log W step_id data) (\<lambda>_. retA ())"
  have keep: "keeps (processor_ok W) ?m"
    by (intro gives_bind_any process_complete_log_keeps gives_rules) simp
  have frame: "frames log_frame ?m"
    by (intro frames_bind process_complete_log_frames frames_rules)
  have run: "?m (remove_partial key P) = (r, Q)"
    using assms(2,3) by (simp add: finish_partial_def)
  then have "log_frame Q = log_frame (remove_partial key P)" using frame by (metis frames_def snd_conv)
  with gives_run [OF keep remove_partial_ok [OF assms(1)] run] show ?thesis
    by (simp add: log_frame_def remove_partial_def)
qed

lemma finish_partials_ok:
  "processor_ok W P \<Longrightarrow> distinct keys \<Longrightarrow> \<forall>k\<in>set keys. bt_get (partial_commands P) k \<noteq> None \<Longrightarrow>
    foldA (finish_partial W step_id) u keys P = (r, Q) \<Longrightarrow> processor_ok W Q \<and> r \<noteq> Inl AgentPanic"
proof (induction keys arbitrary: P u)
  case (Cons k keys)
  then obtain data where d: "bt_get (partial_commands P) k = Some data" by auto
  obtain r' P' where step: "finish_partial W step_id () k P = (r', P')" by (cases "finish_partial W step_id () k P")
  note ok = finish_partial_ok [OF Cons.prems(1) d step]
  show ?case
  proof (cases r')
    case (Inl e)
    then show ?thesis using Cons.prems(4) ok by (simp add: bindA_def step)
  next
    case (Inr x)
    moreover have "\<forall>j\<in>set keys. bt_get (partial_commands P') j \<noteq> None"
      using ok Cons.prems(2,3) by (auto simp: bt_get_remove)
    ultimately show ?thesis using Cons.IH [of P' x] Cons.prems(2,4) ok by (simp add: bindA_def step)
  qed
qed (auto simp: retA_def)

lemma finish_step_state_ok: "processor_ok W P \<Longrightarrow> processor_ok W (finish_step_state step_id P)"
proof -
  assume P: "processor_ok W P"
  have clear: "processor_ok W (put_command_scope scope (S\<lparr>stop_token := None\<rparr>) P)"
    if "bt_get (command_scopes P) scope = Some S" for scope S
  proof -
    have "command_scope_ok S" using that P by (simp add: processor_ok_def)
    then show ?thesis by (intro put_command_scope_ok [OF P]) (simp add: command_scope_ok_def)
  qed
  have reset: "processor_ok W Q \<Longrightarrow> processor_ok W (Q\<lparr>matcher_registry := reset_scope scope (matcher_registry Q),
      legacy_values := bt_remove step_id (legacy_values Q)\<rparr>)" for Q scope
    by (auto simp: processor_ok_def annotations_ok_def reset_scope_ok bt_wf_remove bt_get_remove split: if_splits)
  from P clear show ?thesis
    unfolding finish_step_state_def Let_def by (intro reset) (simp split: option.split)
qed

lemma finish_step_keeps: "keeps (processor_ok W) (finish_step W step_id)"
proof -
  have "processor_ok W (snd (finish_step W step_id P)) \<and> fst (finish_step W step_id P) \<noteq> Inl AgentPanic"
    if P: "processor_ok W P" for P
  proof -
    let ?keys = "filter (\<lambda>key. fst key = step_id) (bt_keys (partial_commands P))"
    obtain r Q where run: "foldA (finish_partial W step_id) () ?keys P = (r, Q)"
      by (cases "foldA (finish_partial W step_id) () ?keys P")
    have "distinct ?keys" using P by (auto simp: processor_ok_def dest: bt_wf_distinct)
    moreover have "\<forall>k\<in>set ?keys. bt_get (partial_commands P) k \<noteq> None" by (auto simp: map_of_eq_None_iff)
    ultimately have "processor_ok W Q \<and> r \<noteq> Inl AgentPanic" using finish_partials_ok [OF P _ _ run] by blast
    then show ?thesis
      by (cases r) (auto simp: finish_step_def bindA_def readA_def run updateA_def finish_step_state_ok)
  qed
  then show ?thesis by (simp add: gives_def)
qed

lemma finish_stream_keeps: "keeps (processor_ok W) (finish_stream W step_id stream)"
proof -
  have "finish_stream W step_id stream P = (Inr (), P) \<or>
    (\<exists>data. bt_get (partial_commands P) (step_id, log_stream_key stream) = Some data \<and>
      finish_stream W step_id stream P = finish_partial W step_id () (step_id, log_stream_key stream) P)" for P
    by (auto simp: finish_stream_def finish_partial_def Let_def split: option.split)
  then show ?thesis unfolding gives_def
    by (metis (no_types, lifting) finish_partial_ok Inl_Inr_False fst_conv snd_conv surj_pair)
qed

section \<open>Any sequence of calls\<close>

datatype processor_op =
    MarkLog uuid
  | TakeLog uuid
  | CommandWorkspace string string
  | GlobalMask string
  | FailProcessor string
  | ProcessLog string log_stream string
  | TakeAnnotations
  | TakeOutputs string
  | TakeState string
  | FinishStep string
  | FinishStream string log_stream

fun processor_act ::
  "'rx matcher_world \<Rightarrow> processor_op \<Rightarrow> ('rx processor, check_annotation list option) act"
where
  "processor_act W (MarkLog i) = bindA (updateA (mark_preprocessed_log i)) (\<lambda>_. retA None)"
| "processor_act W (TakeLog i) = bindA (updateA (\<lambda>P. snd (take_preprocessed_log i P))) (\<lambda>_. retA None)"
| "processor_act W (CommandWorkspace scope w) = bindA (updateA (register_command_workspace scope w)) (\<lambda>_. retA None)"
| "processor_act W (GlobalMask m) = bindA (updateA (register_global_mask m)) (\<lambda>_. retA None)"
| "processor_act W (FailProcessor e) = bindA (updateA (fail_processor e)) (\<lambda>_. retA None)"
| "processor_act W (ProcessLog step_id stream data) = bindA (process_log W step_id stream data) (\<lambda>_. retA None)"
| "processor_act W TakeAnnotations = (\<lambda>P. case take_annotations P of (as, P') \<Rightarrow> (Inr (Some as), P'))"
| "processor_act W (TakeOutputs step_id) = bindA (take_legacy_outputs step_id) (\<lambda>_. retA None)"
| "processor_act W (TakeState step_id) = bindA (take_legacy_state step_id) (\<lambda>_. retA None)"
| "processor_act W (FinishStep step_id) = bindA (finish_step W step_id) (\<lambda>_. retA None)"
| "processor_act W (FinishStream step_id stream) = bindA (finish_stream W step_id stream) (\<lambda>_. retA None)"

definition report_ok :: "check_annotation list \<Rightarrow> bool" where
  "report_ok as \<longleftrightarrow> length as \<le> MAX_CHECK_ANNOTATIONS \<and> (\<forall>a\<in>set as. annotation_ok a)"

lemma processor_updates_ok:
  assumes "processor_ok W P"
  shows "processor_ok W (mark_preprocessed_log i P)" "processor_ok W (snd (take_preprocessed_log i P))"
    "processor_ok W (register_command_workspace scope w P)" "processor_ok W (register_global_mask m P)"
    "processor_ok W (fail_processor e P)" "processor_ok W (snd (take_annotations P))"
  using assms
  by (auto simp: processor_ok_def annotations_ok_def mark_preprocessed_log_def take_preprocessed_log_def
      register_command_workspace_def register_workspace_ok register_global_mask_def fail_processor_def
      take_annotations_def split: option.split)

lemma take_legacy_keeps:
  "keeps (processor_ok W) (take_legacy_outputs step_id)" "keeps (processor_ok W) (take_legacy_state step_id)"
proof -
  have cleared: "processor_ok W (put_legacy step_id (v\<lparr>legacy_outputs := []\<rparr>) P)"
    "processor_ok W (put_legacy step_id (v\<lparr>legacy_state := []\<rparr>) P)"
    if "processor_ok W P" "bt_get (legacy_values P) step_id = Some v" for P v
  proof -
    have "legacy_ok v" using that by (simp add: processor_ok_def)
    then show "processor_ok W (put_legacy step_id (v\<lparr>legacy_outputs := []\<rparr>) P)"
      "processor_ok W (put_legacy step_id (v\<lparr>legacy_state := []\<rparr>) P)"
      by (auto intro!: put_legacy_ok [OF that(1)] simp: legacy_ok_def)
  qed
  have healthy: "ensure_healthy P \<noteq> Inl AgentPanic" for P :: "'a processor"
    by (simp add: ensure_healthy_def split: option.split)
  show "keeps (processor_ok W) (take_legacy_outputs step_id)" "keeps (processor_ok W) (take_legacy_state step_id)"
    by (auto simp: gives_def take_legacy_outputs_def take_legacy_state_def cleared healthy
        split: sum.split option.split)
qed

interpretation processor: guarded_object "processor_act W" "processor_ok W" report_ok
proof
  fix op
  have taken: "gives (processor_ok W) (processor_act W TakeAnnotations) (\<lambda>r. \<forall>as. r = Some as \<longrightarrow> report_ok as)"
    using processor_updates_ok(6)
    by (auto simp: gives_def take_annotations_def processor_ok_def annotations_ok_def report_ok_def)
  show "gives (processor_ok W) (processor_act W op) (\<lambda>r. \<forall>as. r = Some as \<longrightarrow> report_ok as)"
    using taken
    by (cases op)
      (auto intro!: gives_bind_any gives_rules process_log_keeps finish_step_keeps finish_stream_keeps take_legacy_keeps
        intro: processor_updates_ok)
qed

lemma with_global_masks_ok: "processor_ok W (with_global_masks masks workspace root)"
  by (simp add: processor_ok_def with_global_masks_def annotations_ok_def new_registry_ok)



section \<open>A mask takes effect\<close>

lemma register_candidate_Inr:
  "register_candidate c S = (Inr u, S') \<Longrightarrow> set (scope_masks S) \<subseteq> set (scope_masks S') \<and> (c \<noteq> [] \<longrightarrow> c \<in> set (scope_masks S'))"
  by (auto simp: register_candidate_def bailA_def split: if_splits)

lemma register_candidates_Inr:
  "foldA (\<lambda>_. register_candidate) () cs S = (Inr u', S') \<Longrightarrow>
    set (scope_masks S) \<subseteq> set (scope_masks S') \<and> (\<forall>c\<in>set cs. c \<noteq> [] \<longrightarrow> c \<in> set (scope_masks S'))"
proof (induction cs arbitrary: S)
  case (Cons c cs)
  obtain r T where step: "register_candidate c S = (r, T)" by (cases "register_candidate c S")
  with Cons.prems obtain u where r: "r = Inr u" by (cases r) (auto simp: bindA_def)
  have rest: "foldA (\<lambda>_. register_candidate) () cs T = (Inr u', S')" using Cons.prems by (simp add: bindA_def step r)
  from register_candidate_Inr [OF step [unfolded r]] Cons.IH [OF rest] show ?case by auto
qed (simp add: retA_def)

lemma register_mask_Inr:
  assumes "register_mask v S = (Inr u, S')"
  shows "v \<noteq> [] \<longrightarrow> v \<in> set (scope_masks S')" "\<forall>w\<in>set (split_whitespace v). w \<noteq> [] \<longrightarrow> w \<in> set (scope_masks S')"
proof -
  obtain r T where run: "foldA (\<lambda>_. register_candidate) () (v # split_whitespace v) S = (r, T)"
    by (cases "foldA (\<lambda>_. register_candidate) () (v # split_whitespace v) S")
  with assms obtain u' where r: "r = Inr u'" by (cases r) (auto simp: register_mask_def bindA_def)
  then have "set (scope_masks S') = set (scope_masks T)"
    using assms run by (auto simp: register_mask_def bindA_def updateA_def)
  with register_candidates_Inr [OF run [unfolded r]]
  show "v \<noteq> [] \<longrightarrow> v \<in> set (scope_masks S')" "\<forall>w\<in>set (split_whitespace v). w \<noteq> [] \<longrightarrow> w \<in> set (scope_masks S')" by auto
qed

lemma mask_for_step_masks:
  assumes "bt_get (command_scopes P) (workflow_command_scope step_id) = Some S" "s \<in> set (scope_masks S)" "maskable s"
  shows "\<not> contains_str (mask_for_step step_id P printed) s"
  using assms by (simp add: mask_for_step_def mask_text_masks)

lemma utf8_first:
  assumes "utf8_ok (c # s)"
  shows "\<not> utf8_continuation c"
  using assms by (auto simp: utf8_ok_Cons utf8_char_ok_def utf8_continuation_def split: list.splits)

lemma strip_command_prefix:
  assumes "rest = [] \<or> \<not> utf8_continuation (hd rest)"
  shows "strip_prefix_ignore_ascii_case (p @ rest) p = Some rest"
  using assms
  by (cases rest) (auto simp: strip_prefix_ignore_ascii_case_def is_char_boundary_def eq_ignore_ascii_case_def)

lemma strip_add_mask:
  assumes "utf8_ok v"
  shows "strip_prefix_ignore_ascii_case (''::add-mask::'' @ concat (map escape_data_char v)) ''::add-mask::'' =
    Some (concat (map escape_data_char v))"
proof (rule strip_command_prefix)
  show "concat (map escape_data_char v) = [] \<or> \<not> utf8_continuation (hd (concat (map escape_data_char v)))"
    using assms utf8_first [of "hd v" "tl v"] by (cases v) (auto simp: escape_data_char_def utf8_continuation_def)
qed

lemma split_by_parts: "x \<in> set (split_by P xs) \<Longrightarrow> set x \<subseteq> set xs"
proof (induction xs arbitrary: x)
  case (Cons y xs)
  then show ?case by (cases "split_by P xs") (force split: if_splits)+
qed simp

lemma split_whitespace_parts:
  assumes "w \<in> set (split_whitespace s)"
  shows "w \<noteq> []" "set w \<subseteq> set s"
proof -
  from assms obtain cs where cs: "cs \<in> set (split_by is_whitespace (utf8_chars s))" "w = concat cs" "w \<noteq> []"
    by (auto simp: split_whitespace_def)
  then show "w \<noteq> []" by simp
  have "set (concat cs) \<subseteq> set (concat (utf8_chars s))"
    using split_by_parts [OF cs(1)] by (auto simp del: concat_utf8_chars)
  then show "set w \<subseteq> set s" by (simp only: cs(2) concat_utf8_chars)
qed



end
