(* ===== verification/Log_Relay.thy ===== *)
theory Log_Relay
  imports Workflow_Commands
begin

text \<open>
  The way of a job's output to the control plane (\<open>gitzero-agent/src/executor.rs\<close>): the output
  of processes is cut into chunks, commands in it are processed, and the relay masks every
  message it forwards.
\<close>

section \<open>Secrets of a run\<close>

definition secret_markers :: "string list" where
  "secret_markers = [''TOKEN'', ''SECRET'', ''PASSWORD'', ''PRIVATE_KEY'', ''API_KEY'']"

definition ascii_upper :: "char \<Rightarrow> char" where
  "ascii_upper c = (if is_ascii_lowercase c then char_of (byte_of c - 32) else c)"

text \<open>\<open>base64\<close> stands for \<open>STANDARD.encode\<close> of the crate of that name.\<close>

definition token_credential :: "(string \<Rightarrow> string) \<Rightarrow> string \<Rightarrow> string" where
  "token_credential base64 token = base64 (''x-access-token:'' @ token)"

definition is_secret_variable :: "string \<times> string \<Rightarrow> bool" where
  "is_secret_variable entry \<longleftrightarrow> length (snd entry) \<ge> 8 \<and>
    list_ex (contains_str (map ascii_upper (fst entry))) secret_markers"

definition secret_values :: "(string \<Rightarrow> string) \<Rightarrow> run_spec \<Rightarrow> string list" where
  "secret_values base64 run =
    (let token = checkout_token run; credential = token_credential base64 token in
     remdups_adj (sort_masks (
       (if token \<noteq> [] then [token, credential, ''AUTHORIZATION: basic '' @ credential] else []) @
       map snd (filter is_secret_variable (environment run)))))"

definition register_repository_token_masks :: "(string \<Rightarrow> string) \<Rightarrow> string \<Rightarrow> 'rx processor \<Rightarrow> 'rx processor" where
  "register_repository_token_masks base64 token P =
    register_global_mask token (register_global_mask (token_credential base64 token)
      (register_global_mask (''AUTHORIZATION: basic '' @ token_credential base64 token) P))"

definition register_managed_secret_masks :: "(string \<times> string) list \<Rightarrow> 'rx processor \<Rightarrow> 'rx processor" where
  "register_managed_secret_masks secrets P =
    fold register_global_mask (filter (\<lambda>v. v \<noteq> []) (bt_values secrets)) P"

definition valid_managed_secret_name :: "string \<Rightarrow> bool" where
  "valid_managed_secret_name name \<longleftrightarrow>
    (case name of
      [] \<Rightarrow> False
    | c # rest \<Rightarrow> (is_ascii_uppercase c \<or> c = CHR ''_'') \<and>
        list_all (\<lambda>b. is_ascii_uppercase b \<or> is_ascii_digit b \<or> b = CHR ''_'') rest) \<and>
    \<not> starts_with name ''GITHUB_''"

section \<open>The relay\<close>

definition mask_annotation :: "string list \<Rightarrow> 'rx processor \<Rightarrow> check_annotation \<Rightarrow> check_annotation" where
  "mask_annotation secrets P a =
    (let mask = (\<lambda>t. mask_all P (mask_text secrets t)) in
     bound_masked_annotation (a\<lparr>ca_path := mask (ca_path a), ca_message := mask (ca_message a),
       ca_title := map_option mask (ca_title a)\<rparr>))"

text \<open>The chunk of a log message after its commands have been processed, unless they were before.\<close>

definition relay_data ::
  "'rx matcher_world \<Rightarrow> uuid \<Rightarrow> string \<Rightarrow> log_stream \<Rightarrow> string \<Rightarrow> ('rx processor, string) act"
where
  "relay_data W i step_id stream data P =
    (case take_preprocessed_log i P of (preprocessed, P) \<Rightarrow>
     if \<not> preprocessed \<and> (stream = Stdout \<or> stream = Stderr) then process_log W step_id stream data P
     else (Inr data, P))"

text \<open>One turn of the loop in \<open>relay_masked_events\<close>: what is forwarded, if anything.\<close>

fun relay_message ::
  "'rx matcher_world \<Rightarrow> string list \<Rightarrow> agent_message \<Rightarrow> ('rx processor, agent_message option) act"
where
  "relay_message W secrets (StepStarted i job step_id name) =
    bindA (readA ensure_healthy) (\<lambda>healthy. bindA (liftA healthy) (\<lambda>_.
    readA (\<lambda>P. Some (StepStarted i job step_id (mask_for_step step_id P (mask_text secrets name))))))"
| "relay_message W secrets (LogChunk i job step_id n stream data) =
    bindA (readA ensure_healthy) (\<lambda>healthy. bindA (liftA healthy) (\<lambda>_.
    bindA (relay_data W i step_id stream data) (\<lambda>data.
    if data = [] then retA None
    else readA (\<lambda>P. Some (LogChunk i job step_id n stream (mask_for_step step_id P (mask_text secrets data)))))))"
| "relay_message W secrets (StepFinished i job step_id c code) =
    bindA (readA ensure_healthy) (\<lambda>healthy. bindA (liftA healthy) (\<lambda>_.
    bindA (finish_step W step_id) (\<lambda>_. retA (Some (StepFinished i job step_id c code)))))"
| "relay_message W secrets (JobFinished i job c summary annotations) =
    bindA (readA ensure_healthy) (\<lambda>healthy. bindA (liftA healthy) (\<lambda>_.
    (\<lambda>P. case take_annotations P of (taken, P) \<Rightarrow>
      (Inr (Some (JobFinished i job c (mask_all P (mask_text secrets summary)) (map (mask_annotation secrets P) taken))), P))))"
| "relay_message W secrets (JobRejected i job requirements reason) =
    bindA (readA ensure_healthy) (\<lambda>healthy. bindA (liftA healthy) (\<lambda>_.
    readA (\<lambda>P. Some (JobRejected i job requirements (mask_all P (mask_text secrets reason))))))"
| "relay_message W secrets message =
    bindA (readA ensure_healthy) (\<lambda>healthy. bindA (liftA healthy) (\<lambda>_. retA (Some message)))"

section \<open>Chunks of process output\<close>

text \<open>\<open>position(|byte| *byte == b'\\n')\<close>.\<close>

fun newline_position :: "string \<Rightarrow> nat option" where
  "newline_position [] = None"
| "newline_position (c # s) = (if c = newline then Some 0 else map_option Suc (newline_position s))"

text \<open>
  The inner loop of \<open>forward_output\<close> over the bytes of one read. The fuel bounds its turns;
  \<open>None\<close> is a loop that does not end.
\<close>

primrec chunk_loop :: "nat \<Rightarrow> string \<Rightarrow> string \<Rightarrow> (string list \<times> string) option" where
  "chunk_loop 0 pending remaining = (if remaining = [] then Some ([], pending) else None)"
| "chunk_loop (Suc fuel) pending remaining =
    (if remaining = [] then Some ([], pending)
     else
       let found = newline_position remaining;
           through = (case found of None \<Rightarrow> length remaining | Some p \<Rightarrow> p + 1);
           taken = min through (MAX_LOG_CHUNK_BYTES - length pending);
           extended = pending @ take taken remaining;
           rest = drop taken remaining in
       if length extended = MAX_LOG_CHUNK_BYTES \<or> (found \<noteq> None \<and> taken = through)
       then map_option (\<lambda>(ready, p). (extended # ready, p)) (chunk_loop fuel [] rest)
       else chunk_loop fuel extended rest)"

text \<open>\<open>String::from_utf8_lossy\<close>: a maximal prefix of a character that is not one becomes U+FFFD.\<close>

definition replacement_character :: string where
  "replacement_character = [CHR 0xEF, CHR 0xBF, CHR 0xBD]"

text \<open>The length announced by a first byte, and the range of the second byte.\<close>

definition lead_byte :: "nat \<Rightarrow> (nat \<times> nat \<times> nat) option" where
  "lead_byte b =
    (if 0xC2 \<le> b \<and> b \<le> 0xDF then Some (2, 0x80, 0xBF)
     else if b = 0xE0 then Some (3, 0xA0, 0xBF)
     else if b = 0xED then Some (3, 0x80, 0x9F)
     else if 0xE1 \<le> b \<and> b \<le> 0xEF then Some (3, 0x80, 0xBF)
     else if b = 0xF0 then Some (4, 0x90, 0xBF)
     else if 0xF1 \<le> b \<and> b \<le> 0xF3 then Some (4, 0x80, 0xBF)
     else if b = 0xF4 then Some (4, 0x80, 0x8F) else None)"

text \<open>How many bytes at the start are a character or a maximal prefix of one.\<close>

definition char_extent :: "char \<Rightarrow> string \<Rightarrow> nat \<times> bool" where
  "char_extent c s =
    (if byte_of c < 128 then (1, True)
     else (case lead_byte (byte_of c) of
       None \<Rightarrow> (1, False)
     | Some (n, lo, hi) \<Rightarrow>
         if s = [] \<or> byte_of (hd s) < lo \<or> hi < byte_of (hd s) then (1, False)
         else let m = 2 + length (takeWhile utf8_continuation (take (n - 2) (tl s))) in (m, m = n)))"

function from_utf8_lossy :: "string \<Rightarrow> string" where
  "from_utf8_lossy [] = []"
| "from_utf8_lossy (c # s) =
    (case char_extent c s of (n, valid) \<Rightarrow>
     (if valid then take n (c # s) else replacement_character) @ from_utf8_lossy (drop (n - 1) s))"
  by pat_completeness auto
termination
  by (relation "measure length") auto

definition prepare_workflow_log ::
  "'rx matcher_world \<Rightarrow> string \<Rightarrow> log_stream \<Rightarrow> string \<Rightarrow> 'rx processor \<Rightarrow> string option \<times> 'rx processor"
where
  "prepare_workflow_log W step_id stream data P =
    (case process_log W step_id stream data P of
      (Inl (Bail e), P) \<Rightarrow> (None, fail_processor e P)
    | (Inl AgentPanic, P) \<Rightarrow> (None, P)
    | (Inr visible, P) \<Rightarrow> (Some (mask_for_step step_id P visible), P))"

text \<open>
  The loop over the ready chunks: what is sent. The ids come from a supply, and the number of
  sent messages tells which sends fail because the channel is closed.
\<close>

record 'rx forward_state =
  fw_processor :: "'rx processor"
  fw_sent :: "(uuid \<times> string) list"

definition send_log :: "(nat \<Rightarrow> uuid) \<Rightarrow> (nat \<Rightarrow> bool) \<Rightarrow> string \<Rightarrow> 'rx forward_state \<Rightarrow> bool \<times> 'rx forward_state" where
  "send_log ids closed data F =
    (let n = length (fw_sent F); P = mark_preprocessed_log (ids n) (fw_processor F) in
     if closed n then (False, F\<lparr>fw_processor := P\<rparr>)
     else (True, F\<lparr>fw_processor := P, fw_sent := fw_sent F @ [(ids n, data)]\<rparr>))"

definition forward_chunk ::
  "'rx matcher_world \<Rightarrow> (nat \<Rightarrow> uuid) \<Rightarrow> (nat \<Rightarrow> bool) \<Rightarrow> string \<Rightarrow> log_stream \<Rightarrow> string \<Rightarrow>
    'rx forward_state \<Rightarrow> bool \<times> 'rx forward_state"
where
  "forward_chunk W ids closed step_id stream bytes F =
    (case prepare_workflow_log W step_id stream (from_utf8_lossy bytes) (fw_processor F) of
      (None, P) \<Rightarrow> (False, F\<lparr>fw_processor := P\<rparr>)
    | (Some data, P) \<Rightarrow>
        if data = [] then (True, F\<lparr>fw_processor := P\<rparr>) else send_log ids closed data (F\<lparr>fw_processor := P\<rparr>))"

fun forward_chunks ::
  "'rx matcher_world \<Rightarrow> (nat \<Rightarrow> uuid) \<Rightarrow> (nat \<Rightarrow> bool) \<Rightarrow> string \<Rightarrow> log_stream \<Rightarrow> string list \<Rightarrow>
    'rx forward_state \<Rightarrow> bool \<times> 'rx forward_state"
where
  "forward_chunks W ids closed step_id stream [] F = (True, F)"
| "forward_chunks W ids closed step_id stream (c # cs) F =
    (case forward_chunk W ids closed step_id stream c F of
      (False, F) \<Rightarrow> (False, F)
    | (True, F) \<Rightarrow> forward_chunks W ids closed step_id stream cs F)"

text \<open>The end of the stream: what is pending is sent, and a buffered command is completed.\<close>

definition finish_output ::
  "'rx matcher_world \<Rightarrow> (nat \<Rightarrow> uuid) \<Rightarrow> (nat \<Rightarrow> bool) \<Rightarrow> string \<Rightarrow> log_stream \<Rightarrow> string \<Rightarrow>
    'rx forward_state \<Rightarrow> 'rx forward_state"
where
  "finish_output W ids closed step_id stream pending F =
    (case forward_chunks W ids closed step_id stream (if pending = [] then [] else [pending]) F of
      (False, F) \<Rightarrow> F
    | (True, F) \<Rightarrow>
        (case finish_stream W step_id stream (fw_processor F) of
          (Inl (Bail e), P) \<Rightarrow> F\<lparr>fw_processor := fail_processor e P\<rparr>
        | (Inl AgentPanic, P) \<Rightarrow> F\<lparr>fw_processor := P\<rparr>
        | (Inr _, P) \<Rightarrow> F\<lparr>fw_processor := P\<rparr>))"

text \<open>
  \<open>forward_output\<close> on the reads of a stream: a read returns bytes, none at its end, or fails.
\<close>

fun forward_output ::
  "'rx matcher_world \<Rightarrow> (nat \<Rightarrow> uuid) \<Rightarrow> (nat \<Rightarrow> bool) \<Rightarrow> string \<Rightarrow> log_stream \<Rightarrow> string \<Rightarrow> string option list \<Rightarrow>
    'rx forward_state \<Rightarrow> 'rx forward_state option"
where
  "forward_output W ids closed step_id stream pending [] F = None"
| "forward_output W ids closed step_id stream pending (None # reads) F = Some F"
| "forward_output W ids closed step_id stream pending (Some bytes # reads) F =
    (if bytes = [] then Some (finish_output W ids closed step_id stream pending F)
     else
       Option.bind (chunk_loop (length bytes) pending bytes) (\<lambda>(ready, pending).
       case forward_chunks W ids closed step_id stream ready F of
         (False, F) \<Rightarrow> Some F
       | (True, F) \<Rightarrow> forward_output W ids closed step_id stream pending reads F))"

section \<open>What the relay forwards is masked\<close>

text \<open>The texts of a message that can hold output; \<open>.github\<close> stands for a path that was too long.\<close>

definition annotation_texts :: "check_annotation \<Rightarrow> string list" where
  "annotation_texts a = (if ca_path a = ''.github'' then [] else [ca_path a]) @ [ca_message a] @
    (case ca_title a of None \<Rightarrow> [] | Some t \<Rightarrow> [t])"

fun relayed_texts :: "agent_message \<Rightarrow> string list" where
  "relayed_texts (StepStarted i job step_id name) = [name]"
| "relayed_texts (LogChunk i job step_id n stream data) = [data]"
| "relayed_texts (JobFinished i job c summary as) = summary # concat (map annotation_texts as)"
| "relayed_texts (JobRejected i job requirements reason) = [reason]"
| "relayed_texts _ = []"

text \<open>The dynamic masks a message is subject to: those of its job, or of all jobs at the end of a run.\<close>

fun message_masks :: "'rx processor \<Rightarrow> agent_message \<Rightarrow> string set" where
  "message_masks P (StepStarted i job step_id name) = set (scope_masks (command_scope_of (workflow_command_scope step_id) P))"
| "message_masks P (LogChunk i job step_id n stream data) = set (scope_masks (command_scope_of (workflow_command_scope step_id) P))"
| "message_masks P (JobFinished i job c summary as) = (\<Union>S\<in>set (bt_values (command_scopes P)). set (scope_masks S))"
| "message_masks P (JobRejected i job requirements reason) = (\<Union>S\<in>set (bt_values (command_scopes P)). set (scope_masks S))"
| "message_masks P _ = {}"

lemma mask_for_step_keeps: "contains_str (mask_for_step step_id P v) s \<Longrightarrow> maskable s \<Longrightarrow> contains_str v s"
  by (auto simp: mask_for_step_def dest!: mask_text_keeps split: option.splits)

lemma mask_for_step_hides:
  assumes "maskable s" "s \<in> set (global_masks P) \<union> set (scope_masks (command_scope_of (workflow_command_scope step_id) P))"
  shows "\<not> contains_str (mask_for_step step_id P v) s"
  using assms mask_text_masks [of s "global_masks P" v] mask_text_masks [of s] mask_text_keeps [of _ "mask_text (global_masks P) v" s]
  by (auto simp: mask_for_step_def command_scope_of_def default_scope_def split: option.splits)

lemma mask_all_keeps: "contains_str (mask_all P v) s \<Longrightarrow> maskable s \<Longrightarrow> contains_str v s"
proof -
  have "contains_str (fold (\<lambda>S. mask_text (scope_masks S)) Ss u) s \<Longrightarrow> maskable s \<Longrightarrow> contains_str u s" for Ss u
    by (induction Ss arbitrary: u) (auto dest: mask_text_keeps)
  then show "contains_str (mask_all P v) s \<Longrightarrow> maskable s \<Longrightarrow> contains_str v s"
    unfolding mask_all_def by (blast dest: mask_text_keeps)
qed

lemma mask_all_hides:
  assumes "maskable s" "s \<in> set (global_masks P) \<union> (\<Union>S\<in>set (bt_values (command_scopes P)). set (scope_masks S))"
  shows "\<not> contains_str (mask_all P v) s"
proof -
  let ?fold = "\<lambda>Ss u. fold (\<lambda>S. mask_text (scope_masks S)) Ss u"
  have keep: "contains_str (?fold Ss u) s \<Longrightarrow> contains_str u s" for Ss u
    using assms(1) by (induction Ss arbitrary: u) (auto dest: mask_text_keeps)
  have scope: "\<not> contains_str (?fold Ss u) s" if "S \<in> set Ss" "s \<in> set (scope_masks S)" for S Ss u
    using that
  proof (induction Ss arbitrary: u)
    case (Cons T Ss)
    then show ?case
      using keep [of Ss "mask_text (scope_masks T) u"] mask_text_masks [OF _ assms(1), of "scope_masks T" u] by auto
  qed simp
  show ?thesis
  proof (cases "s \<in> set (global_masks P)")
    case True
    then show ?thesis
      using keep [of "bt_values (command_scopes P)"] mask_text_masks [OF True assms(1), of v] unfolding mask_all_def by blast
  next
    case False
    then obtain S where "S \<in> set (bt_values (command_scopes P))" "s \<in> set (scope_masks S)" using assms(2) by auto
    then show ?thesis unfolding mask_all_def by (rule scope)
  qed
qed

text \<open>Hidden from every text a job can produce: the secrets of the run, the global masks, some dynamic masks.\<close>

lemma step_text_hidden:
  assumes "maskable s"
    "s \<in> set secrets \<union> set (global_masks P) \<union> set (scope_masks (command_scope_of (workflow_command_scope step_id) P))"
  shows "\<not> contains_str (mask_for_step step_id P (mask_text secrets v)) s"
  using assms mask_text_masks [of s secrets v] mask_for_step_keeps [OF _ assms(1), of step_id P "mask_text secrets v"]
    mask_for_step_hides [OF assms(1), of P step_id "mask_text secrets v"] by blast

lemma all_text_hidden:
  assumes "maskable s"
    "s \<in> set secrets \<union> set (global_masks P) \<union> (\<Union>S\<in>set (bt_values (command_scopes P)). set (scope_masks S))"
  shows "\<not> contains_str (mask_all P (mask_text secrets v)) s"
  using assms mask_text_masks [of s secrets v] mask_all_keeps [OF _ assms(1), of P "mask_text secrets v"]
    mask_all_hides [OF assms(1), of P "mask_text secrets v"] by blast

lemma masked_annotation_hides:
  assumes "maskable s" "t \<in> set (annotation_texts (mask_annotation secrets P a))"
    "s \<in> set secrets \<union> set (global_masks P) \<union> (\<Union>S\<in>set (bt_values (command_scopes P)). set (scope_masks S))"
  shows "\<not> contains_str t s"
proof -
  let ?mask = "\<lambda>t. mask_all P (mask_text secrets t)"
  have hidden: "\<not> contains_str (?mask v) s" for v by (rule all_text_hidden [OF assms(1,3)])
  then have cut: "\<not> contains_str (truncate_utf8 n (?mask v)) s" for n v using truncate_utf8_props(3) by blast
  from assms(2) hidden cut show ?thesis
    by (auto simp: annotation_texts_def mask_annotation_def bound_masked_annotation_def truncate_utf8_bytes_def Let_def
        split: if_splits option.splits)
qed

lemma healthy_bind:
  assumes "bindA (readA ensure_healthy) (\<lambda>healthy. bindA (liftA healthy) (\<lambda>_. m)) P = (Inr x, P')"
  shows "m P = (Inr x, P')"
  using assms by (cases "ensure_healthy P") (auto simp: bindA_def readA_def liftA_def)

lemma relay_hidden:
  assumes "relay_message W secrets m P = (Inr (Some m'), P')" "t \<in> set (relayed_texts m')" "maskable s"
    "s \<in> set secrets \<union> set (global_masks P') \<union> message_masks P' m'"
  shows "\<not> contains_str t s"
proof (cases m)
  case (StepStarted i job step_id name)
  from healthy_bind [OF assms(1) [unfolded StepStarted relay_message.simps]]
  have m': "m' = StepStarted i job step_id (mask_for_step step_id P' (mask_text secrets name))" by (auto simp: readA_def)
  from assms(2,4) show ?thesis
    unfolding m' relayed_texts.simps message_masks.simps by (simp add: step_text_hidden [OF assms(3)])
next
  case (LogChunk i job step_id n stream data)
  from healthy_bind [OF assms(1) [unfolded LogChunk relay_message.simps]] obtain d where
    m': "m' = LogChunk i job step_id n stream (mask_for_step step_id P' (mask_text secrets d))"
    by (auto simp: bindA_def readA_def retA_def split: prod.splits sum.splits if_splits)
  from assms(2,4) show ?thesis
    unfolding m' relayed_texts.simps message_masks.simps by (simp add: step_text_hidden [OF assms(3)])
next
  case (JobFinished i job c summary as)
  from healthy_bind [OF assms(1) [unfolded JobFinished relay_message.simps]] obtain taken where
    m': "m' = JobFinished i job c (mask_all P' (mask_text secrets summary)) (map (mask_annotation secrets P') taken)"
    by (auto split: prod.splits)
  note s = assms(4) [unfolded m' message_masks.simps]
  from assms(2) consider "t = mask_all P' (mask_text secrets summary)"
    | a where "t \<in> set (annotation_texts (mask_annotation secrets P' a))" unfolding m' by auto
  then show ?thesis by cases (use all_text_hidden [OF assms(3) s] masked_annotation_hides [OF assms(3) _ s] in auto)
next
  case (JobRejected i job requirements reason)
  from healthy_bind [OF assms(1) [unfolded JobRejected relay_message.simps]]
  have m': "m' = JobRejected i job requirements (mask_all P' (mask_text secrets reason))" by (auto simp: readA_def)
  from assms(2) all_text_hidden [OF assms(3) assms(4) [unfolded m' message_masks.simps]] show ?thesis
    unfolding m' by simp
qed (use assms(1,2) in \<open>auto dest!: healthy_bind simp: retA_def bindA_def split: prod.splits sum.splits\<close>)



lemma star_mask_survives: "contains_str (mask_text [''pw*''] ''pwpw*'') ''pw*''"
  by code_simp

text \<open>
  When a job ends, at most 50 annotations go with it, and masking cannot push one of them
  over a limit: lines and columns stay as checked, and the bytes of path, message and title
  are cut to what the control plane accepts.
\<close>

theorem relayed_annotations_bounded:
  assumes "processor_ok W P"
    "relay_message W secrets (JobFinished i job c summary given) P = (Inr (Some (JobFinished i' job' c' summary' as)), P')"
  shows "length as \<le> 50 \<and> (\<forall>a\<in>set as. line_ok (ca_start_line a) \<and> line_ok (ca_end_line a) \<and>
      ca_start_line a \<le> ca_end_line a \<and> columns_ok a \<and> length (ca_path a) \<le> 4096 \<and>
      length (ca_message a) \<le> 65536 \<and> (\<forall>t. ca_title a = Some t \<longrightarrow> length t \<le> 255)) \<and> recorded_annotations P' = []"
proof -
  from healthy_bind [OF assms(2) [unfolded relay_message.simps]]
  have as: "as = map (mask_annotation secrets P') (recorded_annotations P)" "recorded_annotations P' = []"
    by (auto simp: take_annotations_def)
  have ok: "length (recorded_annotations P) \<le> 50" "\<forall>a\<in>set (recorded_annotations P). annotation_ok a"
    using assms(1) by (simp_all add: processor_ok_def annotations_ok_def MAX_CHECK_ANNOTATIONS_def)
  have "line_ok (ca_start_line b) \<and> line_ok (ca_end_line b) \<and> ca_start_line b \<le> ca_end_line b \<and> columns_ok b \<and>
      length (ca_path b) \<le> 4096 \<and> length (ca_message b) \<le> 65536 \<and> (\<forall>t. ca_title b = Some t \<longrightarrow> length t \<le> 255)"
    if "annotation_ok a" "b = mask_annotation secrets P' a" for a b
  proof -
    have kept: "ca_start_line b = ca_start_line a" "ca_end_line b = ca_end_line a"
      "ca_start_column b = ca_start_column a" "ca_end_column b = ca_end_column a"
      by (simp_all add: that(2) mask_annotation_def bound_masked_annotation_def Let_def)
    have "length (ca_path b) \<le> 4096" "length (ca_message b) \<le> 65536" "\<forall>t. ca_title b = Some t \<longrightarrow> length t \<le> 255"
      using truncate_utf8_props(1)
      by (auto simp: that(2) mask_annotation_def bound_masked_annotation_def Let_def truncate_utf8_bytes_def
          MAX_CHECK_ANNOTATION_PATH_BYTES_def MAX_CHECK_ANNOTATION_MESSAGE_BYTES_def MAX_CHECK_ANNOTATION_TITLE_BYTES_def)
    moreover have "columns_ok b = columns_ok a" unfolding columns_ok_def kept ..
    ultimately show ?thesis using that(1) by (simp add: annotation_ok_def kept)
  qed
  then show ?thesis using as ok by auto
qed

definition sample_annotation :: check_annotation where
  "sample_annotation = \<lparr>ca_path = ''a'', ca_start_line = 1, ca_end_line = 1, ca_start_column = None, ca_end_column = None,
    ca_annotation_level = NoticeLevel, ca_message = ''m'', ca_title = None\<rparr>"

theorem relayed_annotations_bounded_witness:
  "\<exists>P'. relay_message sample_matcher_world [] (JobFinished 1 2 Success ''done'' [])
      (record_annotation ''0/job/step'' sample_annotation (with_global_masks [] ''/w'' ''/w'')) =
      (Inr (Some (JobFinished 1 2 Success ''done'' [sample_annotation])), P') \<and> recorded_annotations P' = []"
proof -
  let ?P = "record_annotation ''0/job/step'' sample_annotation (with_global_masks [] ''/w'' ''/w'')"
  let ?m = "relay_message sample_matcher_world [] (JobFinished 1 2 Success ''done'' []) ?P"
  have "annotation_ok sample_annotation"
    by (simp add: annotation_ok_def sample_annotation_def line_ok_def columns_ok_def MAX_CHECK_ANNOTATION_PATH_BYTES_def)
  then have ok: "processor_ok sample_matcher_world ?P" by (intro record_annotation_ok with_global_masks_ok)
  obtain r P' where run: "?m = (r, P')" by (cases ?m)
  have "fst ?m = Inr (Some (JobFinished 1 2 Success ''done'' [sample_annotation]))" by code_simp
  with run have run': "?m = (Inr (Some (JobFinished 1 2 Success ''done'' [sample_annotation])), P')" by simp
  with relayed_annotations_bounded [OF ok run'] show ?thesis by blast
qed

section \<open>Chunks\<close>

text \<open>The chunks byte by byte: one ends with a newline or at the limit.\<close>

fun chunks_spec :: "string \<Rightarrow> string \<Rightarrow> string list \<times> string" where
  "chunks_spec pending [] = ([], pending)"
| "chunks_spec pending (c # cs) =
    (let p = pending @ [c] in
     if c = newline \<or> length p = MAX_LOG_CHUNK_BYTES
     then (case chunks_spec [] cs of (ready, q) \<Rightarrow> (p # ready, q)) else chunks_spec p cs)"

lemma chunks_spec_run:
  "newline \<notin> set xs \<Longrightarrow> length pending + length xs < MAX_LOG_CHUNK_BYTES \<Longrightarrow>
    chunks_spec pending (xs @ ys) = chunks_spec (pending @ xs) ys"
  by (induction xs arbitrary: pending) (auto simp: Let_def)

lemma chunks_spec_emit:
  assumes "newline \<notin> set xs" "length pending + length xs < MAX_LOG_CHUNK_BYTES"
    "c = newline \<or> length pending + length xs + 1 = MAX_LOG_CHUNK_BYTES"
  shows "chunks_spec pending (xs @ c # ys) =
    (case chunks_spec [] ys of (ready, q) \<Rightarrow> ((pending @ xs @ [c]) # ready, q))"
  using assms by (simp add: chunks_spec_run Let_def)

lemma newline_position_split:
  "case newline_position s of None \<Rightarrow> newline \<notin> set s
   | Some p \<Rightarrow> p < length s \<and> newline \<notin> set (take p s) \<and> s = take p s @ newline # drop (p + 1) s"
proof (induction s)
  case (Cons c s)
  then show ?case by (cases "newline_position s") auto
qed simp

lemma chunk_loop_spec:
  "length pending < MAX_LOG_CHUNK_BYTES \<Longrightarrow> length bytes \<le> fuel \<Longrightarrow>
    chunk_loop fuel pending bytes = Some (chunks_spec pending bytes)"
proof (induction fuel arbitrary: pending bytes)
  case (Suc fuel)
  show ?case
  proof (cases "bytes = []")
    case False
    define found where "found = newline_position bytes"
    define through where "through = (case found of None \<Rightarrow> length bytes | Some p \<Rightarrow> p + 1)"
    define taken where "taken = min through (MAX_LOG_CHUNK_BYTES - length pending)"
    have "0 < through" using False by (auto simp: through_def split: option.split)
    then have pos: "0 < taken" using Suc.prems(1) by (simp add: taken_def)
    have le: "taken \<le> through" "taken \<le> MAX_LOG_CHUNK_BYTES - length pending" by (simp_all add: taken_def)
    have through: "through \<le> length bytes" "newline \<notin> set (take (through - 1) bytes)"
      using newline_position_split [of bytes] False
      by (auto simp: through_def found_def split: option.splits dest: in_set_takeD)
    have "length (drop taken bytes) \<le> fuel" using Suc.prems(2) pos False by auto
    note IH = Suc.IH [OF _ this]
    define xs where "xs = take (taken - 1) bytes"
    define c where "c = bytes ! (taken - 1)"
    have taken: "taken - 1 < length bytes" "Suc (taken - 1) = taken" using pos le(1) through(1) by simp_all
    have prefix: "take taken bytes = xs @ [c]"
      using take_Suc_conv_app_nth [OF taken(1)] unfolding taken(2) xs_def c_def .
    then have split: "bytes = xs @ c # drop taken bytes" by (metis append.assoc append_Cons append_Nil append_take_drop_id)
    have "length xs = taken - 1" using taken(1) by (simp add: xs_def)
    then have len: "length pending + length xs < MAX_LOG_CHUNK_BYTES" "length (pending @ take taken bytes) = length pending + length xs + 1"
      using pos le(2) Suc.prems(1) by (auto simp: prefix)
    have free: "newline \<notin> set xs"
      unfolding xs_def using through(2) set_take_subset_set_take [OF diff_le_mono [OF le(1), of 1], of bytes] by blast
    have unfold: "chunk_loop (Suc fuel) pending bytes =
      (if length (pending @ take taken bytes) = MAX_LOG_CHUNK_BYTES \<or> found \<noteq> None \<and> taken = through
       then map_option (\<lambda>(ready, p). ((pending @ take taken bytes) # ready, p)) (chunk_loop fuel [] (drop taken bytes))
       else chunk_loop fuel (pending @ take taken bytes) (drop taken bytes))"
      using False by (simp only: chunk_loop.simps(2) if_False Let_def found_def [symmetric] through_def [symmetric]
          taken_def [symmetric])
    show ?thesis
    proof (cases "length (pending @ take taken bytes) = MAX_LOG_CHUNK_BYTES \<or> found \<noteq> None \<and> taken = through")
      case True
      have "c = newline" if "found \<noteq> None" "taken = through"
        using that newline_position_split [of bytes]
        by (auto simp: c_def through_def found_def [symmetric]) (metis nth_append_length length_take min.absorb4)
      then have "chunks_spec pending bytes = (case chunks_spec [] (drop taken bytes) of (ready, q) \<Rightarrow> ((pending @ xs @ [c]) # ready, q))"
        using chunks_spec_emit [OF free len(1), of c "drop taken bytes"] True len(2) split by auto
      moreover have "chunk_loop fuel [] (drop taken bytes) = Some (chunks_spec [] (drop taken bytes))"
        by (rule IH) (simp add: MAX_LOG_CHUNK_BYTES_def)
      ultimately show ?thesis unfolding unfold if_P [OF True] by (simp add: prefix case_prod_unfold)
    next
      case no: False
      have "newline \<notin> set (take taken bytes)"
      proof (cases found)
        case None
        then show ?thesis using newline_position_split [of bytes] by (auto simp: found_def dest: in_set_takeD)
      next
        case (Some p)
        then have "taken \<le> through - 1" using no le(1) by auto
        then show ?thesis using through(2) set_take_subset_set_take [of taken "through - 1" bytes] by auto
      qed
      moreover have "length pending + length (take taken bytes) < MAX_LOG_CHUNK_BYTES" using no len by auto
      ultimately have "chunks_spec pending bytes = chunks_spec (pending @ take taken bytes) (drop taken bytes)"
        using chunks_spec_run [of "take taken bytes" pending "drop taken bytes"] by simp
      moreover have "chunk_loop fuel (pending @ take taken bytes) (drop taken bytes) =
          Some (chunks_spec (pending @ take taken bytes) (drop taken bytes))"
        by (rule IH) (use no len in auto)
      ultimately show ?thesis unfolding unfold if_not_P [OF no] by simp
    qed
  qed simp
qed simp

definition chunk_ok :: "string \<Rightarrow> bool" where
  "chunk_ok c \<longleftrightarrow> c \<noteq> [] \<and> length c \<le> MAX_LOG_CHUNK_BYTES \<and> newline \<notin> set (butlast c) \<and>
    (last c = newline \<or> length c = MAX_LOG_CHUNK_BYTES)"

lemma chunks_spec_ok:
  "newline \<notin> set pending \<Longrightarrow> length pending < MAX_LOG_CHUNK_BYTES \<Longrightarrow> chunks_spec pending bytes = (ready, rest) \<Longrightarrow>
    concat ready @ rest = pending @ bytes \<and> list_all chunk_ok ready \<and> newline \<notin> set rest \<and> length rest < MAX_LOG_CHUNK_BYTES"
proof (induction pending bytes arbitrary: ready rest rule: chunks_spec.induct)
  case (2 pending c cs)
  show ?case
  proof (cases "c = newline \<or> length (pending @ [c]) = MAX_LOG_CHUNK_BYTES")
    case True
    obtain r q where rec: "chunks_spec [] cs = (r, q)" by (cases "chunks_spec [] cs")
    have "chunk_ok (pending @ [c])" using True 2(3,4) by (auto simp: chunk_ok_def)
    moreover have "(0::nat) < MAX_LOG_CHUNK_BYTES" by (simp add: MAX_LOG_CHUNK_BYTES_def)
    ultimately show ?thesis using 2(1) [OF refl True _ _ rec] 2(5) True rec by (auto simp: Let_def)
  next
    case False
    then show ?thesis using 2(2) [OF refl False] 2(3-5) by (auto simp: Let_def)
  qed
qed simp

lemma chunks_spec_append:
  "chunks_spec pending (xs @ ys) =
    (case chunks_spec pending xs of (r, p) \<Rightarrow> case chunks_spec p ys of (r', p') \<Rightarrow> (r @ r', p'))"
  by (induction pending xs rule: chunks_spec.induct) (auto simp: Let_def split: prod.splits)

text \<open>
  The loop that cuts the bytes of a read into chunks ends, after at most one turn per byte,
  and gives exactly the chunks of a byte by byte definition. They lose and reorder nothing,
  each holds at most one line, of at most 32 KiB, and is cut only after a newline or at that
  limit. How the bytes were distributed over reads makes no difference.
\<close>

theorem chunk_loop_correct:
  assumes "length pending < MAX_LOG_CHUNK_BYTES" "newline \<notin> set pending"
  shows "\<exists>ready rest. chunk_loop (length (xs @ ys)) pending (xs @ ys) = Some (ready, rest) \<and>
    (ready, rest) = chunks_spec pending (xs @ ys) \<and> concat ready @ rest = pending @ xs @ ys \<and>
    list_all chunk_ok ready \<and> length rest < MAX_LOG_CHUNK_BYTES \<and>
    (\<exists>first p second. chunk_loop (length xs) pending xs = Some (first, p) \<and>
      chunk_loop (length ys) p ys = Some (second, rest) \<and> ready = first @ second)"
proof -
  obtain ready rest where all: "chunks_spec pending (xs @ ys) = (ready, rest)" by (cases "chunks_spec pending (xs @ ys)")
  obtain first p where one: "chunks_spec pending xs = (first, p)" by (cases "chunks_spec pending xs")
  obtain second q where two: "chunks_spec p ys = (second, q)" by (cases "chunks_spec p ys")
  have p: "length p < MAX_LOG_CHUNK_BYTES" using chunks_spec_ok [OF assms(2,1) one] by simp
  have "ready = first @ second" "rest = q" using all by (simp_all add: chunks_spec_append one two)
  with chunk_loop_spec [OF assms(1), of "xs @ ys"] chunk_loop_spec [OF assms(1), of xs] chunk_loop_spec [OF p, of ys]
    chunks_spec_ok [OF assms(2,1) all] all one two
  show ?thesis by auto
qed

theorem chunk_loop_correct_witness:
  "chunk_loop (length (''a'' @ ''b'' @ [newline] @ ''c'')) [] (''a'' @ ''b'' @ [newline] @ ''c'') = Some ([''ab'' @ [newline]], ''c'') \<and>
   list_all chunk_ok [''ab'' @ [newline]]"
  using chunk_loop_correct [of "[]" "''a''" "''b'' @ [newline] @ ''c''"]
  by (auto simp: MAX_LOG_CHUNK_BYTES_def)

section \<open>Forwarded output is masked\<close>

lemma process_log_masks: "global_masks (snd (process_log W step_id stream data P)) = global_masks P"
proof -
  have "global_masks (snd (process_complete_log W step_id d Q)) = global_masks Q" for d Q
    using process_complete_log_frames [of W step_id d] by (simp add: frames_def log_frame_def)
  then show ?thesis
    by (simp add: process_log_def Let_def bailA_def put_partial_def remove_partial_def split: option.split)
qed

lemma prepare_workflow_log_masks:
  "global_masks (snd (prepare_workflow_log W step_id stream data P)) = global_masks P"
  using process_log_masks [of W step_id stream data P]
  by (auto simp: prepare_workflow_log_def fail_processor_def split: prod.splits sum.splits agent_failure.splits option.splits)

lemma prepare_workflow_log_hides:
  assumes "prepare_workflow_log W step_id stream data P = (Some visible, P')" "maskable s" "s \<in> set (global_masks P)"
  shows "\<not> contains_str visible s"
proof -
  have "global_masks P' = global_masks P" using prepare_workflow_log_masks [of W step_id stream data P] assms(1) by simp
  then show ?thesis using assms mask_for_step_hides [OF assms(2), of P' step_id]
    by (auto simp: prepare_workflow_log_def split: prod.splits sum.splits agent_failure.splits)
qed

definition forward_ok :: "string list \<Rightarrow> 'rx forward_state \<Rightarrow> bool" where
  "forward_ok masks F \<longleftrightarrow> global_masks (fw_processor F) = masks \<and>
    (\<forall>data\<in>set (map snd (fw_sent F)). \<forall>s\<in>set masks. maskable s \<longrightarrow> \<not> contains_str data s)"

lemma send_log_ok:
  "forward_ok masks F \<Longrightarrow> \<forall>s\<in>set masks. maskable s \<longrightarrow> \<not> contains_str data s \<Longrightarrow> send_log ids closed data F = (b, F') \<Longrightarrow>
    forward_ok masks F'"
  by (auto simp: forward_ok_def send_log_def Let_def mark_preprocessed_log_def split: if_splits)

lemma forward_chunk_ok:
  assumes "forward_ok masks F" "forward_chunk W ids closed step_id stream bytes F = (b, F')"
  shows "forward_ok masks F'"
proof -
  obtain r P where prep: "prepare_workflow_log W step_id stream (from_utf8_lossy bytes) (fw_processor F) = (r, P)"
    by (cases "prepare_workflow_log W step_id stream (from_utf8_lossy bytes) (fw_processor F)")
  have masks: "global_masks P = masks"
    using prepare_workflow_log_masks [of W step_id stream "from_utf8_lossy bytes" "fw_processor F"] assms(1) prep
    by (simp add: forward_ok_def)
  then have F: "forward_ok masks (F\<lparr>fw_processor := P\<rparr>)" using assms(1) by (simp add: forward_ok_def)
  show ?thesis
  proof (cases r)
    case None
    then show ?thesis using assms(2) prep F by (simp add: forward_chunk_def)
  next
    case (Some data)
    have "\<forall>s\<in>set masks. maskable s \<longrightarrow> \<not> contains_str data s"
      using prepare_workflow_log_hides [OF prep [unfolded Some]] assms(1) by (auto simp: forward_ok_def)
    then show ?thesis using assms(2) prep F Some send_log_ok [OF F]
      by (auto simp: forward_chunk_def split: if_splits)
  qed
qed

lemma forward_chunks_ok:
  "forward_ok masks F \<Longrightarrow> forward_chunks W ids closed step_id stream cs F = (b, F') \<Longrightarrow> forward_ok masks F'"
  by (induction cs arbitrary: F) (auto split: prod.splits bool.splits dest: forward_chunk_ok)

lemma finish_stream_masks: "global_masks (snd (finish_stream W step_id stream P)) = global_masks P"
proof -
  have "global_masks (snd (bindA (process_complete_log W step_id d) (\<lambda>_. retA ()) Q)) = global_masks Q" for d Q
    using process_complete_log_frames [of W step_id d]
    by (auto simp: bindA_def retA_def frames_def log_frame_def split: prod.splits sum.splits) (metis snd_conv)+
  then show ?thesis by (simp add: finish_stream_def Let_def remove_partial_def split: option.split)
qed

lemma finish_output_ok: "forward_ok masks F \<Longrightarrow> forward_ok masks (finish_output W ids closed step_id stream pending F)"
proof -
  assume F: "forward_ok masks F"
  obtain b G where run: "forward_chunks W ids closed step_id stream (if pending = [] then [] else [pending]) F = (b, G)"
    by (cases "forward_chunks W ids closed step_id stream (if pending = [] then [] else [pending]) F")
  have G: "forward_ok masks G" by (rule forward_chunks_ok [OF F run])
  obtain r P where fin: "finish_stream W step_id stream (fw_processor G) = (r, P)"
    by (cases "finish_stream W step_id stream (fw_processor G)")
  have "global_masks P = masks"
    using finish_stream_masks [of W step_id stream "fw_processor G"] G fin by (simp add: forward_ok_def)
  then have "forward_ok masks (G\<lparr>fw_processor := P\<rparr>)" "forward_ok masks (G\<lparr>fw_processor := fail_processor e P\<rparr>)" for e
    using G by (auto simp: forward_ok_def fail_processor_def split: option.split)
  with G show ?thesis
    by (auto simp: finish_output_def run fin split: bool.split sum.split agent_failure.split)
qed

lemma forward_output_ok:
  "forward_ok masks F \<Longrightarrow> length pending < MAX_LOG_CHUNK_BYTES \<Longrightarrow> newline \<notin> set pending \<Longrightarrow>
    forward_output W ids closed step_id stream pending reads F = Some F' \<Longrightarrow> forward_ok masks F'"
proof (induction reads arbitrary: pending F)
  case (Cons r reads)
  show ?case
  proof (cases r)
    case (Some bytes)
    obtain ready rest where spec: "chunks_spec pending bytes = (ready, rest)" by (cases "chunks_spec pending bytes")
    have loop: "chunk_loop (length bytes) pending bytes = Some (ready, rest)"
      using chunk_loop_spec [OF Cons.prems(2), of bytes] spec by simp
    obtain b G where run: "forward_chunks W ids closed step_id stream ready F = (b, G)"
      by (cases "forward_chunks W ids closed step_id stream ready F")
    have G: "forward_ok masks G" by (rule forward_chunks_ok [OF Cons.prems(1) run])
    show ?thesis
      using Cons.prems(4) Cons.IH [OF G] chunks_spec_ok [OF Cons.prems(3,2) spec] G finish_output_ok [OF Cons.prems(1)]
      by (auto simp: Some loop run split: if_splits bool.splits)
  qed (use Cons.prems in simp)
qed simp

lemma forward_output_ends:
  "None \<in> set reads \<or> Some [] \<in> set reads \<Longrightarrow> length pending < MAX_LOG_CHUNK_BYTES \<Longrightarrow> newline \<notin> set pending \<Longrightarrow>
    \<exists>F'. forward_output W ids closed step_id stream pending reads F = Some F'"
proof (induction reads arbitrary: pending F)
  case (Cons r reads)
  show ?case
  proof (cases r)
    case (Some bytes)
    obtain ready rest where spec: "chunks_spec pending bytes = (ready, rest)" by (cases "chunks_spec pending bytes")
    have loop: "chunk_loop (length bytes) pending bytes = Some (ready, rest)"
      using chunk_loop_spec [OF Cons.prems(2), of bytes] spec by simp
    show ?thesis
      using Cons.prems(1) Cons.IH chunks_spec_ok [OF Cons.prems(3,2) spec]
      by (auto simp: Some loop split: prod.split bool.split)
  qed simp
qed simp


definition sample_forward :: "string \<Rightarrow> string forward_state" where
  "sample_forward secret = \<lparr>fw_processor = with_global_masks [secret] ''/w'' ''/w'', fw_sent = []\<rparr>"


section \<open>A mask that the chunks cut\<close>

lemma from_utf8_lossy_ascii: "list_all (\<lambda>c. byte_of c < 128) s \<Longrightarrow> from_utf8_lossy s = s"
  by (induction s) (auto simp: char_extent_def)

lemma ascii_lower_colon: "ascii_lower c = CHR '':'' \<Longrightarrow> c = CHR '':''"
proof (cases "is_ascii_uppercase c")
  case True
  assume "ascii_lower c = CHR '':''"
  with True have "byte_of (char_of (byte_of c + 32)) = byte_of (CHR '':'')" by (simp add: ascii_lower_def)
  with True show ?thesis by (simp add: is_ascii_uppercase_def)
qed (simp add: ascii_lower_def)

lemma strip_other_command: "c \<noteq> CHR '':'' \<Longrightarrow> strip_prefix_ignore_ascii_case (c # l) (CHR '':'' # p) = None"
proof -
  have "ascii_lower (CHR '':'') = CHR '':''" by code_simp
  then show "c \<noteq> CHR '':'' \<Longrightarrow> strip_prefix_ignore_ascii_case (c # l) (CHR '':'' # p) = None"
    by (auto simp: strip_prefix_ignore_ascii_case_def eq_ignore_ascii_case_def to_ascii_lowercase_def dest: ascii_lower_colon)
qed

lemma no_annotation_command: "c \<noteq> CHR '':'' \<Longrightarrow> \<not> is_annotation_workflow_command (c # l)"
  by (simp add: is_annotation_workflow_command_def)

lemma plain_line:
  assumes "c \<noteq> CHR '':''" "command_scopes P = []" "matcher_scopes (matcher_registry P) = []"
  shows "process_line W step_id (c # l) P = (Inr Original, P)"
  using assms
  by (simp add: process_line_def process_command_line_def process_reported_line_def Let_def bindA_def readA_def
      scope_stop_token_def strip_other_command parse_remove_matcher_command_def parse_workflow_annotation_def
      no_annotation_command parse_named_workflow_command_def liftA_def registry_call_def fieldA_def scan_def retA_def
      put_registry_def)

lemma split_inclusive_line: "s \<noteq> [] \<Longrightarrow> newline \<notin> set s \<Longrightarrow> split_inclusive s = [s]"
proof (induction s)
  case (Cons c s)
  then show ?case by (cases s) auto
qed simp

lemma trim_line_end_plain: "newline \<notin> set s \<Longrightarrow> carriage_return \<notin> set s \<Longrightarrow> trim_line_end s = s"
  by (cases s rule: rev_cases) (auto simp: trim_line_end_def)

lemma plain_chunk:
  assumes "c \<noteq> CHR '':''" "newline \<notin> set (c # l)" "carriage_return \<notin> set (c # l)" "command_scopes P = []"
    "matcher_scopes (matcher_registry P) = []" "partial_commands P = []"
  shows "process_log W step_id stream (c # l) P = (Inr (c # l), P)"
proof -
  have "split_inclusive (c # l) = [c # l]" by (rule split_inclusive_line) (use assms in simp_all)
  then have "process_complete_log W step_id (c # l) P = (Inr (c # l), P)"
    using assms by (simp add: process_complete_log_def process_segment_def trim_line_end_plain
        bindA_def plain_line retA_def visible_segment_def del: split_inclusive.simps)
  moreover have "\<not> is_suppressible_command step_id (trim_line_end (c # l)) P"
    using assms by (simp add: is_suppressible_command_def scope_stop_token_def trim_line_end_plain strip_other_command
        no_annotation_command is_problem_matcher_workflow_command_def)
  ultimately show ?thesis using assms(6) by (simp add: process_log_def)
qed

lemma forward_plain_chunk:
  assumes "c \<noteq> CHR '':''" "newline \<notin> set (c # l)" "carriage_return \<notin> set (c # l)" "list_all (\<lambda>c. byte_of c < 128) (c # l)"
    "command_scopes (fw_processor F) = []" "matcher_scopes (matcher_registry (fw_processor F)) = []"
    "partial_commands (fw_processor F) = []" "global_masks (fw_processor F) = [secret]" "\<not> contains_str (c # l) secret"
  shows "\<exists>F'. forward_chunk W ids (\<lambda>_. False) step_id stream (c # l) F = (True, F') \<and>
    map snd (fw_sent F') = map snd (fw_sent F) @ [c # l] \<and> command_scopes (fw_processor F') = [] \<and>
    matcher_scopes (matcher_registry (fw_processor F')) = [] \<and> partial_commands (fw_processor F') = [] \<and>
    global_masks (fw_processor F') = [secret]"
proof -
  have "prepare_workflow_log W step_id stream (c # l) (fw_processor F) = (Some (c # l), fw_processor F)"
    using assms by (simp add: prepare_workflow_log_def plain_chunk mask_for_step_def mask_text_def mask_secret_def)
  moreover have "from_utf8_lossy (c # l) = c # l" by (rule from_utf8_lossy_ascii [OF assms(4)])
  ultimately show ?thesis
    using assms by (simp add: forward_chunk_def send_log_def Let_def mark_preprocessed_log_def del: from_utf8_lossy.simps)
qed

definition long_line :: string where
  "long_line = replicate 32764 (CHR ''x'') @ ''hunter2-abc''"

lemma long_line_chunks:
  "chunks_spec [] long_line = ([CHR ''x'' # replicate 32763 (CHR ''x'') @ ''hunt''], ''er2-abc'')"
proof -
  have "chunks_spec [] long_line = chunks_spec [] ((replicate 32764 (CHR ''x'') @ ''hun'') @ CHR ''t'' # ''er2-abc'')"
    by (simp add: long_line_def)
  also have "\<dots> = (case chunks_spec [] ''er2-abc'' of (ready, q) \<Rightarrow>
      (([] @ (replicate 32764 (CHR ''x'') @ ''hun'') @ [CHR ''t'']) # ready, q))"
    by (rule chunks_spec_emit) (simp_all add: MAX_LOG_CHUNK_BYTES_def)
  also have "chunks_spec [] ''er2-abc'' = ([], ''er2-abc'')" by (simp add: MAX_LOG_CHUNK_BYTES_def)
  also have "replicate 32764 (CHR ''x'') = CHR ''x'' # replicate 32763 (CHR ''x'')"
    using replicate_Suc [of 32763 "CHR ''x''"] by simp
  finally show ?thesis by simp
qed


end
