(* ===== verification/Deployment_Patterns.thy ===== *)
theory Deployment_Patterns
  imports Agent_Base
begin

text \<open>
  The patterns of deployment branch policies (\<open>deployment_pattern_matches\<close> in
  \<open>gitzero-agent/src/executor.rs\<close>): the matcher over indices with its memo table, and the
  language of a pattern as an inductive relation, which the matcher decides.
\<close>

section \<open>Character classes\<close>

text \<open>The loop that collects the members of a class up to the closing bracket.\<close>

function class_values :: "string list \<Rightarrow> nat \<Rightarrow> (string \<times> bool) list \<Rightarrow> (nat \<times> (string \<times> bool) list) option" where
  "class_values pattern i acc =
    (if i < length pattern \<and> pattern ! i \<noteq> '']'' then
       if pattern ! i = [CHR 0x5C] then
         if i + 1 < length pattern then class_values pattern (i + 2) (acc @ [(pattern ! (i + 1), True)]) else None
       else class_values pattern (i + 1) (acc @ [(pattern ! i, False)])
     else Some (i, acc))"
  by pat_completeness auto

termination class_values
  by (relation "measure (\<lambda>(pattern, i, acc). length pattern - i)") auto

declare class_values.simps [simp del]

text \<open>Ranges are compared as characters: the order of UTF-8 is the order of code points.\<close>

fun class_member :: "string \<Rightarrow> (string \<times> bool) list \<Rightarrow> bool" where
  "class_member v (x # y # z # rest) =
    (if y = (''-'', False) then (fst x \<le> fst z \<and> fst x \<le> v \<and> v \<le> fst z) \<or> class_member v rest
     else fst x = v \<or> class_member v (y # z # rest))"
| "class_member v (x # rest) = (fst x = v \<or> class_member v rest)"
| "class_member v [] = False"

definition is_negation :: "string \<Rightarrow> bool" where
  "is_negation c \<longleftrightarrow> c \<in> {''!'', ''^''}"

definition character_class :: "string list \<Rightarrow> nat \<Rightarrow> string \<Rightarrow> (nat \<times> bool) option" where
  "character_class pattern start v =
    (let i = start + 1;
         negated = (i < length pattern \<and> is_negation (pattern ! i));
         i = (if negated then i + 1 else i) in
     Option.bind (class_values pattern i []) (\<lambda>(i, values).
       if i \<ge> length pattern \<or> values = [] then None
       else Some (i + 1, negated \<noteq> class_member v values)))"

lemma class_values_le: "class_values pattern i acc = Some (j, vs) \<Longrightarrow> i \<le> j"
  by (induction pattern i acc rule: class_values.induct)
    (subst (asm) (3) class_values.simps, force split: if_splits)

lemma character_class_next: "character_class pattern i v = Some (j, b) \<Longrightarrow> i < j"
  by (auto simp: character_class_def Let_def bind_eq_Some_conv split: if_splits dest!: class_values_le)

section \<open>The matcher\<close>

type_synonym memo = "nat \<times> nat \<Rightarrow> bool option"

definition orA :: "('s, bool) act \<Rightarrow> ('s, bool) act \<Rightarrow> ('s, bool) act" where
  "orA m n = bindA m (\<lambda>b. if b then retA True else n)"

text \<open>\<open>while pattern.get(after_stars) == Some(&'*')\<close>\<close>

function skip_stars :: "string list \<Rightarrow> nat \<Rightarrow> nat" where
  "skip_stars pattern i = (if i < length pattern \<and> pattern ! i = ''*'' then skip_stars pattern (i + 1) else i)"
  by pat_completeness auto

termination skip_stars
  by (relation "measure (\<lambda>(pattern, i). length pattern - i)") auto

declare skip_stars.simps [simp del]

lemma skip_stars_le: "i \<le> skip_stars pattern i"
  by (induction pattern i rule: skip_stars.induct) (subst skip_stars.simps, auto)

text \<open>\<open>position\<close> of the first slash.\<close>

fun find_slash :: "string list \<Rightarrow> nat option" where
  "find_slash [] = None"
| "find_slash (c # cs) = (if c = ''/'' then Some 0 else map_option Suc (find_slash cs))"

definition segment_start :: "string list \<Rightarrow> nat \<Rightarrow> bool" where
  "segment_start candidate j \<longleftrightarrow> j = 0 \<or> (j - 1 < length candidate \<and> candidate ! (j - 1) = ''/'')"

definition get_char :: "string list \<Rightarrow> nat \<Rightarrow> string option" where
  "get_char cs i = (if i < length cs then Some (cs ! i) else None)"

text \<open>
  \<open>fn matches\<close>. The code indexes \<open>pattern\<close> without a check once \<open>pattern_index\<close> is not its
  length; an index beyond the end is a panic.
\<close>

function glob_matches :: "string list \<Rightarrow> string list \<Rightarrow> nat \<Rightarrow> nat \<Rightarrow> (memo, bool) act" where
  "glob_matches pattern candidate i j =
    bindA (readA (\<lambda>memo. memo (i, j))) (\<lambda>cached.
    case cached of Some r \<Rightarrow> retA r | None \<Rightarrow>
    bindA
      (if i = length pattern then retA (j = length candidate)
       else if i > length pattern then liftA (Inl AgentPanic)
       else
        let next = get_char candidate j;
            hidden = (segment_start candidate j \<and> next = Some ''.'');
            ch = pattern ! i in
        if ch = [CHR 0x5C] then
          if i + 1 < length pattern \<and> next = Some (pattern ! (i + 1))
          then glob_matches pattern candidate (i + 2) (j + 1) else retA False
        else if ch = ''/'' then
          if next = Some ''/'' then glob_matches pattern candidate (i + 1) (j + 1) else retA False
        else if ch = ''?'' then
          if next \<noteq> None \<and> next \<noteq> Some ''/'' \<and> \<not> hidden
          then glob_matches pattern candidate (i + 1) (j + 1) else retA False
        else if ch = ''['' then
          (case next of None \<Rightarrow> retA False | Some c \<Rightarrow>
            if c \<noteq> ''/'' \<and> \<not> hidden then
              (case character_class pattern i c of
                None \<Rightarrow> retA False
              | Some (i', class_matches) \<Rightarrow>
                  if class_matches then glob_matches pattern candidate i' (j + 1) else retA False)
            else retA False)
        else if ch = ''*'' then
          let after_stars = skip_stars pattern (i + 1);
              globstar_directory = (after_stars \<ge> i + 2 \<and> get_char pattern after_stars = Some ''/'' \<and>
                (i = 0 \<or> pattern ! (i - 1) = ''/'')) in
          if globstar_directory then
            orA (glob_matches pattern candidate (after_stars + 1) j)
              (if next = None \<or> hidden then retA False
               else case find_slash (drop j candidate) of
                  None \<Rightarrow> retA False
                | Some slash \<Rightarrow> glob_matches pattern candidate i (j + slash + 1))
          else if hidden then retA False
          else
            orA (glob_matches pattern candidate after_stars j)
              (if next \<noteq> None \<and> next \<noteq> Some ''/'' then glob_matches pattern candidate i (j + 1) else retA False)
        else if next = Some ch then glob_matches pattern candidate (i + 1) (j + 1) else retA False)
      (\<lambda>r. bindA (updateA (\<lambda>memo. memo((i, j) \<mapsto> r))) (\<lambda>_. retA r)))"
  by pat_completeness auto

lemma get_char_Some: "get_char cs i = Some c \<longleftrightarrow> i < length cs \<and> cs ! i = c"
  by (auto simp: get_char_def)

definition remaining :: "string list \<times> string list \<times> nat \<times> nat \<Rightarrow> nat" where
  "remaining = (\<lambda>(pattern, candidate, i, j). (length pattern - i) + (length candidate - j))"

lemma remaining_pattern:
  "i < length p \<Longrightarrow> i < i' \<Longrightarrow> j \<le> j' \<Longrightarrow> ((p, c, i', j'), (p, c, i, j)) \<in> measure remaining"
  by (simp add: remaining_def)

lemma remaining_candidate:
  "get_char c j \<noteq> None \<Longrightarrow> j < j' \<Longrightarrow> ((p, c, i, j'), (p, c, i, j)) \<in> measure remaining"
  by (simp add: remaining_def get_char_def split: if_splits)

lemma skip_stars_less: "i < skip_stars p (i + 1)" "i < skip_stars p (i + 1) + 1"
  using skip_stars_le [of "i + 1" p] by auto

termination glob_matches
  by (relation "measure remaining")
    (simp, (rule remaining_pattern remaining_candidate;
      (force simp: skip_stars_less skip_stars_less [simplified] dest: character_class_next; fail))+)

declare glob_matches.simps [simp del]

definition MAX_DEPLOYMENT_BRANCH_PATTERN_BYTES :: nat where
  "MAX_DEPLOYMENT_BRANCH_PATTERN_BYTES = 1024"

definition deployment_pattern_matches :: "string \<Rightarrow> string \<Rightarrow> agent_failure + bool" where
  "deployment_pattern_matches pattern candidate =
    (if pattern = [] \<or> length pattern > MAX_DEPLOYMENT_BRANCH_PATTERN_BYTES \<or>
        contains_any pattern [CHR 0x00, newline, carriage_return] then Inr False
     else fst (glob_matches (utf8_chars pattern) (utf8_chars candidate) 0 0 Map.empty))"

section \<open>The language of a pattern\<close>

text \<open>
  A pattern is a list of tokens: a character, one character with a property, any number of
  characters of one path segment, any number of directories, or nothing at all for a class that
  is not closed or an escape at the end.
\<close>

datatype glob_token = Lit string | One "string \<Rightarrow> bool" | Star | Dirs | Never

fun class_items :: "string list \<Rightarrow> ((string \<times> bool) list \<times> string list) option" where
  "class_items [] = None"
| "class_items (c # cs) =
    (if c = '']'' then Some ([], cs)
     else if c = [CHR 0x5C] then
       (case cs of [] \<Rightarrow> None | d # ds \<Rightarrow> map_option (\<lambda>(vs, rest). ((d, True) # vs, rest)) (class_items ds))
     else map_option (\<lambda>(vs, rest). ((c, False) # vs, rest)) (class_items cs))"

definition parse_class :: "string list \<Rightarrow> ((string \<Rightarrow> bool) \<times> string list) option" where
  "parse_class p =
    (let negated = (p \<noteq> [] \<and> is_negation (hd p)) in
     Option.bind (class_items (if negated then tl p else p)) (\<lambda>(vs, rest).
       if vs = [] then None else Some (\<lambda>v. negated \<noteq> class_member v vs, rest)))"

lemma class_items_shorter: "class_items p = Some (vs, rest) \<Longrightarrow> length rest < length p"
  by (induction p arbitrary: vs rule: class_items.induct) (fastforce split: if_splits list.splits)+

lemma parse_class_shorter: "parse_class p = Some (P, rest) \<Longrightarrow> length rest < length p"
  by (cases p) (auto simp: parse_class_def Let_def bind_eq_Some_conv simp del: class_items.simps
    dest!: class_items_shorter split: if_splits)

function glob_tokens :: "bool \<Rightarrow> string list \<Rightarrow> glob_token list" where
  "glob_tokens start [] = []"
| "glob_tokens start (ch # p) =
    (if ch = [CHR 0x5C] then (case p of [] \<Rightarrow> [Never] | l # p' \<Rightarrow> Lit l # glob_tokens (l = ''/'') p')
     else if ch = ''?'' then One (\<lambda>_. True) # glob_tokens False p
     else if ch = ''['' then
       (case parse_class p of None \<Rightarrow> [Never] | Some (P, rest) \<Rightarrow> One P # glob_tokens False rest)
     else if ch = ''*'' then
       let rest = dropWhile (\<lambda>c. c = ''*'') p in
       if start \<and> p \<noteq> [] \<and> hd p = ''*'' \<and> rest \<noteq> [] \<and> hd rest = ''/'' then Dirs # glob_tokens True (tl rest)
       else Star # glob_tokens False rest
     else Lit ch # glob_tokens (ch = ''/'') p)"
  by pat_completeness auto

lemma tl_dropWhile_length: "length (dropWhile P p) - Suc 0 \<le> length p"
  using length_dropWhile_le [of P p] by linarith

termination glob_tokens
  by (relation "measure (\<lambda>(start, p). length p)")
    (auto simp: tl_dropWhile_length length_dropWhile_le less_Suc_eq_le dest!: parse_class_shorter)

text \<open>
  \<open>glob_lang start tokens text\<close>: the tokens match the text; \<open>start\<close> says that the text begins a path
  segment, where a dot has to be matched literally.
\<close>

definition hidden :: "string list \<Rightarrow> bool" where
  "hidden c \<longleftrightarrow> c \<noteq> [] \<and> hd c = ''.''"

inductive glob_lang :: "bool \<Rightarrow> glob_token list \<Rightarrow> string list \<Rightarrow> bool" where
  empty: "glob_lang start [] []"
| literal: "glob_lang (x = ''/'') ts c \<Longrightarrow> glob_lang start (Lit x # ts) (x # c)"
| one: "P x \<Longrightarrow> x \<noteq> ''/'' \<Longrightarrow> \<not> (start \<and> x = ''.'') \<Longrightarrow> glob_lang False ts c \<Longrightarrow> glob_lang start (One P # ts) (x # c)"
| star: "''/'' \<notin> set w \<Longrightarrow> \<not> (start \<and> hidden (w @ c)) \<Longrightarrow> glob_lang (start \<and> w = []) ts c \<Longrightarrow> glob_lang start (Star # ts) (w @ c)"
| no_dirs: "glob_lang start ts c \<Longrightarrow> glob_lang start (Dirs # ts) c"
| dirs: "''/'' \<notin> set d \<Longrightarrow> \<not> (start \<and> hidden (d @ ''/'' # c)) \<Longrightarrow> glob_lang True (Dirs # ts) c \<Longrightarrow>
    glob_lang start (Dirs # ts) (d @ ''/'' # c)"

inductive_simps glob_lang_Nil: "glob_lang start [] c"
inductive_simps glob_lang_Lit: "glob_lang start (Lit x # ts) c"
inductive_simps glob_lang_One: "glob_lang start (One P # ts) c"
inductive_simps glob_lang_Never: "glob_lang start (Never # ts) c"
inductive_simps glob_lang_Star: "glob_lang start (Star # ts) c"

inductive_cases glob_lang_DirsE: "glob_lang start (Dirs # ts) c"

lemma glob_lang_Star_step:
  "glob_lang start (Star # ts) c \<longleftrightarrow> \<not> (start \<and> hidden c) \<and>
    (glob_lang start ts c \<or> (\<exists>x c'. c = x # c' \<and> x \<noteq> ''/'' \<and> glob_lang False (Star # ts) c'))" (is "?l = ?r")
proof
  assume ?l
  then obtain w c' where w: "c = w @ c'" "''/'' \<notin> set w" "\<not> (start \<and> hidden c)" "glob_lang (start \<and> w = []) ts c'"
    by (auto simp: glob_lang_Star)
  show ?r
  proof (cases w)
    case (Cons x v)
    have "glob_lang False (Star # ts) (v @ c')" by (rule glob_lang.star) (use w Cons in auto)
    then show ?thesis using w Cons by auto
  qed (use w in auto)
next
  assume r: ?r
  then consider "glob_lang start ts c" | x c' where "c = x # c'" "x \<noteq> ''/''" "glob_lang False (Star # ts) c'" by blast
  then show ?l
  proof cases
    case 1
    then show ?thesis using glob_lang.star [of "[]" start c ts] r by simp
  next
    case 2
    from 2(3) obtain w d where "c' = w @ d" "''/'' \<notin> set w" "glob_lang False ts d" by (auto simp: glob_lang_Star)
    then show ?thesis using glob_lang.star [of "x # w" start d ts] r 2 by simp
  qed
qed

lemma find_slash_Some: "find_slash c = Some k \<longleftrightarrow> (\<exists>d c'. c = d @ ''/'' # c' \<and> ''/'' \<notin> set d \<and> k = length d)"
proof (induction c arbitrary: k)
  case (Cons x c)
  show ?case
  proof (cases "x = ''/''")
    case True
    then show ?thesis by (auto simp: Cons_eq_append_conv)
  next
    case False
    then show ?thesis using Cons by (fastforce simp: Cons_eq_append_conv)
  qed
qed simp

lemma find_slash_append: "''/'' \<notin> set d \<Longrightarrow> find_slash (d @ ''/'' # c) = Some (length d)"
  by (auto simp: find_slash_Some)

lemma glob_lang_Dirs_step:
  "glob_lang start (Dirs # ts) c \<longleftrightarrow> glob_lang start ts c \<or>
    (\<not> (start \<and> hidden c) \<and> (\<exists>k. find_slash c = Some k \<and> glob_lang True (Dirs # ts) (drop (Suc k) c)))"
  (is "?l \<longleftrightarrow> ?r")
proof
  assume ?l
  then show ?r by (rule glob_lang_DirsE) (auto simp: find_slash_append)
next
  assume ?r
  then show ?l by (auto simp: find_slash_Some intro: glob_lang.no_dirs glob_lang.dirs)
qed

section \<open>The matcher decides the language\<close>

lemma class_values_items:
  "(class_values p i acc = None \<longrightarrow> class_items (drop i p) = None) \<and>
   (\<forall>j vs. class_values p i acc = Some (j, vs) \<longrightarrow>
     (\<exists>ws. vs = acc @ ws \<and> class_items (drop i p) = (if j < length p then Some (ws, drop (Suc j) p) else None)))"
proof (induction p i acc rule: class_values.induct)
  case (1 p i acc)
  show ?case
  proof (cases "i < length p \<and> p ! i \<noteq> '']''")
    case False
    then show ?thesis by (auto simp: class_values.simps [of p i acc] Cons_nth_drop_Suc [symmetric])
  next
    case True
    note d = Cons_nth_drop_Suc [OF conjunct1 [OF True], symmetric]
    show ?thesis
    proof (cases "p ! i = [CHR 0x5C]")
      case False
      then show ?thesis using True 1(2) [OF True False]
        by (cases "class_items (drop (Suc i) p)") (auto simp: class_values.simps [of p i acc] d split: if_splits)
    next
      case bs: True
      show ?thesis
      proof (cases "i + 1 < length p")
        case T: True
        then show ?thesis using True 1(1) [OF True bs T] bs
          by (cases "class_items (drop (Suc (Suc i)) p)") (auto simp: class_values.simps [of p i acc] d Cons_nth_drop_Suc [OF T, symmetric, simplified] split: if_splits)
      next
        case False
        then show ?thesis using True bs by (auto simp: class_values.simps [of p i acc] d)
      qed
    qed
  qed
qed

lemma class_values_stop: "class_values p i acc = Some (j, vs) \<Longrightarrow> j < length p \<Longrightarrow> p ! j = '']''"
  by (induction p i acc rule: class_values.induct) (subst (asm) (3) class_values.simps, force split: if_splits)

lemma class_values_char:
  "class_values p i [] = None \<Longrightarrow> class_items (drop i p) = None"
  "class_values p i [] = Some (j, vs) \<Longrightarrow> class_items (drop i p) = (if j < length p then Some (vs, drop (Suc j) p) else None)"
  using class_values_items [of p i "[]"] by auto

lemma character_class_parse:
  assumes "i < length p"
  shows "case parse_class (drop (Suc i) p) of
      None \<Rightarrow> character_class p i v = None
    | Some (P, rest) \<Rightarrow> \<exists>j. character_class p i v = Some (Suc j, P v) \<and> j < length p \<and> p ! j = '']'' \<and> rest = drop (Suc j) p"
proof -
  define negated where "negated = (Suc i < length p \<and> is_negation (p ! Suc i))"
  define k where "k = (if negated then Suc (Suc i) else Suc i)"
  have negated: "(drop (Suc i) p \<noteq> [] \<and> is_negation (hd (drop (Suc i) p))) = negated"
    by (auto simp: negated_def hd_drop_conv_nth)
  have parse: "parse_class (drop (Suc i) p) = Option.bind (class_items (drop k p)) (\<lambda>(vs, rest).
      if vs = [] then None else Some (\<lambda>v. negated \<noteq> class_member v vs, rest))"
    unfolding parse_class_def Let_def negated by (simp add: k_def drop_Suc tl_drop)
  have run: "character_class p i v = Option.bind (class_values p k []) (\<lambda>(j, vs).
      if j \<ge> length p \<or> vs = [] then None else Some (Suc j, negated \<noteq> class_member v vs))"
    by (simp add: character_class_def Let_def k_def cong: if_cong flip: negated_def)
  show ?thesis
  proof (cases "class_values p k []")
    case None
    then show ?thesis by (simp add: parse run class_values_char)
  next
    case (Some jv)
    obtain j vs where jv: "jv = (j, vs)" by force
    with Some class_values_char(2) [of p k j vs] class_values_stop [of p k "[]" j vs]
    show ?thesis by (auto simp: parse run)
  qed
qed

definition glob_spec :: "string list \<Rightarrow> string list \<Rightarrow> nat \<Rightarrow> nat \<Rightarrow> bool" where
  "glob_spec p c i j = glob_lang (segment_start c j) (glob_tokens (i = 0 \<or> p ! (i - 1) = ''/'') (drop i p)) (drop j c)"

definition memo_ok :: "string list \<Rightarrow> string list \<Rightarrow> memo \<Rightarrow> bool" where
  "memo_ok p c memo \<longleftrightarrow> (\<forall>i j r. memo (i, j) = Some r \<longrightarrow> r = glob_spec p c i j)"

definition answers :: "string list \<Rightarrow> string list \<Rightarrow> (memo, bool) act \<Rightarrow> bool \<Rightarrow> bool" where
  "answers p c m r \<longleftrightarrow> (\<forall>memo. memo_ok p c memo \<longrightarrow> (\<exists>memo'. m memo = (Inr r, memo') \<and> memo_ok p c memo'))"

lemma answers_ret: "r = r' \<Longrightarrow> answers p c (retA r) r'"
  by (simp add: answers_def retA_def)

lemma answers_or: "answers p c m a \<Longrightarrow> answers p c n b \<Longrightarrow> r = (a \<or> b) \<Longrightarrow> answers p c (orA m n) r"
  unfolding answers_def
proof (intro allI impI)
  fix memo assume mn: "\<forall>memo. memo_ok p c memo \<longrightarrow> (\<exists>memo'. m memo = (Inr a, memo') \<and> memo_ok p c memo')"
    "\<forall>memo. memo_ok p c memo \<longrightarrow> (\<exists>memo'. n memo = (Inr b, memo') \<and> memo_ok p c memo')"
    "r = (a \<or> b)" and ok: "memo_ok p c memo"
  from mn(1) ok obtain memo1 where m: "m memo = (Inr a, memo1)" "memo_ok p c memo1" by blast
  from mn(2) m(2) obtain memo2 where "n memo1 = (Inr b, memo2)" "memo_ok p c memo2" by blast
  then show "\<exists>memo'. orA m n memo = (Inr r, memo') \<and> memo_ok p c memo'"
    using m mn(3) by (cases a) (simp_all add: orA_def bindA_def retA_def)
qed

lemma answers_memo:
  assumes "answers p c m (glob_spec p c i j)"
  shows "answers p c (bindA (readA (\<lambda>memo. memo (i, j))) (\<lambda>cached. case cached of Some r \<Rightarrow> retA r | None \<Rightarrow>
    bindA m (\<lambda>r. bindA (updateA (\<lambda>memo. memo((i, j) \<mapsto> r))) (\<lambda>_. retA r)))) (glob_spec p c i j)"
  unfolding answers_def
proof (intro allI impI)
  fix memo assume ok: "memo_ok p c memo"
  show "\<exists>memo'. bindA (readA (\<lambda>memo. memo (i, j))) (\<lambda>cached. case cached of Some r \<Rightarrow> retA r | None \<Rightarrow>
    bindA m (\<lambda>r. bindA (updateA (\<lambda>memo. memo((i, j) \<mapsto> r))) (\<lambda>_. retA r))) memo = (Inr (glob_spec p c i j), memo') \<and> memo_ok p c memo'"
  proof (cases "memo (i, j)")
    case None
    from assms ok obtain memo' where "m memo = (Inr (glob_spec p c i j), memo')" "memo_ok p c memo'"
      by (auto simp: answers_def)
    then show ?thesis using None by (auto simp: bindA_def readA_def updateA_def retA_def memo_ok_def)
  next
    case (Some r)
    then show ?thesis using ok by (auto simp: bindA_def readA_def retA_def memo_ok_def)
  qed
qed

lemma segment_start_drop: "segment_start c j \<and> get_char c j = Some ''.'' \<longleftrightarrow> segment_start c j \<and> hidden (drop j c)"
  by (auto simp: get_char_def hidden_def hd_drop_conv_nth)

lemma segment_start_Suc: "j < length c \<Longrightarrow> segment_start c (Suc j) \<longleftrightarrow> c ! j = ''/''"
  by (simp add: segment_start_def)

lemma drop_get_char:
  "get_char c j = Some x \<Longrightarrow> drop j c = x # drop (Suc j) c"
  "get_char c j = None \<longleftrightarrow> drop j c = []"
  by (auto simp: get_char_def Cons_nth_drop_Suc split: if_splits)

lemma get_char_None: "get_char c j = None \<Longrightarrow> drop j c = []"
  by (simp only: drop_get_char)

lemma skip_stars_dropWhile: "i \<le> length p \<Longrightarrow> drop (skip_stars p i) p = dropWhile (\<lambda>c. c = ''*'') (drop i p)"
proof (induction p i rule: skip_stars.induct)
  case (1 p i)
  show ?case
  proof (cases "i < length p")
    case True
    then show ?thesis using 1 by (subst skip_stars.simps) (simp add: Cons_nth_drop_Suc [OF True, symmetric])
  qed (use 1 skip_stars_le [of i p] in simp)
qed

lemma skip_stars_bound: "i \<le> length p \<Longrightarrow> skip_stars p i \<le> length p"
  by (induction p i rule: skip_stars.induct) (subst skip_stars.simps, auto)

lemma skip_stars_prev: "i < skip_stars p i \<Longrightarrow> p ! (skip_stars p i - 1) = ''*''"
proof (induction p i rule: skip_stars.induct)
  case (1 p i)
  then show ?case
    by (cases "i + 1 < skip_stars p (i + 1)"; use skip_stars_le [of "i + 1" p] in \<open>auto simp: skip_stars.simps [of p i] split: if_splits\<close>)
qed

lemma skip_stars_two: "i < length p \<Longrightarrow> i + 2 \<le> skip_stars p (i + 1) \<longleftrightarrow> drop (Suc i) p \<noteq> [] \<and> hd (drop (Suc i) p) = ''*''"
  using skip_stars_le [of "i + 2" p] by (auto simp: skip_stars.simps [of p "Suc i"] hd_drop_conv_nth)

lemma glob_spec_end: "j \<le> length c \<Longrightarrow> glob_spec p c (length p) j \<longleftrightarrow> j = length c"
  by (auto simp: glob_spec_def glob_lang_Nil)

text \<open>One step of the language for each kind of pattern character.\<close>

lemma pattern_step: "i < length p \<Longrightarrow> glob_spec p c i j = glob_lang (segment_start c j) (glob_tokens (i = 0 \<or> p ! (i - 1) = ''/'') (p ! i # drop (Suc i) p)) (drop j c)"
  by (simp add: glob_spec_def Cons_nth_drop_Suc)

lemma glob_spec_literal:
  assumes "i < length p" "p ! i \<notin> {[CHR 0x5C], ''?'', ''['', ''*''}"
  shows "glob_spec p c i j \<longleftrightarrow> get_char c j = Some (p ! i) \<and> glob_spec p c (i + 1) (j + 1)"
proof (cases "get_char c j")
  case None
  then show ?thesis using assms by (simp add: pattern_step glob_lang_Lit get_char_None)
next
  case (Some x)
  then have "segment_start c (Suc j) \<longleftrightarrow> x = ''/''" by (auto simp: get_char_Some segment_start_Suc)
  then show ?thesis unfolding pattern_step [OF assms(1)] using assms drop_get_char(1) [OF Some] Some
    by (auto simp: glob_lang_Lit glob_spec_def)
qed

lemma glob_spec_escape:
  assumes "i < length p" "p ! i = [CHR 0x5C]"
  shows "glob_spec p c i j \<longleftrightarrow> i + 1 < length p \<and> get_char c j = Some (p ! (i + 1)) \<and> glob_spec p c (i + 2) (j + 1)"
proof (cases "i + 1 < length p")
  case False
  then show ?thesis using assms by (simp add: pattern_step glob_lang_Never)
next
  case True
  show ?thesis
  proof (cases "get_char c j")
    case None
    then show ?thesis using assms True by (simp add: pattern_step glob_lang_Lit get_char_None Cons_nth_drop_Suc [symmetric])
  next
    case (Some x)
    then have "segment_start c (Suc j) \<longleftrightarrow> x = ''/''" by (auto simp: get_char_Some segment_start_Suc)
    then show ?thesis unfolding pattern_step [OF assms(1)] using assms(2) drop_get_char(1) [OF Some] Some True
      by (auto simp: glob_lang_Lit glob_spec_def Cons_nth_drop_Suc [symmetric])
  qed
qed

lemma glob_lang_One_char:
  "glob_lang (segment_start c j) (One P # ts) (drop j c) \<longleftrightarrow>
    (\<exists>x. get_char c j = Some x \<and> x \<noteq> ''/'' \<and> \<not> (segment_start c j \<and> x = ''.'') \<and> P x \<and>
      glob_lang (segment_start c (Suc j)) ts (drop (Suc j) c))"
proof (cases "get_char c j")
  case None
  then show ?thesis by (simp add: glob_lang_One get_char_None)
next
  case (Some x)
  then have "segment_start c (Suc j) \<longleftrightarrow> x = ''/''" by (auto simp: get_char_Some segment_start_Suc)
  then show ?thesis using Some drop_get_char(1) [OF Some] by (auto simp: glob_lang_One)
qed

lemma glob_spec_question:
  assumes "i < length p" "p ! i = ''?''"
  shows "glob_spec p c i j \<longleftrightarrow> get_char c j \<noteq> None \<and> get_char c j \<noteq> Some ''/'' \<and>
    \<not> (segment_start c j \<and> get_char c j = Some ''.'') \<and> glob_spec p c (i + 1) (j + 1)"
  unfolding pattern_step [OF assms(1)] assms(2) by (auto simp: glob_lang_One_char glob_spec_def assms(2))

lemma glob_spec_class:
  assumes "i < length p" "p ! i = ''[''"
  shows "glob_spec p c i j \<longleftrightarrow> (\<exists>x i'. get_char c j = Some x \<and> x \<noteq> ''/'' \<and> \<not> (segment_start c j \<and> x = ''.'') \<and>
    character_class p i x = Some (i', True) \<and> glob_spec p c i' (j + 1))"
proof (cases "parse_class (drop (Suc i) p)")
  case None
  then have "\<And>x. character_class p i x = None" using character_class_parse [OF assms(1)] by simp
  then show ?thesis using None assms by (simp add: pattern_step glob_lang_Never)
next
  case (Some Pr)
  obtain P rest where Pr: "Pr = (P, rest)" by force
  have run: "\<exists>k. character_class p i x = Some (Suc k, P x) \<and> p ! k = '']'' \<and> rest = drop (Suc k) p" for x
    using character_class_parse [OF assms(1), of x] Some Pr by auto
  have "glob_spec p c i j \<longleftrightarrow> glob_lang (segment_start c j) (One P # glob_tokens False rest) (drop j c)"
    using assms Some Pr by (simp add: pattern_step)
  also have "\<dots> \<longleftrightarrow> (\<exists>x. get_char c j = Some x \<and> x \<noteq> ''/'' \<and> \<not> (segment_start c j \<and> x = ''.'') \<and> P x \<and>
      glob_lang (segment_start c (Suc j)) (glob_tokens False rest) (drop (Suc j) c))"
    by (rule glob_lang_One_char)
  also have "\<dots> \<longleftrightarrow> (\<exists>x i'. get_char c j = Some x \<and> x \<noteq> ''/'' \<and> \<not> (segment_start c j \<and> x = ''.'') \<and>
    character_class p i x = Some (i', True) \<and> glob_spec p c i' (j + 1))"
  proof (intro ex_cong1)
    fix x
    from run [of x] obtain k where "character_class p i x = Some (Suc k, P x)" "p ! k = '']''" "rest = drop (Suc k) p" by blast
    then show "(get_char c j = Some x \<and> x \<noteq> ''/'' \<and> \<not> (segment_start c j \<and> x = ''.'') \<and> P x \<and>
      glob_lang (segment_start c (Suc j)) (glob_tokens False rest) (drop (Suc j) c)) \<longleftrightarrow>
      (\<exists>i'. get_char c j = Some x \<and> x \<noteq> ''/'' \<and> \<not> (segment_start c j \<and> x = ''.'') \<and>
    character_class p i x = Some (i', True) \<and> glob_spec p c i' (j + 1))"
      by (auto simp: glob_spec_def)
  qed
  finally show ?thesis .
qed

definition globstar_at :: "string list \<Rightarrow> nat \<Rightarrow> bool" where
  "globstar_at p i \<longleftrightarrow> skip_stars p (i + 1) \<ge> i + 2 \<and> get_char p (skip_stars p (i + 1)) = Some ''/'' \<and> (i = 0 \<or> p ! (i - 1) = ''/'')"

lemma glob_tokens_star:
  "glob_tokens start (''*'' # p) =
    (if start \<and> p \<noteq> [] \<and> hd p = ''*'' \<and> dropWhile (\<lambda>c. c = ''*'') p \<noteq> [] \<and> hd (dropWhile (\<lambda>c. c = ''*'') p) = ''/''
     then Dirs # glob_tokens True (tl (dropWhile (\<lambda>c. c = ''*'') p))
     else Star # glob_tokens False (dropWhile (\<lambda>c. c = ''*'') p))"
  by (simp add: Let_def)

lemma star_tokens:
  assumes "i < length p" "p ! i = ''*''"
  shows "glob_spec p c i j = glob_lang (segment_start c j)
    (if globstar_at p i then Dirs # glob_tokens True (drop (skip_stars p (i + 1) + 1) p)
     else Star # glob_tokens False (drop (skip_stars p (i + 1)) p)) (drop j c)"
proof -
  have d: "dropWhile (\<lambda>c. c = ''*'') (drop (Suc i) p) = drop (skip_stars p (i + 1)) p"
    using skip_stars_dropWhile [of "i + 1" p] assms(1) by simp
  have g: "drop (skip_stars p (i + 1)) p \<noteq> [] \<and> hd (drop (skip_stars p (i + 1)) p) = ''/'' \<longleftrightarrow> get_char p (skip_stars p (i + 1)) = Some ''/''"
    by (auto simp: get_char_def hd_drop_conv_nth)
  have eq: "globstar_at p i \<longleftrightarrow> (i = 0 \<or> p ! (i - 1) = ''/'') \<and> drop (Suc i) p \<noteq> [] \<and> hd (drop (Suc i) p) = ''*'' \<and>
      drop (skip_stars p (i + 1)) p \<noteq> [] \<and> hd (drop (skip_stars p (i + 1)) p) = ''/''"
    unfolding globstar_at_def skip_stars_two [OF assms(1)] g [symmetric] by blast
  show ?thesis
    unfolding pattern_step [OF assms(1)] assms(2) glob_tokens_star d eq [symmetric] by (simp add: drop_Suc tl_drop)
qed

lemma glob_spec_star:
  assumes "i < length p" "p ! i = ''*''" "\<not> globstar_at p i"
  shows "glob_spec p c i j \<longleftrightarrow> \<not> (segment_start c j \<and> get_char c j = Some ''.'') \<and>
    (glob_spec p c (skip_stars p (i + 1)) j \<or> (get_char c j \<noteq> None \<and> get_char c j \<noteq> Some ''/'' \<and> glob_spec p c i (j + 1)))"
proof -
  let ?k = "skip_stars p (i + 1)"
  have "p ! (?k - 1) = ''*''" "0 < ?k"
    using skip_stars_prev [of i p] skip_stars_less [of i p] assms by (auto simp: skip_stars.simps [of p i])
  then have after: "glob_spec p c ?k j' = glob_lang (segment_start c j') (glob_tokens False (drop ?k p)) (drop j' c)" for j'
    by (simp add: glob_spec_def)
  have star: "glob_spec p c i j' = glob_lang (segment_start c j') (Star # glob_tokens False (drop ?k p)) (drop j' c)" for j'
    using star_tokens [OF assms(1,2)] assms(3) by simp
  show ?thesis
  proof (cases "get_char c j")
    case None
    then show ?thesis unfolding star after by (subst glob_lang_Star_step) (simp add: get_char_None hidden_def)
  next
    case (Some x)
    then have "segment_start c (Suc j) \<longleftrightarrow> x = ''/''" by (auto simp: get_char_Some segment_start_Suc)
    then show ?thesis unfolding star after
      by (subst glob_lang_Star_step) (auto simp: Some drop_get_char(1) [OF Some] hidden_def)
  qed
qed

lemma glob_spec_globstar:
  assumes "i < length p" "p ! i = ''*''" "globstar_at p i"
  shows "glob_spec p c i j \<longleftrightarrow> glob_spec p c (skip_stars p (i + 1) + 1) j \<or>
    (\<not> (segment_start c j \<and> get_char c j = Some ''.'') \<and>
     (\<exists>k. find_slash (drop j c) = Some k \<and> glob_spec p c i (j + k + 1)))"
proof -
  let ?k = "skip_stars p (i + 1)"
  have "p ! ?k = ''/''" using assms(3) by (simp add: globstar_at_def get_char_Some)
  then have after: "glob_spec p c (?k + 1) j' = glob_lang (segment_start c j') (glob_tokens True (drop (?k + 1) p)) (drop j' c)" for j'
    by (simp add: glob_spec_def)
  have dirs: "glob_spec p c i j' = glob_lang (segment_start c j') (Dirs # glob_tokens True (drop (?k + 1) p)) (drop j' c)" for j'
    using star_tokens [OF assms(1,2)] assms(3) by simp
  have slash: "segment_start c (Suc (j + k)) \<and> drop (Suc k) (drop j c) = drop (Suc (j + k)) c" if "find_slash (drop j c) = Some k" for k
  proof -
    from that obtain d c' where "drop j c = d @ ''/'' # c'" "k = length d" by (auto simp: find_slash_Some)
    then have "drop j c ! k = ''/''" "k < length (drop j c)" by auto
    then show ?thesis by (simp add: segment_start_def add.commute)
  qed
  show ?thesis
    unfolding dirs after segment_start_drop by (subst glob_lang_Dirs_step) (use slash in auto)
qed

lemma character_class_bound: "i < length p \<Longrightarrow> character_class p i v = Some (k, b) \<Longrightarrow> k \<le> length p"
  using character_class_parse [of i p v] by (auto split: option.splits)

lemma find_slash_bound: "find_slash c = Some k \<Longrightarrow> k < length c"
  by (auto simp: find_slash_Some)

lemma glob_matches_answers: "i \<le> length p \<Longrightarrow> j \<le> length c \<Longrightarrow> answers p c (glob_matches p c i j) (glob_spec p c i j)"
proof (induction "remaining (p, c, i, j)" arbitrary: i j rule: less_induct)
  case less
  have later: "answers p c (glob_matches p c i' j') (glob_spec p c i' j')"
    if "i < length p" "i < i'" "i' \<le> length p" "j \<le> j'" "j' \<le> length c" for i' j'
    using less.hyps remaining_pattern [OF that(1,2,4)] that by simp
  have further: "answers p c (glob_matches p c i j') (glob_spec p c i j')"
    if "get_char c j \<noteq> None" "j < j'" "j' \<le> length c" for j'
    using less.hyps remaining_candidate [OF that(1,2)] that less.prems by simp
  have next_char: "Suc j \<le> length c" if "get_char c j = Some x" for x
    using that by (simp add: get_char_Some)
  note [simp del] = One_nat_def add_2_eq_Suc'
  note step = glob_matches.simps [of p c i j, THEN arg_cong [where f = "\<lambda>m. answers p c m (glob_spec p c i j)"], THEN iffD2, OF answers_memo]
  consider (stop) "i = length p" | (escape) "i < length p" "p ! i = [CHR 0x5C]" | (question) "i < length p" "p ! i = ''?''"
    | (cclass) "i < length p" "p ! i = ''[''" | (globstar) "i < length p" "p ! i = ''*''" "globstar_at p i"
    | (star) "i < length p" "p ! i = ''*''" "\<not> globstar_at p i"
    | (literal) "i < length p" "p ! i \<notin> {[CHR 0x5C], ''?'', ''['', ''*''}"
    using less.prems by fastforce
  then show ?case
  proof cases
    case stop
    then show ?thesis using less.prems by (intro step) (simp add: answers_ret glob_spec_end)
  next
    case escape
    show ?thesis
      by (intro step) (use escape less.prems glob_spec_escape [OF escape, of c j] in
        \<open>auto simp: Let_def get_char_Some intro!: answers_ret later [of "i + 2" "j + 1", simplified]\<close>)
  next
    case question
    show ?thesis
      by (intro step) (use question less.prems glob_spec_question [OF question, of c j] in
        \<open>auto simp: Let_def intro!: answers_ret later [of "i + 1" "j + 1", simplified] dest: next_char\<close>)
  next
    case literal
    show ?thesis
      by (intro step) (use literal less.prems glob_spec_literal [OF literal, of c j] in
        \<open>auto simp: Let_def intro!: answers_ret later [of "i + 1" "j + 1", simplified] dest: next_char\<close>)
  next
    case cclass
    show ?thesis
      by (intro step) (use cclass less.prems glob_spec_class [OF cclass, of c j] in
        \<open>auto simp: Let_def split: option.splits intro!: answers_ret later dest: next_char character_class_next character_class_bound\<close>)
  next
    case star
    have "answers p c (if get_char c j \<noteq> None \<and> get_char c j \<noteq> Some ''/'' then glob_matches p c i (j + 1) else retA False)
        (get_char c j \<noteq> None \<and> get_char c j \<noteq> Some ''/'' \<and> glob_spec p c i (j + 1))"
      using further [of "j + 1"] next_char by (auto intro!: answers_ret)
    note either = answers_or [OF later [OF star(1) skip_stars_less(1) skip_stars_bound order_refl less.prems(2)] this]
    have "answers p c (if segment_start c j \<and> get_char c j = Some ''.'' then retA False
      else orA (glob_matches p c (skip_stars p (i + 1)) j)
        (if get_char c j \<noteq> None \<and> get_char c j \<noteq> Some ''/'' then glob_matches p c i (j + 1) else retA False)) (glob_spec p c i j)"
    proof (cases "segment_start c j \<and> get_char c j = Some ''.''")
      case False
      then show ?thesis unfolding glob_spec_star [OF star, of c j] if_not_P [OF False]
        by (intro either) (use star(1) in auto)
    qed (simp add: glob_spec_star [OF star, of c j] answers_ret)
    then show ?thesis
      by (intro step) (use star in \<open>simp add: Let_def split del: if_split flip: globstar_at_def\<close>)
  next
    case globstar
    then have k: "skip_stars p (i + 1) + 1 \<le> length p" by (simp add: globstar_at_def get_char_Some)
    have "answers p c (if get_char c j = None \<or> segment_start c j \<and> get_char c j = Some ''.'' then retA False
        else case find_slash (drop j c) of None \<Rightarrow> retA False | Some slash \<Rightarrow> glob_matches p c i (j + slash + 1))
      (\<not> (segment_start c j \<and> get_char c j = Some ''.'') \<and> (\<exists>k. find_slash (drop j c) = Some k \<and> glob_spec p c i (j + k + 1)))"
      using further get_char_None [of c j] find_slash_bound [of "drop j c"]
      by (auto intro!: answers_ret split: option.splits)
    note either = answers_or [OF later [OF globstar(1) skip_stars_less(2) k order_refl less.prems(2)] this]
    have "answers p c (orA (glob_matches p c (skip_stars p (i + 1) + 1) j)
      (if get_char c j = None \<or> segment_start c j \<and> get_char c j = Some ''.'' then retA False
        else case find_slash (drop j c) of None \<Rightarrow> retA False | Some slash \<Rightarrow> glob_matches p c i (j + slash + 1))) (glob_spec p c i j)"
      by (rule either) (simp add: glob_spec_globstar [OF globstar, of c j])
    then show ?thesis
      by (intro step) (use globstar in \<open>simp add: Let_def split del: if_split flip: globstar_at_def\<close>)
  qed
qed

definition valid_pattern :: "string \<Rightarrow> bool" where
  "valid_pattern pattern \<longleftrightarrow> pattern \<noteq> [] \<and> length pattern \<le> MAX_DEPLOYMENT_BRANCH_PATTERN_BYTES \<and>
    \<not> contains_any pattern [CHR 0x00, newline, carriage_return]"

lemma valid_pattern_matches:
  assumes "valid_pattern pattern"
  shows "deployment_pattern_matches pattern candidate =
    Inr (glob_lang True (glob_tokens True (utf8_chars pattern)) (utf8_chars candidate))"
proof -
  let ?p = "utf8_chars pattern" and ?c = "utf8_chars candidate"
  have "memo_ok ?p ?c Map.empty" by (simp add: memo_ok_def)
  with glob_matches_answers [of 0 ?p 0 ?c]
  have "fst (glob_matches ?p ?c 0 0 Map.empty) = Inr (glob_spec ?p ?c 0 0)" by (auto simp: answers_def)
  then show ?thesis
    using assms by (auto simp: deployment_pattern_matches_def valid_pattern_def glob_spec_def segment_start_def)
qed

lemma pattern_matches_no_panic: "deployment_pattern_matches pattern candidate \<noteq> Inl AgentPanic"
  by (cases "valid_pattern pattern") (simp add: valid_pattern_matches, auto simp: valid_pattern_def deployment_pattern_matches_def)

text \<open>
  C13. The matcher of deployment branch patterns, with its indices, its scan of character classes
  and its memo table, terminates without a panic and decides the language of the pattern: stars stay
  within a path segment, \<open>**/\<close> covers whole directories, and a leading dot of a segment is only
  matched by a dot.
\<close>

theorem deployment_pattern_matches_correct:
  "deployment_pattern_matches pattern candidate =
    Inr (pattern \<noteq> [] \<and> length pattern \<le> 1024 \<and> \<not> contains_any pattern [CHR 0x00, newline, carriage_return] \<and>
      glob_lang True (glob_tokens True (utf8_chars pattern)) (utf8_chars candidate))"
proof (cases "valid_pattern pattern")
  case True
  then show ?thesis using valid_pattern_matches [OF True, of candidate]
    by (simp add: valid_pattern_def MAX_DEPLOYMENT_BRANCH_PATTERN_BYTES_def)
next
  case False
  then show ?thesis
    by (auto simp: valid_pattern_def deployment_pattern_matches_def MAX_DEPLOYMENT_BRANCH_PATTERN_BYTES_def)
qed

text \<open>A pattern without special characters matches exactly itself.\<close>

lemma literal_glob:
  "list_all (\<lambda>ch. ch \<notin> {[CHR 0x5C], ''?'', ''['', ''*''}) p \<Longrightarrow> glob_lang start (glob_tokens start' p) c \<longleftrightarrow> c = p"
  by (induction p arbitrary: c start start') (auto simp: glob_lang_Nil glob_lang_Lit)

end
