(* ===== verification/Environments.thy ===== *)
theory Environments
  imports Deployment_Patterns Protocol
begin

text \<open>
  The agent's requests to the GitHub API (\<open>gitzero-agent/src/executor.rs\<close>): the deployment
  environment of a job with its branch policies and variables, and the changed files of a pull
  request. \<open>github_world\<close> holds what the crates \<open>reqwest\<close>, \<open>url\<close> and \<open>serde_json\<close> do.
\<close>

section \<open>Replies\<close>

record environment_metadata =
  em_name :: string
  em_protection_rules :: "json list"
  em_deployment_branch_policy :: "(bool \<times> bool) option"

datatype branch_policy_mode = Unrestricted | ProtectedBranches | CustomPolicies

record environment_request =
  er_api_base :: string
  er_owner :: string
  er_repository :: string
  er_environment_name :: string
  er_github_ref :: string
  er_api_version :: string
  er_token :: string

record deployment_branch_policy =
  bp_name :: string
  bp_policy_type :: string

record policy_page_data =
  pp_total_count :: nat
  pp_branch_policies :: "deployment_branch_policy list"

record github_branch =
  gb_name :: string
  gb_protected :: bool

record actions_variable =
  av_name :: string
  av_value :: string

record variable_page_data =
  vp_total_count :: nat
  vp_variables :: "actions_variable list"

text \<open>
  What sending a request and reading its reply give: no reply, a cancelled run, or a status with
  its text, the announced length and the body unless reading it fails.
\<close>

datatype http_reply = SendFailed | RunCancelled | Reply bool string "nat option" "string option"

record 'u github_world =
  build_client :: bool
  url_parse :: "string \<Rightarrow> 'u option"
  url_extend :: "'u \<Rightarrow> string list \<Rightarrow> 'u option"
  url_push :: "'u \<Rightarrow> string list \<Rightarrow> 'u option"
  url_clear :: "'u \<Rightarrow> 'u"
  url_append :: "'u \<Rightarrow> (string \<times> string) list \<Rightarrow> 'u"
  http_get :: "'u \<Rightarrow> string \<Rightarrow> string option \<Rightarrow> http_reply"
  utf8_lossy :: "string \<Rightarrow> string"
  decode_environment :: "string \<Rightarrow> environment_metadata option"
  decode_policies :: "string \<Rightarrow> policy_page_data option"
  decode_variables :: "string \<Rightarrow> variable_page_data option"
  decode_branch :: "string \<Rightarrow> github_branch option"
  decode_branches :: "string \<Rightarrow> github_branch list option"
  decode_files :: "string \<Rightarrow> string list option"
  unicode_upper :: "string \<Rightarrow> string"
  unicode_lower :: "string \<Rightarrow> string"

definition MAX_GITHUB_API_RESPONSE_BYTES :: nat where
  "MAX_GITHUB_API_RESPONSE_BYTES = 10 * 1024 * 1024"

definition truncate_text :: "string \<Rightarrow> nat \<Rightarrow> string" where
  "truncate_text v maximum_chars =
    (let chs = utf8_chars v; prefix = concat (take maximum_chars chs) in
     if drop maximum_chars chs \<noteq> [] then prefix @ [CHR 0xE2, CHR 0x80, CHR 0xA6] else prefix)"

definition bail :: "string \<Rightarrow> agent_failure + 'a" where
  "bail message = Inl (Bail message)"

definition quoted :: "string \<Rightarrow> string" where
  "quoted s = CHR 0x27 # s @ [CHR 0x27]"

definition github_repository_api_url :: "'u github_world \<Rightarrow> string \<Rightarrow> string \<Rightarrow> string \<Rightarrow> string list \<Rightarrow> agent_failure + 'u" where
  "github_repository_api_url W api_base owner repo suffix =
    bindE (ok_or (url_parse W api_base) (Bail ''invalid URL'')) (\<lambda>endpoint.
    ok_or (url_extend W endpoint ([''repos'', owner, repo] @ suffix))
      (Bail ''GitHub API base URL cannot accept path segments''))"

definition github_api_get_json ::
  "'u github_world \<Rightarrow> (string \<Rightarrow> 'a option) \<Rightarrow> 'u \<Rightarrow> string \<Rightarrow> string \<Rightarrow> string \<Rightarrow> agent_failure + 'a"
where
  "github_api_get_json W decode endpoint api_version token operation =
    (case http_get W endpoint api_version (Some token) of
      SendFailed \<Rightarrow> bail operation
    | RunCancelled \<Rightarrow> bail (''run cancelled while attempting to '' @ operation)
    | Reply success status content_length body \<Rightarrow>
        if (case content_length of Some n \<Rightarrow> n > MAX_GITHUB_API_RESPONSE_BYTES | None \<Rightarrow> False)
        then bail (''GitHub API response for '' @ operation @ '' exceeded the size limit'')
        else bindE (ok_or body (Bail (''read GitHub API response for '' @ operation))) (\<lambda>bytes.
          if length bytes > MAX_GITHUB_API_RESPONSE_BYTES
          then bail (''GitHub API response for '' @ operation @ '' exceeded the size limit'')
          else if \<not> success then
            bail (''GitHub API '' @ operation @ '' failed ('' @ status @ ''): '' @ truncate_text (utf8_lossy W bytes) 4096)
          else ok_or (decode bytes) (Bail (''decode GitHub API '' @ operation @ '' response''))))"

text \<open>A \<open>for\<close> loop whose body can break.\<close>

fun break_loop :: "('s \<Rightarrow> 'a \<Rightarrow> 'e + bool \<times> 's) \<Rightarrow> 's \<Rightarrow> 'a list \<Rightarrow> 'e + 's" where
  "break_loop f s [] = Inr s"
| "break_loop f s (x # xs) = bindE (f s x) (\<lambda>(stop, s). if stop then Inr s else break_loop f s xs)"

section \<open>Branch policies\<close>

definition control_chars :: "char list" where
  "control_chars = [CHR 0x00, newline, carriage_return]"

definition validate_environment_metadata :: "string \<Rightarrow> environment_metadata \<Rightarrow> agent_failure + branch_policy_mode" where
  "validate_environment_metadata requested_name m =
    (if \<not> eq_ignore_ascii_case (em_name m) requested_name
     then bail (''GitHub returned environment '' @ quoted (em_name m) @ '' while '' @ quoted requested_name @ '' was requested'')
     else if em_protection_rules m \<noteq> []
     then bail (''GitHub environment '' @ quoted requested_name @ '' has reviewer, wait-timer, or custom deployment protection rules that GitZero cannot safely emulate'')
     else case em_deployment_branch_policy m of
       None \<Rightarrow> Inr Unrestricted
     | Some (True, False) \<Rightarrow> Inr ProtectedBranches
     | Some (False, True) \<Rightarrow> Inr CustomPolicies
     | _ \<Rightarrow> bail (''GitHub environment '' @ quoted requested_name @ '' returned an invalid deployment branch policy''))"

definition deployment_policy_reference :: "string \<Rightarrow> agent_failure + string \<times> string" where
  "deployment_policy_reference github_ref =
    (case strip_prefix github_ref ''refs/heads/'' of
      Some (c # cs) \<Rightarrow> Inr (''branch'', c # cs)
    | _ \<Rightarrow> (case strip_prefix github_ref ''refs/tags/'' of
        Some (c # cs) \<Rightarrow> Inr (''tag'', c # cs)
      | _ \<Rightarrow> if starts_with github_ref ''refs/pull/'' then Inr (''branch'', github_ref)
          else bail (''workflow ref '' @ quoted github_ref @ '' cannot be evaluated against deployment branch policies'')))"

definition DEPLOYMENT_BRANCH_POLICY_PAGE_SIZE :: nat where
  "DEPLOYMENT_BRANCH_POLICY_PAGE_SIZE = 100"

definition MAX_DEPLOYMENT_BRANCH_POLICIES :: nat where
  "MAX_DEPLOYMENT_BRANCH_POLICIES = 1000"

definition MAX_DEPLOYMENT_BRANCH_PATTERN_TOTAL_BYTES :: nat where
  "MAX_DEPLOYMENT_BRANCH_PATTERN_TOTAL_BYTES = 256 * 1024"

definition div_ceil :: "nat \<Rightarrow> nat \<Rightarrow> nat" where
  "div_ceil a b = (a + b - 1) div b"

record policy_scan =
  ps_received :: nat
  ps_pattern_bytes :: nat
  ps_matched :: bool
  ps_reported_total :: "nat option"

definition valid_policy :: "deployment_branch_policy \<Rightarrow> bool" where
  "valid_policy p \<longleftrightarrow> bp_name p \<noteq> [] \<and> length (bp_name p) \<le> MAX_DEPLOYMENT_BRANCH_PATTERN_BYTES \<and>
    \<not> contains_any (bp_name p) control_chars \<and> bp_policy_type p \<in> {''branch'', ''tag''}"

definition check_policy ::
  "environment_request \<Rightarrow> string \<Rightarrow> string \<Rightarrow> policy_scan \<Rightarrow> deployment_branch_policy \<Rightarrow> agent_failure + policy_scan"
where
  "check_policy req reference_type reference_name s p =
    bindE (ensure (valid_policy p)
      (Bail (''GitHub environment '' @ quoted (er_environment_name req) @ '' returned an invalid deployment branch policy''))) (\<lambda>_.
    bindE (ok_or (if ps_pattern_bytes s + length (bp_name p) < 2 ^ 64 then Some (ps_pattern_bytes s + length (bp_name p)) else None)
      (Bail ''deployment branch policy size overflow'')) (\<lambda>pattern_bytes.
    bindE (ensure (pattern_bytes \<le> MAX_DEPLOYMENT_BRANCH_PATTERN_TOTAL_BYTES)
      (Bail (''GitHub environment '' @ quoted (er_environment_name req) @ '' deployment branch policies exceed the size limit''))) (\<lambda>_.
    bindE (if bp_policy_type p = reference_type then deployment_pattern_matches (bp_name p) reference_name else Inr False) (\<lambda>matches.
    Inr (s\<lparr>ps_pattern_bytes := pattern_bytes, ps_matched := ps_matched s \<or> matches, ps_received := ps_received s + 1\<rparr>)))))"

definition policy_page ::
  "'u github_world \<Rightarrow> environment_request \<Rightarrow> 'u \<Rightarrow> string \<Rightarrow> string \<Rightarrow> policy_scan \<Rightarrow> nat \<Rightarrow> agent_failure + bool \<times> policy_scan"
where
  "policy_page W req endpoint reference_type reference_name s page =
    bindE (github_api_get_json W (decode_policies W)
      (url_append W (url_clear W endpoint)
        [(''per_page'', show_nat DEPLOYMENT_BRANCH_POLICY_PAGE_SIZE), (''page'', show_nat page)])
      (er_api_version req) (er_token req)
      (''list environment '' @ quoted (er_environment_name req) @ '' deployment branch policies page '' @ show_nat page)) (\<lambda>response.
    bindE (ensure (pp_total_count response \<le> MAX_DEPLOYMENT_BRANCH_POLICIES)
      (Bail (''GitHub environment '' @ quoted (er_environment_name req) @ '' reports more than '' @ show_nat MAX_DEPLOYMENT_BRANCH_POLICIES @ '' deployment branch policies''))) (\<lambda>_.
    bindE (ensure (ps_reported_total s = None \<or> ps_reported_total s = Some (pp_total_count response))
      (Bail (''GitHub environment '' @ quoted (er_environment_name req) @ '' changed its deployment branch policy count during pagination''))) (\<lambda>_.
    bindE (ensure (length (pp_branch_policies response) \<le> DEPLOYMENT_BRANCH_POLICY_PAGE_SIZE)
      (Bail (''GitHub environment '' @ quoted (er_environment_name req) @ '' returned too many deployment branch policies on page '' @ show_nat page))) (\<lambda>_.
    bindE (foldE (check_policy req reference_type reference_name)
      (s\<lparr>ps_reported_total := Some (pp_total_count response)\<rparr>) (pp_branch_policies response)) (\<lambda>s.
    Inr (length (pp_branch_policies response) < DEPLOYMENT_BRANCH_POLICY_PAGE_SIZE \<or>
        ps_received s \<ge> pp_total_count response, s))))))"

definition enforce_custom_branch_policy :: "'u github_world \<Rightarrow> environment_request \<Rightarrow> agent_failure + unit" where
  "enforce_custom_branch_policy W req =
    bindE (deployment_policy_reference (er_github_ref req)) (\<lambda>(reference_type, reference_name).
    bindE (github_repository_api_url W (er_api_base req) (er_owner req) (er_repository req)
      [''environments'', er_environment_name req, ''deployment-branch-policies'']) (\<lambda>endpoint.
    bindE (break_loop (policy_page W req endpoint reference_type reference_name)
      \<lparr>ps_received = 0, ps_pattern_bytes = 0, ps_matched = False, ps_reported_total = None\<rparr>
      [1..<Suc (div_ceil MAX_DEPLOYMENT_BRANCH_POLICIES DEPLOYMENT_BRANCH_POLICY_PAGE_SIZE)]) (\<lambda>s.
    bindE (ensure (ps_received s = (case ps_reported_total s of Some n \<Rightarrow> n | None \<Rightarrow> 0))
      (Bail (''GitHub environment '' @ quoted (er_environment_name req) @ '' returned '' @ show_nat (ps_received s) @ '' of '' @
        show_nat (case ps_reported_total s of Some n \<Rightarrow> n | None \<Rightarrow> 0) @ '' deployment branch policies''))) (\<lambda>_.
    ensure (ps_matched s)
      (Bail (''GitHub environment '' @ quoted (er_environment_name req) @ '' deployment branch policies do not allow ref '' @ quoted (er_github_ref req)))))))"

definition enforce_protected_branch_policy :: "'u github_world \<Rightarrow> environment_request \<Rightarrow> agent_failure + unit" where
  "enforce_protected_branch_policy W req =
    bindE (github_repository_api_url W (er_api_base req) (er_owner req) (er_repository req) [''branches'']) (\<lambda>endpoint.
    bindE (github_api_get_json W (decode_branches W)
      (url_append W endpoint [(''protected'', ''true''), (''per_page'', ''1''), (''page'', ''1'')])
      (er_api_version req) (er_token req) ''list protected repository branches'') (\<lambda>protected.
    bindE (ensure (length protected \<le> 1) (Bail ''GitHub returned too many protected repository branches'')) (\<lambda>_.
    bindE (ensure (list_all gb_protected protected) (Bail ''GitHub returned an invalid protected repository branch'')) (\<lambda>_.
    if protected = [] then Inr () else
    bindE (ok_or (strip_prefix (er_github_ref req) ''refs/heads/'')
      (Bail (''GitHub environment '' @ quoted (er_environment_name req) @ '' allows only protected branches, and ref '' @
        quoted (er_github_ref req) @ '' is not a repository branch''))) (\<lambda>branch.
    bindE (ensure (branch \<noteq> []) (Bail ''GitHub returned an invalid workflow ref'')) (\<lambda>_.
    bindE (github_repository_api_url W (er_api_base req) (er_owner req) (er_repository req) [''branches'', branch]) (\<lambda>endpoint.
    bindE (github_api_get_json W (decode_branch W) endpoint (er_api_version req) (er_token req)
      (''get repository branch '' @ quoted branch)) (\<lambda>selected.
    bindE (ensure (gb_name selected = branch)
      (Bail (''GitHub returned branch '' @ quoted (gb_name selected) @ '' while '' @ quoted branch @ '' was requested''))) (\<lambda>_.
    ensure (gb_protected selected)
      (Bail (''GitHub environment '' @ quoted (er_environment_name req) @ '' allows only protected branches, and branch '' @
        quoted branch @ '' is not protected'')))))))))))"

definition enforce_environment_branch_policy ::
  "'u github_world \<Rightarrow> environment_request \<Rightarrow> branch_policy_mode \<Rightarrow> agent_failure + unit"
where
  "enforce_environment_branch_policy W req policy =
    (case policy of
      Unrestricted \<Rightarrow> Inr ()
    | ProtectedBranches \<Rightarrow> enforce_protected_branch_policy W req
    | CustomPolicies \<Rightarrow> enforce_custom_branch_policy W req)"

section \<open>Variables\<close>

definition ENVIRONMENT_VARIABLE_PAGE_SIZE :: nat where
  "ENVIRONMENT_VARIABLE_PAGE_SIZE = 30"

definition MAX_ENVIRONMENT_VARIABLES :: nat where
  "MAX_ENVIRONMENT_VARIABLES = 100"

definition MAX_CONFIGURATION_VARIABLE_BYTES :: nat where
  "MAX_CONFIGURATION_VARIABLE_BYTES = 48 * 1024"

definition insert_environment_variable ::
  "'u github_world \<Rightarrow> string \<Rightarrow> (string \<times> string) list \<times> string set \<Rightarrow> actions_variable \<Rightarrow>
    agent_failure + (string \<times> string) list \<times> string set"
where
  "insert_environment_variable W environment_name s v =
    (case s of (selected, normalized_names) \<Rightarrow>
    if av_name v = [] \<or> contains_any (av_name v) control_chars \<or> length (av_value v) > MAX_CONFIGURATION_VARIABLE_BYTES
    then bail (''GitHub environment '' @ quoted environment_name @ '' returned an invalid configuration variable'')
    else let normalized = unicode_upper W (av_name v) in
      if normalized \<in> normalized_names
      then bail (''GitHub environment '' @ quoted environment_name @ '' returned duplicate variable '' @ quoted (av_name v))
      else Inr (bt_insert (av_name v) (av_value v) selected, insert normalized normalized_names))"

definition variable_page ::
  "'u github_world \<Rightarrow> environment_request \<Rightarrow> 'u \<Rightarrow> (string \<times> string) list \<times> string set \<Rightarrow> nat \<Rightarrow>
    agent_failure + bool \<times> (string \<times> string) list \<times> string set"
where
  "variable_page W req endpoint s page =
    bindE (github_api_get_json W (decode_variables W)
      (url_append W (url_clear W endpoint)
        [(''per_page'', show_nat ENVIRONMENT_VARIABLE_PAGE_SIZE), (''page'', show_nat page)])
      (er_api_version req) (er_token req)
      (''list environment '' @ quoted (er_environment_name req) @ '' variables page '' @ show_nat page)) (\<lambda>response.
    bindE (ensure (vp_total_count response \<le> MAX_ENVIRONMENT_VARIABLES)
      (Bail (''GitHub environment '' @ quoted (er_environment_name req) @ '' reports more than '' @ show_nat MAX_ENVIRONMENT_VARIABLES @ '' variables''))) (\<lambda>_.
    bindE (ensure (length (vp_variables response) \<le> ENVIRONMENT_VARIABLE_PAGE_SIZE)
      (Bail (''GitHub environment '' @ quoted (er_environment_name req) @ '' returned too many variables on page '' @ show_nat page))) (\<lambda>_.
    bindE (foldE (insert_environment_variable W (er_environment_name req)) s (vp_variables response)) (\<lambda>(selected, names).
    Inr (length (vp_variables response) < ENVIRONMENT_VARIABLE_PAGE_SIZE \<or> length selected \<ge> vp_total_count response,
      selected, names)))))"

definition fetch_github_environment_variables_from ::
  "'u github_world \<Rightarrow> environment_request \<Rightarrow> agent_failure + (string \<times> string) list"
where
  "fetch_github_environment_variables_from W req =
    bindE (ensure (build_client W) (Bail ''build GitHub environment API client'')) (\<lambda>_.
    bindE (github_repository_api_url W (er_api_base req) (er_owner req) (er_repository req)
      [''environments'', er_environment_name req]) (\<lambda>metadata_endpoint.
    bindE (github_api_get_json W (decode_environment W) metadata_endpoint (er_api_version req) (er_token req)
      (''get environment '' @ quoted (er_environment_name req))) (\<lambda>metadata.
    bindE (validate_environment_metadata (er_environment_name req) metadata) (\<lambda>branch_policy.
    bindE (enforce_environment_branch_policy W req branch_policy) (\<lambda>_.
    bindE (github_repository_api_url W (er_api_base req) (er_owner req) (er_repository req)
      [''environments'', er_environment_name req, ''variables'']) (\<lambda>endpoint.
    bindE (break_loop (variable_page W req endpoint) ([], {})
      [1..<Suc (div_ceil MAX_ENVIRONMENT_VARIABLES ENVIRONMENT_VARIABLE_PAGE_SIZE)]) (\<lambda>(selected, _).
    Inr selected)))))))"

definition merge_variable :: "string \<Rightarrow> string \<Rightarrow> (string \<times> string) list \<Rightarrow> (string \<times> string) list" where
  "merge_variable name v selected =
    bt_insert name v
      (case find (\<lambda>existing. eq_ignore_ascii_case existing name) (bt_keys selected) of
        Some existing \<Rightarrow> bt_remove existing selected
      | None \<Rightarrow> selected)"

definition merge_configuration_variables ::
  "(string \<times> string) list \<Rightarrow> (string \<times> string) list \<Rightarrow> (string \<times> string) list"
where
  "merge_configuration_variables base overrides = fold (\<lambda>(name, v). merge_variable name v) overrides base"

text \<open>
  The variables of a job's environment with the cache of the run, a map under a lock. \<open>token\<close> is
  the environment token that was issued, if one was.
\<close>

definition environment_request_of :: "run_spec \<Rightarrow> string \<Rightarrow> string \<Rightarrow> environment_request" where
  "environment_request_of run environment_name environment_token =
    \<lparr>er_api_base = ''https://api.github.com'', er_owner = rs_owner (repository run), er_repository = rs_name (repository run),
     er_environment_name = environment_name, er_github_ref = pr_execution_ref (pull_request run),
     er_api_version = github_api_version run, er_token = environment_token\<rparr>"

definition environment_variables_for_job ::
  "'u github_world \<Rightarrow> run_spec \<Rightarrow> string \<Rightarrow> string option \<Rightarrow>
    ((string \<times> (string \<times> string) list) list, (string \<times> string) list) act"
where
  "environment_variables_for_job W run environment_name token =
    (let cache_key = unicode_lower W environment_name in
    bindA (readA (\<lambda>cache. bt_get cache cache_key)) (\<lambda>cached.
    case cached of Some vars \<Rightarrow> retA vars | None \<Rightarrow>
    if installation_id run = 0
    then bailA (''job references GitHub environment '' @ quoted environment_name @ '', but no GitHub App installation is available'')
    else
    bindA (liftA (ok_or token
      (Bail (''issue environment-read token for GitHub environment '' @ quoted environment_name)))) (\<lambda>environment_token.
    bindA (liftA (fetch_github_environment_variables_from W (environment_request_of run environment_name environment_token))) (\<lambda>vars.
    bindA (updateA (bt_insert cache_key vars)) (\<lambda>_.
    retA vars)))))"

section \<open>Changed files\<close>

definition MAX_PULL_REQUEST_FILES :: nat where
  "MAX_PULL_REQUEST_FILES = 3000"

definition PULL_REQUEST_FILES_PER_PAGE :: nat where
  "PULL_REQUEST_FILES_PER_PAGE = 100"

definition valid_changed_path :: "string \<Rightarrow> bool" where
  "valid_changed_path path \<longleftrightarrow> path \<noteq> [] \<and> \<not> contains_any path control_chars"

definition changed_paths_page ::
  "'u github_world \<Rightarrow> string \<Rightarrow> string option \<Rightarrow> 'u \<Rightarrow> string list \<Rightarrow> nat \<Rightarrow> agent_failure + bool \<times> string list"
where
  "changed_paths_page W api_version token endpoint paths page =
    (case http_get W (url_append W (url_clear W endpoint)
        [(''per_page'', show_nat PULL_REQUEST_FILES_PER_PAGE), (''page'', show_nat page)]) api_version token of
      SendFailed \<Rightarrow> bail (''list pull request files page '' @ show_nat page)
    | RunCancelled \<Rightarrow> bail ''run cancelled while listing pull request files''
    | Reply success status _ body \<Rightarrow>
        if \<not> success then
          bail (''GitHub API list pull request files page '' @ show_nat page @ '' failed ('' @ status @ ''): '' @
            truncate_text (case body of Some bytes \<Rightarrow> utf8_lossy W bytes | None \<Rightarrow> ''response body unavailable'') 4096)
        else
        bindE (ok_or (Option.bind body (decode_files W)) (Bail (''decode pull request files page '' @ show_nat page))) (\<lambda>files.
        bindE (ensure (length files \<le> PULL_REQUEST_FILES_PER_PAGE)
          (Bail (''GitHub API returned too many pull request files on page '' @ show_nat page))) (\<lambda>_.
        bindE (ensure (list_all valid_changed_path files) (Bail ''GitHub API returned an invalid pull request file path'')) (\<lambda>_.
        Inr (length files < PULL_REQUEST_FILES_PER_PAGE, paths @ files)))))"

definition fetch_pull_request_changed_paths :: "'u github_world \<Rightarrow> run_spec \<Rightarrow> string option \<Rightarrow> agent_failure + string list" where
  "fetch_pull_request_changed_paths W run token =
    bindE (ok_or (url_parse W ''https://api.github.com'') (Bail ''invalid URL'')) (\<lambda>base.
    bindE (ok_or (url_push W base [''repos'', rs_owner (repository run), rs_name (repository run), ''pulls'',
        show_nat (unat (pr_number (pull_request run))), ''files''])
      (Bail ''GitHub API base URL cannot accept path segments'')) (\<lambda>endpoint.
    bindE (ensure (build_client W) (Bail ''build GitHub API client'')) (\<lambda>_.
    break_loop (changed_paths_page W (github_api_version run) token endpoint) []
      [1..<Suc (MAX_PULL_REQUEST_FILES div PULL_REQUEST_FILES_PER_PAGE)])))"

definition validate_changed_paths :: "string list \<Rightarrow> agent_failure + unit" where
  "validate_changed_paths paths =
    bindE (ensure (length paths \<le> MAX_PULL_REQUEST_FILES)
      (Bail (''pull request changed-file list exceeds GitHub'' @ CHR 0x27 # ''s '' @ show_nat MAX_PULL_REQUEST_FILES @ ''-file filter limit''))) (\<lambda>_.
    ensure (list_all valid_changed_path paths) (Bail ''pull request changed-file list contains an invalid path''))"

section \<open>What a reply means\<close>

definition serves :: "'u github_world \<Rightarrow> environment_request \<Rightarrow> (string \<Rightarrow> 'a option) \<Rightarrow> 'u \<Rightarrow> 'a \<Rightarrow> bool" where
  "serves W req decode endpoint x \<longleftrightarrow> (\<exists>status announced bytes.
    http_get W endpoint (er_api_version req) (Some (er_token req)) = Reply True status announced (Some bytes) \<and> decode bytes = Some x)"

lemma get_json_Inr:
  "github_api_get_json W decode endpoint (er_api_version req) (er_token req) operation = Inr x \<Longrightarrow> serves W req decode endpoint x"
  by (auto simp: github_api_get_json_def serves_def bail_def result_simps split: http_reply.splits if_splits)

lemma get_json_no_panic: "github_api_get_json W decode endpoint v t operation \<noteq> Inl AgentPanic"
  by (auto simp: github_api_get_json_def bail_def result_simps split: http_reply.splits if_splits)

lemma url_no_panic: "github_repository_api_url W base own repo suffix \<noteq> Inl AgentPanic"
  by (auto simp: github_repository_api_url_def result_simps)

lemma break_loop_no_panic:
  assumes "\<And>s x. f s x \<noteq> Inl AgentPanic"
  shows "break_loop f s xs \<noteq> Inl AgentPanic"
proof (induction xs arbitrary: s)
  case (Cons x xs)
  then show ?case using assms [of s x] by (cases "f s x") (auto split: if_splits)
qed simp

lemma loop_no_panic:
  assumes "\<And>s x. f s x \<noteq> Inl AgentPanic"
  shows "foldE f s xs \<noteq> Inl AgentPanic"
proof (induction xs arbitrary: s)
  case (Cons x xs)
  then show ?case using assms [of s x] by (cases "f s x") auto
qed simp

lemma break_loop_invariant:
  assumes "break_loop f s xs = Inr t" "P s"
    and "\<And>s x stop s'. x \<in> set xs \<Longrightarrow> P s \<Longrightarrow> f s x = Inr (stop, s') \<Longrightarrow> P s'"
  shows "P t"
  using assms
proof (induction xs arbitrary: s)
  case (Cons x xs)
  from Cons.prems(1) obtain stop s' where s': "f s x = Inr (stop, s')" "(if stop then Inr s' else break_loop f s' xs) = Inr t"
    by (auto simp: bindE_Inr)
  have "P s'" using Cons.prems(2,3) s'(1) by (meson list.set_intros(1))
  then show ?case using s'(2) Cons.prems(3) by (cases stop) (simp, meson Cons.IH list.set_intros(2))
qed simp

section \<open>Custom policies\<close>

text \<open>The reference reading of a list of policies.\<close>

definition policy_allows :: "string \<Rightarrow> string \<Rightarrow> deployment_branch_policy \<Rightarrow> bool" where
  "policy_allows kind name p \<longleftrightarrow> bp_policy_type p = kind \<and>
    glob_lang True (glob_tokens True (utf8_chars (bp_name p))) (utf8_chars name)"

definition policies_bytes :: "deployment_branch_policy list \<Rightarrow> nat" where
  "policies_bytes ps = sum_list (map (length \<circ> bp_name) ps)"

definition scanned :: "string \<Rightarrow> string \<Rightarrow> deployment_branch_policy list \<Rightarrow> policy_scan \<Rightarrow> policy_scan" where
  "scanned kind name ps s = s\<lparr>ps_received := ps_received s + length ps, ps_pattern_bytes := ps_pattern_bytes s + policies_bytes ps,
     ps_matched := ps_matched s \<or> list_ex (policy_allows kind name) ps\<rparr>"

lemma scanned_simps [simp]:
  "scanned kind name [] s = s"
  "scanned kind name qs (scanned kind name ps s) = scanned kind name (ps @ qs) s"
  by (simp_all add: scanned_def policies_bytes_def)

lemma check_policy_Inr:
  "check_policy req kind name s p = Inr s' \<longleftrightarrow>
    valid_policy p \<and> ps_pattern_bytes s + length (bp_name p) \<le> MAX_DEPLOYMENT_BRANCH_PATTERN_TOTAL_BYTES \<and> s' = scanned kind name [p] s"
proof -
  have m: "valid_policy p \<Longrightarrow> (if bp_policy_type p = kind then deployment_pattern_matches (bp_name p) name else Inr False) = Inr (policy_allows kind name p)"
    by (auto simp: valid_pattern_matches [of "bp_name p" name] policy_allows_def valid_policy_def control_chars_def valid_pattern_def)
  show ?thesis
  proof (cases "valid_policy p \<and> ps_pattern_bytes s + length (bp_name p) \<le> MAX_DEPLOYMENT_BRANCH_PATTERN_TOTAL_BYTES")
    case True
    then have "ps_pattern_bytes s + length (bp_name p) < 2 ^ 64" by (simp add: MAX_DEPLOYMENT_BRANCH_PATTERN_TOTAL_BYTES_def)
    then have "check_policy req kind name s p = Inr (scanned kind name [p] s)"
      unfolding check_policy_def using m True by (simp add: ensure_def ok_or_def scanned_def policies_bytes_def)
    then show ?thesis using True by auto
  next
    case False
    then show ?thesis by (auto simp: check_policy_def bindE_Inr ensure_Inr ok_or_def split: if_splits)
  qed
qed

lemma check_policies_Inr:
  assumes "ps_pattern_bytes s \<le> MAX_DEPLOYMENT_BRANCH_PATTERN_TOTAL_BYTES"
  shows "foldE (check_policy req kind name) s ps = Inr s' \<longleftrightarrow>
    list_all valid_policy ps \<and> ps_pattern_bytes s + policies_bytes ps \<le> MAX_DEPLOYMENT_BRANCH_PATTERN_TOTAL_BYTES \<and> s' = scanned kind name ps s"
  using assms
proof (induction ps arbitrary: s)
  case Nil
  then show ?case by (auto simp: policies_bytes_def)
next
  case (Cons p ps)
  have "foldE (check_policy req kind name) s (p # ps) = Inr s' \<longleftrightarrow>
    (\<exists>t. check_policy req kind name s p = Inr t \<and> foldE (check_policy req kind name) t ps = Inr s')"
    by (auto simp: bindE_Inr)
  also have "\<dots> \<longleftrightarrow> valid_policy p \<and> ps_pattern_bytes s + length (bp_name p) \<le> MAX_DEPLOYMENT_BRANCH_PATTERN_TOTAL_BYTES \<and>
      foldE (check_policy req kind name) (scanned kind name [p] s) ps = Inr s'"
    by (auto simp: check_policy_Inr)
  also have "\<dots> \<longleftrightarrow> list_all valid_policy (p # ps) \<and> ps_pattern_bytes s + policies_bytes (p # ps) \<le> MAX_DEPLOYMENT_BRANCH_PATTERN_TOTAL_BYTES \<and>
      s' = scanned kind name (p # ps) s"
    using Cons.IH [of "scanned kind name [p] s"] by (auto simp: scanned_def policies_bytes_def)
  finally show ?case .
qed

text \<open>The loop over the pages, for any server: the pages that were read, in their order.\<close>

definition policy_page_url :: "'u github_world \<Rightarrow> 'u \<Rightarrow> nat \<Rightarrow> 'u" where
  "policy_page_url W endpoint page = url_append W (url_clear W endpoint)
    [(''per_page'', show_nat DEPLOYMENT_BRANCH_POLICY_PAGE_SIZE), (''page'', show_nat page)]"

definition read_pages ::
  "'u github_world \<Rightarrow> environment_request \<Rightarrow> 'u \<Rightarrow> nat \<Rightarrow> nat \<Rightarrow> deployment_branch_policy list \<Rightarrow> bool"
where
  "read_pages W req endpoint reported n ps \<longleftrightarrow> (\<exists>pages. length pages = n \<and> ps = concat (map pp_branch_policies pages) \<and>
    (\<forall>k<n. pp_total_count (pages ! k) = reported \<and> serves W req (decode_policies W) (policy_page_url W endpoint (Suc k)) (pages ! k)))"

lemma read_pages_Nil: "read_pages W req endpoint reported 0 []"
  by (simp add: read_pages_def)

lemma read_pages_Suc:
  assumes "read_pages W req endpoint reported n ps" "pp_total_count page = reported"
    "serves W req (decode_policies W) (policy_page_url W endpoint (Suc n)) page"
  shows "read_pages W req endpoint reported (Suc n) (ps @ pp_branch_policies page)"
proof -
  from assms(1) obtain pages where "length pages = n" "ps = concat (map pp_branch_policies pages)"
    "\<forall>k<n. pp_total_count (pages ! k) = reported \<and> serves W req (decode_policies W) (policy_page_url W endpoint (Suc k)) (pages ! k)"
    by (auto simp: read_pages_def)
  then show ?thesis using assms(2,3)
    by (auto simp: read_pages_def less_Suc_eq nth_append intro!: exI [of _ "pages @ [page]"])
qed

definition fresh_scan :: policy_scan where
  "fresh_scan = \<lparr>ps_received = 0, ps_pattern_bytes = 0, ps_matched = False, ps_reported_total = None\<rparr>"

lemma policy_page_Inr:
  assumes "policy_page W req endpoint kind name s (Suc n) = Inr (stop, s')"
    "ps_pattern_bytes s \<le> MAX_DEPLOYMENT_BRANCH_PATTERN_TOTAL_BYTES"
  shows "\<exists>page. serves W req (decode_policies W) (policy_page_url W endpoint (Suc n)) page \<and>
    (ps_reported_total s = None \<or> ps_reported_total s = Some (pp_total_count page)) \<and> list_all valid_policy (pp_branch_policies page) \<and>
    s' = scanned kind name (pp_branch_policies page) (s\<lparr>ps_reported_total := Some (pp_total_count page)\<rparr>) \<and>
    ps_pattern_bytes s' \<le> MAX_DEPLOYMENT_BRANCH_PATTERN_TOTAL_BYTES"
proof -
  from assms(1) obtain page where get: "github_api_get_json W (decode_policies W) (policy_page_url W endpoint (Suc n))
      (er_api_version req) (er_token req) (''list environment '' @ quoted (er_environment_name req) @ '' deployment branch policies page '' @ show_nat (Suc n)) = Inr page"
    and rest: "ps_reported_total s = None \<or> ps_reported_total s = Some (pp_total_count page)"
      "foldE (check_policy req kind name) (s\<lparr>ps_reported_total := Some (pp_total_count page)\<rparr>) (pp_branch_policies page) = Inr s'"
    unfolding policy_page_def policy_page_url_def [symmetric] by (auto simp only: bindE_Inr ensure_Inr Inr_inject prod.inject)
  from rest(2) assms(2) show ?thesis using get_json_Inr [OF get] rest(1)
    by (subst (asm) check_policies_Inr) (auto simp: scanned_def intro!: exI [of _ page])
qed

definition scan_of :: "'u github_world \<Rightarrow> environment_request \<Rightarrow> 'u \<Rightarrow> string \<Rightarrow> string \<Rightarrow> nat \<Rightarrow> policy_scan \<Rightarrow> bool" where
  "scan_of W req endpoint kind name n s \<longleftrightarrow> ps_pattern_bytes s \<le> MAX_DEPLOYMENT_BRANCH_PATTERN_TOTAL_BYTES \<and>
    (n = 0 \<and> s = fresh_scan \<or> (\<exists>reported ps. read_pages W req endpoint reported n ps \<and> list_all valid_policy ps \<and>
      s = scanned kind name ps (fresh_scan\<lparr>ps_reported_total := Some reported\<rparr>)))"

lemma scan_of_step:
  assumes "policy_page W req endpoint kind name s (Suc n) = Inr (stop, s')" "scan_of W req endpoint kind name n s"
  shows "scan_of W req endpoint kind name (Suc n) s'"
proof -
  from assms(2) have bytes: "ps_pattern_bytes s \<le> MAX_DEPLOYMENT_BRANCH_PATTERN_TOTAL_BYTES" by (simp add: scan_of_def)
  from policy_page_Inr [OF assms(1) bytes] obtain page where
    page: "serves W req (decode_policies W) (policy_page_url W endpoint (Suc n)) page" "list_all valid_policy (pp_branch_policies page)"
      "ps_reported_total s = None \<or> ps_reported_total s = Some (pp_total_count page)"
      "s' = scanned kind name (pp_branch_policies page) (s\<lparr>ps_reported_total := Some (pp_total_count page)\<rparr>)"
      "ps_pattern_bytes s' \<le> MAX_DEPLOYMENT_BRANCH_PATTERN_TOTAL_BYTES" by blast
  from assms(2) obtain ps where ps: "read_pages W req endpoint (pp_total_count page) n ps" "list_all valid_policy ps"
    "s\<lparr>ps_reported_total := Some (pp_total_count page)\<rparr> = scanned kind name ps (fresh_scan\<lparr>ps_reported_total := Some (pp_total_count page)\<rparr>)"
    using page(3) read_pages_Nil [of W req endpoint "pp_total_count page"] unfolding scan_of_def
    by (elim conjE disjE exE) (auto simp: fresh_scan_def scanned_def policies_bytes_def)
  show ?thesis unfolding scan_of_def
    by (intro conjI disjI2 exI [of _ "pp_total_count page"] exI [of _ "ps @ pp_branch_policies page"] page(5)
        read_pages_Suc [OF ps(1) refl page(1)]) (use ps(2,3) page(2,4) in auto)
qed

lemma scan_of_loop:
  "break_loop (policy_page W req endpoint kind name) s [Suc n..<Suc m] = Inr t \<Longrightarrow> scan_of W req endpoint kind name n s \<Longrightarrow>
    n \<le> m \<Longrightarrow> \<exists>k\<le>m. scan_of W req endpoint kind name k t"
proof (induction "m - n" arbitrary: n s)
  case 0
  then show ?case by auto
next
  case (Suc d)
  then have "Suc n < Suc m" by linarith
  then have l: "[Suc n..<Suc m] = Suc n # [Suc (Suc n)..<Suc m]" by (rule upt_conv_Cons)
  from Suc.prems(1) obtain stop s' where p: "policy_page W req endpoint kind name s (Suc n) = Inr (stop, s')"
    "(if stop then Inr s' else break_loop (policy_page W req endpoint kind name) s' [Suc (Suc n)..<Suc m]) = Inr t"
    unfolding l by (auto simp: bindE_Inr simp del: upt_Suc)
  note s' = scan_of_step [OF p(1) Suc.prems(2)]
  show ?case
  proof (cases stop)
    case True
    then show ?thesis using p s' Suc.hyps(2) by (auto intro!: exI [of _ "Suc n"])
  next
    case False
    then show ?thesis using Suc.hyps(1) [OF _ _ s'] p Suc.hyps(2) by simp
  qed
qed

text \<open>What a successful check has established, whatever the server did.\<close>

definition custom_allowed :: "'u github_world \<Rightarrow> environment_request \<Rightarrow> bool" where
  "custom_allowed W req \<longleftrightarrow> (\<exists>kind name endpoint n ps. deployment_policy_reference (er_github_ref req) = Inr (kind, name) \<and>
    github_repository_api_url W (er_api_base req) (er_owner req) (er_repository req)
      [''environments'', er_environment_name req, ''deployment-branch-policies''] = Inr endpoint \<and>
    read_pages W req endpoint (length ps) n ps \<and> n \<le> 10 \<and> (\<exists>p\<in>set ps. valid_policy p \<and> policy_allows kind name p))"

lemma enforce_custom_sound:
  assumes "enforce_custom_branch_policy W req = Inr ()"
  shows "custom_allowed W req"
proof -
  from assms obtain kind name endpoint s where
    r: "deployment_policy_reference (er_github_ref req) = Inr (kind, name)"
      "github_repository_api_url W (er_api_base req) (er_owner req) (er_repository req)
      [''environments'', er_environment_name req, ''deployment-branch-policies''] = Inr endpoint" and
    loop: "break_loop (policy_page W req endpoint kind name) fresh_scan [Suc 0..<Suc 10] = Inr s" and
    s: "ps_received s = (case ps_reported_total s of Some n \<Rightarrow> n | None \<Rightarrow> 0)" "ps_matched s"
    by (auto simp: enforce_custom_branch_policy_def bindE_Inr ensure_Inr div_ceil_def MAX_DEPLOYMENT_BRANCH_POLICIES_def
        DEPLOYMENT_BRANCH_POLICY_PAGE_SIZE_def fresh_scan_def simp del: upt_Suc)
  have "scan_of W req endpoint kind name 0 fresh_scan"
    by (simp add: scan_of_def fresh_scan_def)
  from scan_of_loop [OF loop this] obtain k where "k \<le> 10" "scan_of W req endpoint kind name k s" by auto
  then obtain ps where "read_pages W req endpoint (length ps) k ps" "\<exists>p\<in>set ps. valid_policy p \<and> policy_allows kind name p"
    using s by (auto simp: scan_of_def fresh_scan_def scanned_def list_ex_iff list_all_iff) blast
  then show ?thesis using r \<open>k \<le> 10\<close> unfolding custom_allowed_def by blast
qed

text \<open>A server that serves a list of policies in pages.\<close>

definition serves_policies :: "'u github_world \<Rightarrow> environment_request \<Rightarrow> deployment_branch_policy list \<Rightarrow> bool" where
  "serves_policies W req ps \<longleftrightarrow> (\<exists>endpoint.
    github_repository_api_url W (er_api_base req) (er_owner req) (er_repository req)
      [''environments'', er_environment_name req, ''deployment-branch-policies''] = Inr endpoint \<and>
    (\<forall>k<10. \<forall>operation. github_api_get_json W (decode_policies W) (policy_page_url W endpoint (Suc k)) (er_api_version req) (er_token req) operation =
      Inr \<lparr>pp_total_count = length ps, pp_branch_policies = take 100 (drop (100 * k) ps)\<rparr>))"

lemma honest_page:
  assumes get: "\<And>operation. github_api_get_json W (decode_policies W) (policy_page_url W endpoint (Suc k)) (er_api_version req) (er_token req) operation =
      Inr \<lparr>pp_total_count = length ps, pp_branch_policies = take 100 (drop (100 * k) ps)\<rparr>"
    and ps: "length ps \<le> MAX_DEPLOYMENT_BRANCH_POLICIES" "list_all valid_policy ps" "policies_bytes ps \<le> MAX_DEPLOYMENT_BRANCH_PATTERN_TOTAL_BYTES"
    and s: "s = scanned kind name (take (100 * k) ps) (fresh_scan\<lparr>ps_reported_total := r\<rparr>)" "r = None \<or> r = Some (length ps)"
  shows "policy_page W req endpoint kind name s (Suc k) =
    Inr (length ps \<le> 100 * Suc k, scanned kind name (take (100 * Suc k) ps) (fresh_scan\<lparr>ps_reported_total := Some (length ps)\<rparr>))"
proof -
  let ?q = "take 100 (drop (100 * k) ps)" and ?s = "s\<lparr>ps_reported_total := Some (length ps)\<rparr>"
  have parts: "take (100 * Suc k) ps = take (100 * k) ps @ ?q"
    by (simp add: take_add [symmetric] add.commute)
  have bytes: "policies_bytes (take (100 * Suc k) ps) \<le> policies_bytes ps"
    using append_take_drop_id [of "100 * Suc k" ps] by (metis le_add1 map_append policies_bytes_def sum_list_append)
  have "list_all valid_policy ?q" using ps(2) by (auto simp: list_all_iff dest!: in_set_takeD in_set_dropD)
  moreover have "ps_pattern_bytes ?s + policies_bytes ?q \<le> MAX_DEPLOYMENT_BRANCH_PATTERN_TOTAL_BYTES"
    using bytes ps(3) unfolding parts by (simp add: s scanned_def fresh_scan_def policies_bytes_def)
  ultimately have fold: "foldE (check_policy req kind name) ?s ?q = Inr (scanned kind name ?q ?s)"
    by (subst check_policies_Inr) simp_all
  have out: "scanned kind name ?q ?s = scanned kind name (take (100 * Suc k) ps) (fresh_scan\<lparr>ps_reported_total := Some (length ps)\<rparr>)"
    unfolding parts by (simp add: s scanned_def fresh_scan_def policies_bytes_def)
  have stop: "(length ?q < 100 \<or> ps_received (scanned kind name (take (100 * Suc k) ps) (fresh_scan\<lparr>ps_reported_total := Some (length ps)\<rparr>)) \<ge> length ps) \<longleftrightarrow>
      length ps \<le> 100 * Suc k"
    by (auto simp: scanned_def fresh_scan_def)
  have "ps_reported_total s = r" by (simp add: s scanned_def)
  then show ?thesis
    unfolding policy_page_def policy_page_url_def [symmetric] get bindE.simps
    using s(2) ps(1) stop
    by (simp add: ensure_def fold out DEPLOYMENT_BRANCH_POLICY_PAGE_SIZE_def del: mult_Suc_right)
qed

lemma honest_loop:
  assumes get: "\<And>k operation. k < 10 \<Longrightarrow> github_api_get_json W (decode_policies W) (policy_page_url W endpoint (Suc k)) (er_api_version req) (er_token req) operation =
      Inr \<lparr>pp_total_count = length ps, pp_branch_policies = take 100 (drop (100 * k) ps)\<rparr>"
    and ps: "length ps \<le> MAX_DEPLOYMENT_BRANCH_POLICIES" "list_all valid_policy ps" "policies_bytes ps \<le> MAX_DEPLOYMENT_BRANCH_PATTERN_TOTAL_BYTES"
    and s: "s = scanned kind name (take (100 * k) ps) (fresh_scan\<lparr>ps_reported_total := r\<rparr>)" "r = None \<or> r = Some (length ps)"
    and k: "k < 10"
  shows "break_loop (policy_page W req endpoint kind name) s [Suc k..<Suc 10] =
    Inr (scanned kind name ps (fresh_scan\<lparr>ps_reported_total := Some (length ps)\<rparr>))"
  using s k
proof (induction "10 - k" arbitrary: k s r)
  case (Suc d)
  note page = honest_page [OF get [OF Suc.prems(3)] ps Suc.prems(1,2)]
  have l: "[Suc k..<Suc 10] = Suc k # [Suc (Suc k)..<Suc 10]" using Suc.prems(3) by (simp add: upt_conv_Cons)
  show ?case
  proof (cases "length ps \<le> 100 * Suc k")
    case True
    then show ?thesis unfolding l break_loop.simps page by simp
  next
    case False
    then have "Suc k < 10" using ps(1) by (simp add: MAX_DEPLOYMENT_BRANCH_POLICIES_def)
    with Suc.hyps(1) [of "Suc k" _ "Some (length ps)"] Suc.hyps(2) False show ?thesis
      unfolding l break_loop.simps page by (simp del: upt_Suc mult_Suc_right)
  qed
qed simp

text \<open>
  C40. When the server serves a list of valid deployment policies in pages, within the limits on
  their number and size, the agent's check reads all of them and decides exactly whether one of the
  policies for the kind of the ref has a pattern whose language contains it.
\<close>

theorem custom_branch_policy_decides:
  assumes "serves_policies W req ps" "list_all valid_policy ps" "length ps \<le> 1000" "policies_bytes ps \<le> 256 * 1024"
    "deployment_policy_reference (er_github_ref req) = Inr (kind, name)"
  shows "enforce_custom_branch_policy W req =
    (if list_ex (policy_allows kind name) ps then Inr ()
     else Inl (Bail (''GitHub environment '' @ quoted (er_environment_name req) @ '' deployment branch policies do not allow ref '' @
       quoted (er_github_ref req))))"
proof -
  from assms(1) obtain endpoint where e: "github_repository_api_url W (er_api_base req) (er_owner req) (er_repository req)
      [''environments'', er_environment_name req, ''deployment-branch-policies''] = Inr endpoint"
    and get: "\<And>k operation. k < 10 \<Longrightarrow> github_api_get_json W (decode_policies W) (policy_page_url W endpoint (Suc k)) (er_api_version req) (er_token req) operation =
      Inr \<lparr>pp_total_count = length ps, pp_branch_policies = take 100 (drop (100 * k) ps)\<rparr>"
    by (auto simp: serves_policies_def)
  have "fresh_scan = scanned kind name (take (100 * 0) ps) (fresh_scan\<lparr>ps_reported_total := None\<rparr>)"
    by (simp add: fresh_scan_def)
  from honest_loop [OF get _ assms(2) _ this disjI1 [OF refl]] assms(3,4)
  have "break_loop (policy_page W req endpoint kind name) fresh_scan [1..<Suc 10] =
      Inr (scanned kind name ps (fresh_scan\<lparr>ps_reported_total := Some (length ps)\<rparr>))"
    by (simp add: MAX_DEPLOYMENT_BRANCH_POLICIES_def MAX_DEPLOYMENT_BRANCH_PATTERN_TOTAL_BYTES_def del: upt_Suc)
  moreover have "div_ceil MAX_DEPLOYMENT_BRANCH_POLICIES DEPLOYMENT_BRANCH_POLICY_PAGE_SIZE = 10"
    by (simp add: div_ceil_def MAX_DEPLOYMENT_BRANCH_POLICIES_def DEPLOYMENT_BRANCH_POLICY_PAGE_SIZE_def)
  ultimately show ?thesis
    unfolding enforce_custom_branch_policy_def assms(5) e fresh_scan_def [symmetric]
    by (simp add: ensure_def scanned_def del: upt_Suc) (simp add: fresh_scan_def)
qed

section \<open>Access to an environment\<close>

definition protected_allowed :: "'u github_world \<Rightarrow> environment_request \<Rightarrow> bool" where
  "protected_allowed W req \<longleftrightarrow>
    (\<exists>endpoint. github_repository_api_url W (er_api_base req) (er_owner req) (er_repository req) [''branches''] = Inr endpoint \<and>
      serves W req (decode_branches W) (url_append W endpoint [(''protected'', ''true''), (''per_page'', ''1''), (''page'', ''1'')]) []) \<or>
    (\<exists>endpoint branch b. er_github_ref req = ''refs/heads/'' @ branch \<and> branch \<noteq> [] \<and>
      github_repository_api_url W (er_api_base req) (er_owner req) (er_repository req) [''branches'', branch] = Inr endpoint \<and>
      serves W req (decode_branch W) endpoint b \<and> gb_name b = branch \<and> gb_protected b)"

lemma enforce_protected_sound: "enforce_protected_branch_policy W req = Inr () \<Longrightarrow> protected_allowed W req"
  unfolding enforce_protected_branch_policy_def protected_allowed_def
  by (auto simp: result_simps text_simps split: if_splits dest!: get_json_Inr)

text \<open>The conditions under which an environment is open to a run.\<close>

definition environment_open :: "'u github_world \<Rightarrow> environment_request \<Rightarrow> bool" where
  "environment_open W req \<longleftrightarrow> (\<exists>endpoint m.
    github_repository_api_url W (er_api_base req) (er_owner req) (er_repository req) [''environments'', er_environment_name req] = Inr endpoint \<and>
    serves W req (decode_environment W) endpoint m \<and>
    eq_ignore_ascii_case (em_name m) (er_environment_name req) \<and> em_protection_rules m = [] \<and>
    (case em_deployment_branch_policy m of
      None \<Rightarrow> True
    | Some (protected, custom) \<Rightarrow> protected \<noteq> custom \<and> (if custom then custom_allowed W req else protected_allowed W req)))"

definition variables_ok :: "'u github_world \<Rightarrow> (string \<times> string) list \<Rightarrow> bool" where
  "variables_ok W vars \<longleftrightarrow> bt_wf vars \<and> inj_on (unicode_upper W) (fst ` set vars) \<and> length vars \<le> 120 \<and>
    (\<forall>(name, v)\<in>set vars. name \<noteq> [] \<and> \<not> contains_any name control_chars \<and> length v \<le> MAX_CONFIGURATION_VARIABLE_BYTES)"

lemma length_bt_insert_le: "length (bt_insert k v m) \<le> Suc (length m)"
  by (induction k v m rule: bt_insert.induct) auto

definition partial_variables :: "'u github_world \<Rightarrow> nat \<Rightarrow> (string \<times> string) list \<times> string set \<Rightarrow> bool" where
  "partial_variables W n s \<longleftrightarrow> (case s of (vars, names) \<Rightarrow> bt_wf vars \<and> inj_on (unicode_upper W) (fst ` set vars) \<and>
    names = unicode_upper W ` fst ` set vars \<and> length vars \<le> n \<and>
    (\<forall>(name, v)\<in>set vars. name \<noteq> [] \<and> \<not> contains_any name control_chars \<and> length v \<le> MAX_CONFIGURATION_VARIABLE_BYTES))"

lemma set_bt_insert_subset: "set (bt_insert k v m) \<subseteq> insert (k, v) (set m)"
  by (induction k v m rule: bt_insert.induct) auto

lemma insert_variable_ok:
  assumes "insert_environment_variable W name s v = Inr s'" "partial_variables W n s"
  shows "partial_variables W (Suc n) s'"
proof -
  obtain vars names where s: "s = (vars, names)" by force
  from assms(1) have v: "av_name v \<noteq> []" "\<not> contains_any (av_name v) control_chars" "length (av_value v) \<le> MAX_CONFIGURATION_VARIABLE_BYTES"
    "unicode_upper W (av_name v) \<notin> names" "s' = (bt_insert (av_name v) (av_value v) vars, insert (unicode_upper W (av_name v)) names)"
    by (auto simp: insert_environment_variable_def s bail_def Let_def split: if_splits)
  from assms(2) have vars: "bt_wf vars" "inj_on (unicode_upper W) (fst ` set vars)" "names = unicode_upper W ` fst ` set vars" "length vars \<le> n"
    "\<forall>(name, v)\<in>set vars. name \<noteq> [] \<and> \<not> contains_any name control_chars \<and> length v \<le> MAX_CONFIGURATION_VARIABLE_BYTES"
    by (simp_all add: partial_variables_def s)
  have "\<forall>(name, v)\<in>set (bt_insert (av_name v) (av_value v) vars). name \<noteq> [] \<and> \<not> contains_any name control_chars \<and> length v \<le> MAX_CONFIGURATION_VARIABLE_BYTES"
    using vars(5) v(1-3) by (force dest!: subsetD [OF set_bt_insert_subset])
  then show ?thesis
    using vars(1-4) v(4) length_bt_insert_le [of "av_name v" "av_value v" vars]
    by (auto simp: partial_variables_def v(5) bt_wf_insert)
qed

lemma insert_variables_ok:
  "foldE (insert_environment_variable W name) s vs = Inr s' \<Longrightarrow> partial_variables W n s \<Longrightarrow> partial_variables W (n + length vs) s'"
proof (induction vs arbitrary: s n)
  case (Cons v vs)
  then obtain t where "insert_environment_variable W name s v = Inr t" "foldE (insert_environment_variable W name) t vs = Inr s'"
    by (auto simp: bindE_Inr)
  then show ?case using Cons.IH [of t "Suc n"] insert_variable_ok Cons.prems(2) by fastforce
qed simp

lemma variable_pages_ok:
  "break_loop (variable_page W req endpoint) s pages = Inr s' \<Longrightarrow> partial_variables W n s \<Longrightarrow> partial_variables W (n + 30 * length pages) s'"
proof (induction pages arbitrary: s n)
  case (Cons page pages)
  then obtain stop t where t: "variable_page W req endpoint s page = Inr (stop, t)"
    "(if stop then Inr t else break_loop (variable_page W req endpoint) t pages) = Inr s'"
    by (auto simp: bindE_Inr)
  from t(1) obtain vs where "foldE (insert_environment_variable W (er_environment_name req)) s vs = Inr t" "length vs \<le> 30"
    by (auto simp: variable_page_def bindE_Inr ensure_Inr ENVIRONMENT_VARIABLE_PAGE_SIZE_def)
  then have "partial_variables W (n + 30) t"
    using insert_variables_ok [of W _ s vs t n] Cons.prems(2) by (force simp: partial_variables_def)
  then show ?case using Cons.IH [of t "n + 30"] t(2) by (force simp: partial_variables_def split: if_splits)
qed (simp add: partial_variables_def)

lemma validate_metadata_Inr:
  "validate_environment_metadata name m = Inr mode \<longleftrightarrow> eq_ignore_ascii_case (em_name m) name \<and> em_protection_rules m = [] \<and>
    em_deployment_branch_policy m = (case mode of Unrestricted \<Rightarrow> None | ProtectedBranches \<Rightarrow> Some (True, False) | CustomPolicies \<Rightarrow> Some (False, True))"
  by (auto simp: validate_environment_metadata_def bail_def split: branch_policy_mode.splits option.splits bool.splits)

lemma fetch_guarded:
  assumes "fetch_github_environment_variables_from W req = Inr vars"
  shows "environment_open W req \<and> variables_ok W vars"
proof -
  from assms obtain endpoint operation m mode endpoint' names where
    m: "github_repository_api_url W (er_api_base req) (er_owner req) (er_repository req) [''environments'', er_environment_name req] = Inr endpoint"
      "github_api_get_json W (decode_environment W) endpoint (er_api_version req) (er_token req) operation = Inr m"
      "validate_environment_metadata (er_environment_name req) m = Inr mode" and
    policy: "enforce_environment_branch_policy W req mode = Inr ()" and
    loop: "break_loop (variable_page W req endpoint') ([], {}) [1..<Suc 4] = Inr (vars, names)"
    by (auto simp: fetch_github_environment_variables_from_def bindE_Inr ensure_Inr div_ceil_def
        MAX_ENVIRONMENT_VARIABLES_def ENVIRONMENT_VARIABLE_PAGE_SIZE_def simp del: upt_Suc)
  have "partial_variables W 120 (vars, names)"
    using variable_pages_ok [OF loop, of 0] by (simp add: partial_variables_def)
  moreover have "environment_open W req"
    using m(1) get_json_Inr [OF m(2)] m(3) policy enforce_custom_sound [of W req] enforce_protected_sound [of W req]
    unfolding environment_open_def validate_metadata_Inr enforce_environment_branch_policy_def
    by (cases mode) auto
  ultimately show ?thesis by (simp add: variables_ok_def partial_variables_def)
qed

text \<open>
  The cache of a run over time: \<open>server t\<close> is what the server replies at the time \<open>t\<close> of a call.
\<close>

definition environment_call ::
  "'u github_world \<Rightarrow> (nat \<Rightarrow> 'u \<Rightarrow> string \<Rightarrow> string option \<Rightarrow> http_reply) \<Rightarrow> run_spec \<Rightarrow> nat \<times> string \<times> string option \<Rightarrow>
    ((string \<times> (string \<times> string) list) list, (string \<times> (string \<times> string) list) option) act"
where
  "environment_call W server run call = (case call of (t, name, token) \<Rightarrow>
    bindA (environment_variables_for_job (W\<lparr>http_get := server t\<rparr>) run name token) (\<lambda>vars. retA (Some (name, vars))))"

text \<open>
  The variables were released at some time: the environment, up to the case of its name, was open to
  the ref of the run.
\<close>

definition released ::
  "'u github_world \<Rightarrow> (nat \<Rightarrow> 'u \<Rightarrow> string \<Rightarrow> string option \<Rightarrow> http_reply) \<Rightarrow> run_spec \<Rightarrow> string \<Rightarrow> (string \<times> string) list \<Rightarrow> bool"
where
  "released W server run key vars \<longleftrightarrow> variables_ok W vars \<and>
    (\<exists>t name token. unicode_lower W name = key \<and> environment_open (W\<lparr>http_get := server t\<rparr>) (environment_request_of run name token))"

definition cache_released ::
  "'u github_world \<Rightarrow> (nat \<Rightarrow> 'u \<Rightarrow> string \<Rightarrow> string option \<Rightarrow> http_reply) \<Rightarrow> run_spec \<Rightarrow> (string \<times> (string \<times> string) list) list \<Rightarrow> bool"
where
  "cache_released W server run cache \<longleftrightarrow> bt_wf cache \<and> (\<forall>(key, vars)\<in>set cache. released W server run key vars)"

lemma variables_ok_world [simp]: "variables_ok (W\<lparr>http_get := replies\<rparr>) vars = variables_ok W vars"
  by (simp add: variables_ok_def)

lemma protected_no_panic: "enforce_protected_branch_policy W req \<noteq> Inl AgentPanic"
  unfolding enforce_protected_branch_policy_def
  by (auto simp: result_simps url_no_panic get_json_no_panic split: if_splits)

lemma policy_page_no_panic: "policy_page W req endpoint kind name s page \<noteq> Inl AgentPanic"
  unfolding policy_page_def
  by (auto simp: result_simps get_json_no_panic check_policy_def pattern_matches_no_panic loop_no_panic split: if_splits)

lemma custom_no_panic: "enforce_custom_branch_policy W req \<noteq> Inl AgentPanic"
  unfolding enforce_custom_branch_policy_def
  by (auto simp: result_simps url_no_panic break_loop_no_panic policy_page_no_panic deployment_policy_reference_def bail_def
      simp del: upt_Suc split: option.splits list.splits if_splits)

lemma variable_page_no_panic: "variable_page W req endpoint s page \<noteq> Inl AgentPanic"
  unfolding variable_page_def
  by (auto simp: result_simps get_json_no_panic loop_no_panic insert_environment_variable_def bail_def Let_def split: if_splits prod.splits)

lemma fetch_no_panic: "fetch_github_environment_variables_from W req \<noteq> Inl AgentPanic"
  unfolding fetch_github_environment_variables_from_def enforce_environment_branch_policy_def
  by (auto simp: result_simps url_no_panic get_json_no_panic break_loop_no_panic variable_page_no_panic protected_no_panic custom_no_panic
      validate_environment_metadata_def bail_def simp del: upt_Suc split: branch_policy_mode.splits option.splits bool.splits if_splits)

lemma cache_released_insert:
  "cache_released W server run cache \<Longrightarrow> released W server run key vars \<Longrightarrow> cache_released W server run (bt_insert key vars cache)"
  by (auto simp: cache_released_def bt_wf_insert dest!: subsetD [OF set_bt_insert_subset])

lemma environment_job_gives:
  "gives (cache_released W server run) (environment_variables_for_job (W\<lparr>http_get := server t\<rparr>) run name token)
    (released W server run (unicode_lower W name))"
proof -
  let ?I = "cache_released W server run" and ?key = "unicode_lower W name"
  have "gives ?I (readA (\<lambda>cache. bt_get cache ?key)) (\<lambda>cached. \<forall>vars. cached = Some vars \<longrightarrow> released W server run ?key vars)"
    by (rule gives_read) (auto simp: cache_released_def dest: map_of_SomeD)
  note read = gives_bind [OF this]
  have fetch: "released W server run ?key vars"
    if "fetch_github_environment_variables_from (W\<lparr>http_get := server t\<rparr>) (environment_request_of run name k) = Inr vars" for k vars
    using fetch_guarded [OF that] by (auto simp: released_def)
  have store: "gives ?I (bindA (updateA (bt_insert ?key vars)) (\<lambda>_. retA vars)) (released W server run ?key)" if "released W server run ?key vars" for vars
    by (rule gives_bind [where Q = "\<lambda>_. True"], rule gives_update) (auto intro: cache_released_insert gives_ret that)
  have key: "unicode_lower (W\<lparr>http_get := server t\<rparr>) name = ?key" by simp
  have issue: "gives ?I (liftA (ok_or token (Bail e))) (\<lambda>_. True)" for e
    by (rule gives_lift) (auto simp: ok_or_def split: option.splits)
  have request: "gives ?I (liftA (fetch_github_environment_variables_from (W\<lparr>http_get := server t\<rparr>) (environment_request_of run name k)))
      (released W server run ?key)" for k
    by (rule gives_lift) (auto simp: fetch_no_panic fetch)
  show ?thesis
    unfolding environment_variables_for_job_def Let_def key
    by (rule read, split option.split)
      (auto intro!: gives_ret gives_bail gives_bind [OF issue] gives_bind [OF request] store)
qed

interpretation environment_cache: guarded_object "environment_call W server run" "cache_released W server run"
  "\<lambda>(name, vars). released W server run (unicode_lower W name) vars"
  for W :: "'u github_world" and server run
  by unfold_locales (auto simp: environment_call_def split: prod.split
    intro!: gives_bind [OF environment_job_gives] gives_ret)


section \<open>Merging configuration variables\<close>

definition ci_get :: "(string \<times> 'v) list \<Rightarrow> string \<Rightarrow> 'v option" where
  "ci_get m name = map_option snd (find (\<lambda>(k, v). eq_ignore_ascii_case k name) m)"

definition ci_distinct :: "(string \<times> 'v) list \<Rightarrow> bool" where
  "ci_distinct m \<longleftrightarrow> bt_wf m \<and> inj_on to_ascii_lowercase (fst ` set m)"

lemma find_unique:
  "(\<And>x y. x \<in> set xs \<Longrightarrow> y \<in> set xs \<Longrightarrow> P x \<Longrightarrow> P y \<Longrightarrow> x = y) \<Longrightarrow> find P xs = Some x \<longleftrightarrow> x \<in> set xs \<and> P x"
  by (induction xs) auto

lemma ci_get_Some:
  assumes "ci_distinct m"
  shows "ci_get m name = Some v \<longleftrightarrow> (\<exists>k. (k, v) \<in> set m \<and> to_ascii_lowercase k = to_ascii_lowercase name)"
proof -
  have "x = y" if "x \<in> set m" "y \<in> set m" "to_ascii_lowercase (fst x) = to_ascii_lowercase (fst y)" for x y
  proof -
    have "fst x = fst y" using that assms by (auto simp: ci_distinct_def inj_on_def)
    then show ?thesis using that assms bt_wf_distinct [of m] by (metis ci_distinct_def eq_key_imp_eq_value prod.collapse)
  qed
  then have "find (\<lambda>(k, v). eq_ignore_ascii_case k name) m = Some x \<longleftrightarrow> x \<in> set m \<and> to_ascii_lowercase (fst x) = to_ascii_lowercase name" for x
    by (subst find_unique) (auto simp: eq_ignore_ascii_case_def)
  then show ?thesis by (auto simp: ci_get_def)
qed

lemma set_bt_insert_new: "k \<notin> fst ` set m \<Longrightarrow> set (bt_insert k v m) = insert (k, v) (set m)"
  by (induction k v m rule: bt_insert.induct) auto

lemma find_SomeD: "find P xs = Some x \<Longrightarrow> x \<in> set xs \<and> P x"
  by (induction xs) (auto split: if_splits)

lemma merge_variable_ci:
  assumes "ci_distinct m"
  shows "ci_distinct (merge_variable name v m) \<and>
    set (merge_variable name v m) = insert (name, v) {e \<in> set m. to_ascii_lowercase (fst e) \<noteq> to_ascii_lowercase name}"
proof -
  define rest where "rest = (case find (\<lambda>existing. eq_ignore_ascii_case existing name) (bt_keys m) of
      Some existing \<Rightarrow> bt_remove existing m | None \<Rightarrow> m)"
  have rest: "bt_wf rest \<and> set rest = {e \<in> set m. to_ascii_lowercase (fst e) \<noteq> to_ascii_lowercase name}"
  proof (cases "find (\<lambda>existing. eq_ignore_ascii_case existing name) (bt_keys m)")
    case None
    have "\<forall>e\<in>set m. to_ascii_lowercase (fst e) \<noteq> to_ascii_lowercase name"
      using None by (auto simp: find_None_iff eq_ignore_ascii_case_def)
    moreover have "rest = m" by (simp add: rest_def None)
    ultimately show ?thesis using assms by (auto simp: ci_distinct_def)
  next
    case (Some existing)
    then have ex: "existing \<in> fst ` set m" "to_ascii_lowercase existing = to_ascii_lowercase name"
      using find_SomeD [OF Some] by (simp_all add: eq_ignore_ascii_case_def)
    have "fst e \<noteq> existing \<longleftrightarrow> to_ascii_lowercase (fst e) \<noteq> to_ascii_lowercase name" if "e \<in> set m" for e
      using ex that assms inj_onD [of to_ascii_lowercase "fst ` set m" "fst e" existing] by (auto simp: ci_distinct_def)
    then have "set (bt_remove existing m) = {e \<in> set m. to_ascii_lowercase (fst e) \<noteq> to_ascii_lowercase name}"
      unfolding bt_remove_def set_filter by (rule Collect_cong [OF conj_cong [OF refl]])
    then show ?thesis using assms by (simp add: rest_def Some ci_distinct_def bt_wf_remove)
  qed
  note rest = conjunct1 [OF rest] conjunct2 [OF rest]
  have new: "name \<notin> fst ` set rest" by (auto simp: rest(2))
  have "merge_variable name v m = bt_insert name v rest" by (simp add: merge_variable_def rest_def)
  moreover have "inj_on to_ascii_lowercase (insert name (fst ` set rest))"
    using assms by (auto simp: rest(2) ci_distinct_def inj_on_def)
  ultimately show ?thesis
    using set_bt_insert_new [OF new, of v] bt_wf_insert [OF rest(1), of name v] by (simp add: ci_distinct_def rest(2))
qed

lemma option_eqI: "(\<And>v. a = Some v \<longleftrightarrow> b = Some v) \<Longrightarrow> a = b"
  by (cases a; cases b) auto

lemma find_app: "find P (xs @ ys) = (case find P xs of Some x \<Rightarrow> Some x | None \<Rightarrow> find P ys)"
  by (induction xs) auto

text \<open>The variables of the environment replace those of the run, whatever the case of their names.\<close>

lemma merge_configuration_variables_correct:
  assumes "ci_distinct base"
  shows "ci_distinct (merge_configuration_variables base overrides)"
    and "ci_get (merge_configuration_variables base overrides) name =
      (case ci_get (rev overrides) name of Some v \<Rightarrow> Some v | None \<Rightarrow> ci_get base name)"
proof -
  have "ci_distinct (merge_configuration_variables base overrides) \<and>
    ci_get (merge_configuration_variables base overrides) name =
      (case ci_get (rev overrides) name of Some v \<Rightarrow> Some v | None \<Rightarrow> ci_get base name)"
    using assms
  proof (induction overrides arbitrary: base)
    case Nil
    then show ?case by (simp add: merge_configuration_variables_def ci_get_def)
  next
    case (Cons e overrides)
    obtain n v where e: "e = (n, v)" by force
    note m = merge_variable_ci [OF Cons.prems, of n v]
    have "ci_get (merge_variable n v base) name = (if eq_ignore_ascii_case n name then Some v else ci_get base name)"
      by (rule option_eqI) (use m Cons.prems in \<open>auto simp: ci_get_Some eq_ignore_ascii_case_def\<close>)
    then show ?case using Cons.IH [OF conjunct1 [OF m]]
      by (auto simp: merge_configuration_variables_def e ci_get_def find_app split: option.splits)
  qed
  then show "ci_distinct (merge_configuration_variables base overrides)"
    "ci_get (merge_configuration_variables base overrides) name =
      (case ci_get (rev overrides) name of Some v \<Rightarrow> Some v | None \<Rightarrow> ci_get base name)" by blast+
qed

text \<open>A fetched list of changed files passes the check of lists that come with the run.\<close>

lemma changed_paths_loop:
  "break_loop (changed_paths_page W v token endpoint) paths pages = Inr paths' \<Longrightarrow> list_all valid_changed_path paths \<Longrightarrow>
    length paths \<le> n \<Longrightarrow> list_all valid_changed_path paths' \<and> length paths' \<le> n + 100 * length pages"
proof (induction pages arbitrary: paths n)
  case (Cons page pages)
  then obtain stop mid where mid: "changed_paths_page W v token endpoint paths page = Inr (stop, mid)"
    "(if stop then Inr mid else break_loop (changed_paths_page W v token endpoint) mid pages) = Inr paths'"
    by (auto simp: bindE_Inr)
  from mid(1) obtain files where "mid = paths @ files" "length files \<le> 100" "list_all valid_changed_path files"
    by (auto simp: changed_paths_page_def result_simps bail_def PULL_REQUEST_FILES_PER_PAGE_def split: http_reply.splits if_splits)
  then have "list_all valid_changed_path mid" "length mid \<le> n + 100" using Cons.prems by auto
  then show ?case using Cons.IH [of mid "n + 100"] mid(2) by (auto split: if_splits)
qed simp

lemma fetched_paths_valid:
  "fetch_pull_request_changed_paths W run token = Inr paths \<Longrightarrow> validate_changed_paths paths = Inr ()"
  by (auto simp: fetch_pull_request_changed_paths_def validate_changed_paths_def result_simps ensure_def MAX_PULL_REQUEST_FILES_def
      PULL_REQUEST_FILES_PER_PAGE_def simp del: upt_Suc dest!: changed_paths_loop [where n = 0])

section \<open>A concrete server\<close>

text \<open>Endpoints are path segments with query pairs; a reply is the number of the page that was asked for.\<close>

definition sample_policies :: "deployment_branch_policy list" where
  "sample_policies = [\<lparr>bp_name = ''v*'', bp_policy_type = ''tag''\<rparr>, \<lparr>bp_name = ''release/*'', bp_policy_type = ''branch''\<rparr>]"

definition sample_world :: "(string list \<times> (string \<times> string) list) github_world" where
  "sample_world = \<lparr>build_client = True, url_parse = (\<lambda>base. Some ([base], [])),
    url_extend = (\<lambda>(path, query) segments. Some (path @ segments, query)),
    url_push = (\<lambda>(path, query) segments. Some (path @ segments, query)),
    url_clear = (\<lambda>(path, query). (path, [])), url_append = (\<lambda>(path, query) pairs. (path, query @ pairs)),
    http_get = (\<lambda>(path, query) version token. Reply True ''200 OK'' None (Some (case map_of query ''page'' of Some page \<Rightarrow> page | None \<Rightarrow> []))),
    utf8_lossy = id,
    decode_environment = (\<lambda>_. Some \<lparr>em_name = ''Production'', em_protection_rules = [], em_deployment_branch_policy = Some (False, True)\<rparr>),
    decode_policies = (\<lambda>page. Some \<lparr>pp_total_count = 2, pp_branch_policies = (if page = ''1'' then sample_policies else [])\<rparr>),
    decode_variables = (\<lambda>_. Some \<lparr>vp_total_count = 1, vp_variables = [\<lparr>av_name = ''REGION'', av_value = ''eu''\<rparr>]\<rparr>),
    decode_branch = (\<lambda>_. None), decode_branches = (\<lambda>_. None), decode_files = (\<lambda>_. None),
    unicode_upper = map (\<lambda>c. if is_ascii_lowercase c then char_of (byte_of c - 32) else c), unicode_lower = to_ascii_lowercase\<rparr>"

definition sample_request :: environment_request where
  "sample_request = \<lparr>er_api_base = ''https://api.github.com'', er_owner = ''o'', er_repository = ''r'',
    er_environment_name = ''production'', er_github_ref = ''refs/heads/release/v1'', er_api_version = ''2022-11-28'', er_token = ''t''\<rparr>"

lemma show_nat_1: "show_nat 1 = ''1''"
  by code_simp

theorem custom_branch_policy_decides_witness:
  "enforce_custom_branch_policy sample_world sample_request = Inr () \<and>
   deployment_policy_reference (er_github_ref sample_request) = Inr (''branch'', ''release/v1'')"
proof -
  have one: "show_nat (Suc k) = ''1'' \<longleftrightarrow> k = 0" for k
    using show_nat_inj [of "Suc k" 1] unfolding show_nat_1 by simp
  have short: "\<not> 10485760 < length (show_nat (Suc k))" if "k < 10" for k :: nat
  proof -
    have "list_all (\<lambda>k. length (show_nat (Suc k)) \<le> 2) [0..<10]" by code_simp
    then have "length (show_nat (Suc k)) \<le> 2" using that unfolding list_all_iff by simp
    then show ?thesis by simp
  qed
  have serves: "serves_policies sample_world sample_request sample_policies"
    by (auto simp: short serves_policies_def sample_world_def sample_request_def github_repository_api_url_def github_api_get_json_def
        policy_page_url_def ok_or_def MAX_GITHUB_API_RESPONSE_BYTES_def one sample_policies_def)
  have limits: "list_all valid_policy sample_policies" "length sample_policies \<le> 1000" "policies_bytes sample_policies \<le> 256 * 1024"
    "deployment_policy_reference (er_github_ref sample_request) = Inr (''branch'', ''release/v1'')"
    "valid_pattern ''release/*''" "deployment_pattern_matches ''release/*'' ''release/v1'' = Inr True"
    by code_simp+
  have "list_ex (policy_allows ''branch'' ''release/v1'') sample_policies"
    using valid_pattern_matches [OF limits(5), of "''release/v1''"] limits(6) by (simp add: sample_policies_def policy_allows_def)
  then show ?thesis using custom_branch_policy_decides [OF serves limits(1-4)] limits(4) by simp
qed


end
