(* ===== verification/Spec2Isabelle.thy ===== *)
theory Spec2Isabelle
  imports Scheduling Trigger Concurrency_Client Repository_Access Hash_Files Log_Relay Environments
begin

text \<open>
  \<^bold>\<open>A verification development of gitzero\<close>

  gitzero runs GitHub workflow files on machines of its users. A control plane (a
  TypeScript worker, \<open>apps/control-plane\<close>) receives pull request events and sends runs to
  agents. An agent (\<open>crates/gitzero-agent\<close>) checks the repository out, compiles its workflow
  files with \<open>crates/gitzero-workflow\<close> to execution plans, evaluates the expressions in them
  with \<open>crates/gitzero-expression\<close>, and talks to the control plane in the messages of
  \<open>crates/gitzero-protocol\<close>. The development models the compiler, the expression evaluator,
  the protocol, the agent's clients of the control plane, and the agent's handling of logs.

  \<^bold>\<open>Conventions.\<close> A Rust \<open>String\<close> is the list of its UTF-8 bytes; \<open>chars()\<close> is
  \<open>utf8_chars\<close>. \<open>BTreeMap\<close> is an association list in key order with the operations \<open>bt_*\<close>,
  \<open>BTreeSet\<close> the operations \<open>bs_*\<close> or, where the order is never observed, a set. A \<open>Result\<close>
  is a sum with the error on the left and \<open>?\<close> is \<open>bindE\<close>; the loops are \<open>mapE\<close> and \<open>foldE\<close>.
  A panic (an \<open>expect\<close>, an index or a slice out of range) is the failure \<open>Panic\<close>, so that
  its absence is a theorem. Machine integers are words where they can overflow. What the
  crates outside the repository compute is a parameter: \<open>yaml_api\<close> for \<open>serde_yaml_ng\<close>,
  \<open>expr_api\<close> and the parser for \<open>github-actions-expressions\<close>, \<open>regex_api\<close> for \<open>regex\<close>,
  \<open>now\<close> for the clock. Each is used through the accessors the code calls, and what a theorem
  needs of it is a named hypothesis with an instance that satisfies it.

  \<^bold>\<open>Shared theories.\<close>
  \<^item> \<open>Prelude\<close>: results, the loops with their rules, the collections of rewrite rules.
  \<^item> \<open>Ordered_Map\<close>: the locale \<open>finite_map\<close> of what clients of a map rely on, interpreted
    for the sorted association lists.
  \<^item> \<open>Text_Ops\<close>: the operations of \<open>str\<close>, slices that panic, UTF-8.
  \<^item> \<open>Values\<close>: YAML and JSON values and the deserializers written by hand.
  \<^item> \<open>Paths\<close>: the components of Unix paths.

  \<^bold>\<open>The expression evaluator\<close> (\<open>gitzero-expression/src/lib.rs\<close>).
  \<^item> \<open>Expression\<close>: templates, the scan for the end of an expression, and the static analysis
    of what an expression refers to. C19: the scan finds the first closing braces outside
    string literals.
  \<^item> \<open>Evaluation\<close>: values, operators, property access, the functions, and rendering. C15: the
    analysis is sound, contexts that agree on the reported references render alike. C14:
    rendering with cursors equals a definition without indices. C20: no slice panics and no
    branch marked unreachable is reached. C21: \<open>format\<close> undoes writing a format string.
  \<^item> \<open>Hash_Files\<close>: \<open>hashFiles\<close>, with the file system, the traversal, the glob matcher, SHA-256
    and the clock as the fields of \<open>hash_world\<close>. C31: the result is the digest of exactly the
    selected files inside the workspace, in the order of their paths. The lemma
    \<open>hash_files_no_panic\<close> gives what \<open>Evaluation\<close> assumes of its parameter
    \<open>hash_workspace_files\<close>.

  \<^bold>\<open>The workflow compiler\<close> (\<open>gitzero-workflow/src/lib.rs\<close>), one theory per part.
  \<^item> \<open>Workflow_Model\<close>: the structs and enums, and the errors with one constructor per message.
  \<^item> \<open>Dependencies\<close>: \<open>validate_dependencies\<close>, a depth-first search with fuel (the number of
    jobs and one, which C17 shows to be enough). C4: it accepts exactly the closed and acyclic
    plans. C17: a reported cycle is one. A lemma: in an accepted plan
    some job can always start.
  \<^item> \<open>Permissions\<close>: token permissions. C8, C18: calls never escalate, and
    parsed permissions stay within what the token can carry. A lemma gives what a mapping means.
  \<^item> \<open>Matrix\<close>: job matrices. C9: expansion equals its specification. A lemma
    bounds it to 256 combinations.
  \<^item> \<open>Settings\<close>: concurrency, environment and defaults keys. C22: a concurrency group is bounded
    and depends on the allowed contexts only.
  \<^item> \<open>Steps\<close>: steps, background steps and parallel groups. C23: ids are unique and references
    point back to background steps.
  \<^item> \<open>Compile\<close>: \<open>compile\<close> itself. C2, C3: the plan is
    well-formed, compilation never panics. A lemma shows when planned ids are distinct.
  \<^item> \<open>Reusable\<close>: contracts of reusable workflows and the binding of calls. C24: paths are
    confined. Lemmas: inputs have the declared types, secrets are declared and complete.
  \<^item> \<open>Link\<close> and \<open>Linking\<close>: the expansion of calls and the recursive linker, with the theorems
    in the second theory. C16: linking never panics. C1: linked plans are closed and acyclic
    and called jobs have at most the permissions of their callers. A lemma says the same of
    the expansion of a dynamic matrix of calls. C25: an empty matrix of calls makes the linker
    panic. C26: nesting, cycles and the number of called workflows are bounded; the recursion
    ends because the level is checked against its maximum before each call.
  \<^item> \<open>Trigger\<close>: pull request triggers. C27: glob patterns mean what they say, and
    writing them round-trips. C10: matching implements an abstract
    trigger. The test for needing the changed files is sound.

  \<^bold>\<open>The protocol and the agent's clients.\<close>
  \<^item> \<open>Protocol\<close> (\<open>gitzero-protocol/src/lib.rs\<close>): messages and limits, with the derived orders as
    type class instances. C28: debug output reveals no secrets.
  \<^item> \<open>Request_Channels\<close>: the locale \<open>request_client\<close>, the contract of a client that registers a
    one-shot channel and waits, interpreted for the concurrency client and for the token and
    the secret requests.
  \<^item> \<open>Concurrency_Client\<close> (\<open>gitzero-agent/src/concurrency.rs\<close>): a step relation over
    interleaved requests. C29: its invariant. Lemmas: no decision is lost, unit ids are cut on character boundaries.
  \<^item> \<open>Repository_Access\<close> (\<open>gitzero-agent/src/repository_access.rs\<close>): C30,
    tokens are usable when returned. Lemmas: the expiry test is exact, secrets reach their
    request.

  \<^bold>\<open>The agent's log path.\<close> A method on \<open>&mut self\<close> is a function on the state that keeps its
  changes when it fails (\<open>act\<close>); what the code reads from the host is a parameter.
  \<^item> \<open>Agent_Base\<close>: that monad with the rules \<open>gives\<close>, \<open>keeps\<close> and \<open>frames\<close>, more operations of
    \<open>str\<close>, and the locale \<open>guarded_object\<close>: an object behind a lock whose methods keep an
    invariant, so every sequence of calls does.
  \<^item> \<open>Problem_Matcher\<close> (\<open>gitzero-agent/src/problem_matcher.rs\<close>): matcher files, matching over
    several lines, the registry of scopes. \<open>matcher_world\<close> holds the regex crate, the JSON
    parser and the file system. C32: the stored partial matches
    refine matching a window of lines. C33: no call sequence leaves
    the well-formed registries, panics or returns an annotation out of range.
  \<^item> \<open>Workflow_Commands\<close> (\<open>WorkflowCommandProcessor\<close> in \<open>gitzero-agent/src/executor.rs\<close>):
    commands in log lines, masks, annotations, legacy outputs. C34:
    its limits hold in every order of calls. C35: a mask takes effect.
    A lemma: decoding undoes escaping.
  \<^item> \<open>Log_Relay\<close> (\<open>forward_output\<close>, \<open>relay_masked_events\<close>, \<open>secret_values\<close>): the fuel of
    \<open>chunk_loop\<close> is the number of bytes, which \<open>chunk_loop_correct\<close> shows to be enough.
    C11: relayed messages contain no secret. C36:
    forwarding reaches the end of its input and sends masked chunks only.
    C37: a secret across the boundary of two chunks is not masked.
    A lemma keeps annotations within the limits of the protocol. The
    relay of one message is one transition, although the code takes the lock several times;
    base64, new ids and the closing of a channel are parameters; \<open>forward_output\<close> is modelled
    with a processor, as \<open>run_workflow_process\<close> passes it; without one the code forwards the
    chunks as they are, and the relay masks them.

  \<^bold>\<open>The agent's scheduler\<close> (\<open>execute_plan_inner\<close> in \<open>gitzero-agent/src/executor.rs\<close>).
  \<^item> \<open>Scheduler\<close>: the state of the loop, its turns, the matrices of reusable calls, the
    invariants of the groups. What a base job does is an event: which of the running jobs ends
    next, with what result, whether the run is cancelled. The sequences of events are all the
    interleavings.
  \<^item> \<open>Scheduling\<close>: C5: for a plan that is \<open>schedulable\<close> (known and acyclic
    needs, nested matrices) no panic, no deadlock, an end within one turn per job and one.
    C38: the report is complete. C6: all this for the
    plan of each file that compiles. C7: \<open>max-parallel\<close> and the needs of jobs
    hold in every reachable state. C39: a failed job can be missing in the report.

  \<^bold>\<open>The agent's requests to the GitHub API\<close> (\<open>gitzero-agent/src/executor.rs\<close>).
  \<^item> \<open>Deployment_Patterns\<close>: \<open>deployment_pattern_matches\<close> with its memo table.
    C13: it decides the language of the pattern, an inductive
    relation over tokens.
  \<^item> \<open>Environments\<close>: deployment environments, with HTTP, URLs and JSON decoding as the fields of
    \<open>github_world\<close>. C40: with a server that pages a list of policies
    the check decides whether one admits the ref. C12: with any
    server, over time and through the cache of the run, variables come from environments open to
    the ref only. Lemmas: variables of the environment replace those of the run whatever their
    case, fetched lists of changed files are valid.

  \<^bold>\<open>Not modelled.\<close> The control plane is another language. Of the agent, the rest of the
  executor, the cache and artifact services, action metadata and the entry point are left
  out: they run processes, move files and talk HTTP, with little state of their own between
  the calls. Derived (de)serialization is library code. In the clients, the
  variant without a remote exists in tests only; a transition of the state machines is the
  code between two suspension points, and a send on a one-shot channel after the lock is
  released counts as part of it, since nothing else can touch that channel.
\<close>

end
